(* ===== verification/Broker_Prelude.thy ===== *)
theory Broker_Prelude
  imports Complex_Main "HOL-Library.AList" "HOL-Library.Signed_Division" "HOL-Library.Multiset"
begin

text \<open>
  Shared ground of the development: the collections of facts the component proofs draw on, Go's
  integers, times and durations, and the association lists that stand for Go's maps where the
  code iterates over them.

  A Go \<open>map\<close> is an association list with distinct keys.  Its order stands for the order of one
  iteration, which Go leaves open; the properties are stated for every such list.
\<close>

named_theorems go_defs \<open>definitions of the small Go library functions\<close>
named_theorems time_simps \<open>rewriting of times and durations\<close>

section \<open>Integers\<close>

text \<open>
  Go's \<open>int\<close> and \<open>int64\<close> are 64-bit two's complement.  A value is an \<^typ>\<open>int\<close>; \<open>wrap64\<close> is
  written where an operation of the source can leave the range.
\<close>

definition wrap64 :: "int \<Rightarrow> int" where
  "wrap64 x = (x + 2 ^ 63) mod 2 ^ 64 - 2 ^ 63"

definition in64 :: "int \<Rightarrow> bool" where
  "in64 x \<longleftrightarrow> - (2 ^ 63) \<le> x \<and> x < 2 ^ 63"

lemma wrap64_id [simp]: "in64 x \<Longrightarrow> wrap64 x = x"
  by (simp add: wrap64_def in64_def)

lemma in64_wrap64 [simp]: "in64 (wrap64 x)"
proof -
  have "0 \<le> (x + 2 ^ 63) mod (2 ^ 64 :: int)" "(x + 2 ^ 63) mod (2 ^ 64 :: int) < 2 ^ 64"
    by simp_all
  then show ?thesis by (simp add: wrap64_def in64_def)
qed

lemma wrap64_wrap64 [simp]: "wrap64 (wrap64 x) = wrap64 x"
  by simp

lemma wrap64_mod: "wrap64 x mod 2 ^ 64 = x mod 2 ^ 64"
proof -
  have "((x + 2 ^ 63) mod 2 ^ 64 - 2 ^ 63) mod 2 ^ 64 = (x + 2 ^ 63 - 2 ^ 63) mod (2 ^ 64 :: int)"
    by (rule mod_diff_left_eq)
  then show ?thesis by (simp add: wrap64_def)
qed

text \<open>Division of the source truncates towards zero.\<close>

definition go_div :: "int \<Rightarrow> int \<Rightarrow> int" where
  "go_div a b = a sdiv b"

lemma go_div_nonneg: "0 \<le> a \<Longrightarrow> 0 < b \<Longrightarrow> go_div a b = a div b"
  by (simp add: go_div_def signed_divide_int_def sgn_if)

section \<open>Times and durations\<close>

text \<open>
  A \<open>time.Time\<close> is the number of nanoseconds since 1 January of year 1, UTC, so that the zero
  value is \<open>0\<close> and \<open>IsZero\<close> a comparison with it.  A \<open>time.Duration\<close> is a number of
  nanoseconds; \<open>Sub\<close> saturates at the ends of the 64-bit range.
\<close>

type_synonym gotime = int
type_synonym duration = int

abbreviation (input) nanosecond :: duration where "nanosecond \<equiv> 1"
definition millisecond :: duration where "millisecond = 1000000"
definition second :: duration where "second = 1000000000"
definition minute :: duration where "minute = 60 * second"
definition hour :: duration where "hour = 60 * minute"

definition time_zero :: gotime where "time_zero = 0"
definition is_zero :: "gotime \<Rightarrow> bool" where "is_zero t \<longleftrightarrow> t = time_zero"

definition max_duration :: duration where "max_duration = 2 ^ 63 - 1"
definition min_duration :: duration where "min_duration = - (2 ^ 63)"

definition time_sub :: "gotime \<Rightarrow> gotime \<Rightarrow> duration" where
  "time_sub t u = max min_duration (min max_duration (t - u))"

text \<open>Nanoseconds from year 1 to the Unix epoch.\<close>

definition unix_epoch :: gotime where "unix_epoch = 62135596800 * 1000000000"

definition unix_milli :: "gotime \<Rightarrow> int" where
  "unix_milli t = (t - unix_epoch) div 1000000"

definition time_of_milli :: "int \<Rightarrow> gotime" where
  "time_of_milli ms = ms * 1000000 + unix_epoch"

definition dur_milliseconds :: "duration \<Rightarrow> int" where
  "dur_milliseconds d = go_div d 1000000"

lemmas duration_units [time_simps] =
  millisecond_def second_def minute_def hour_def time_zero_def

lemma time_sub_exact [time_simps]:
  "min_duration \<le> t - u \<Longrightarrow> t - u \<le> max_duration \<Longrightarrow> time_sub t u = t - u"
  by (simp add: time_sub_def)

lemma time_sub_less_iff:
  "min_duration < d \<Longrightarrow> d \<le> max_duration \<Longrightarrow> time_sub t u < d \<longleftrightarrow> t - u < d"
  by (auto simp: time_sub_def min_def max_def)

lemma time_sub_ge_iff:
  "min_duration < d \<Longrightarrow> d \<le> max_duration \<Longrightarrow> d \<le> time_sub t u \<longleftrightarrow> d \<le> t - u"
  using time_sub_less_iff [of d t u] by linarith

lemma time_sub_neg_iff: "time_sub t u < 0 \<longleftrightarrow> t < u"
  by (auto simp: time_sub_def min_def max_def min_duration_def max_duration_def)

lemma unix_milli_of_milli [simp]: "unix_milli (time_of_milli ms) = ms"
  by (simp add: unix_milli_def time_of_milli_def)

lemma unix_milli_mono: "t \<le> u \<Longrightarrow> unix_milli t \<le> unix_milli u"
  by (simp add: unix_milli_def zdiv_mono1)

section \<open>Association lists as maps\<close>

lemma distinct_update [simp]: "distinct (map fst (AList.update k v xs)) \<longleftrightarrow> distinct (map fst xs)"
proof
  show "distinct (map fst xs) \<Longrightarrow> distinct (map fst (AList.update k v xs))"
    by (rule distinct_update)
  show "distinct (map fst (AList.update k v xs)) \<Longrightarrow> distinct (map fst xs)"
    by (induction xs) (auto simp: dom_update split: if_splits)
qed

lemma in_set_alist_iff:
  "distinct (map fst xs) \<Longrightarrow> (k, v) \<in> set xs \<longleftrightarrow> map_of xs k = Some v"
  by (auto dest: map_of_SomeD)

lemma filter_distinct_fst: "distinct (map fst xs) \<Longrightarrow> distinct (map fst (filter P xs))"
  by (induction xs) auto

section \<open>Lists\<close>

lemma dropWhile_suffix_cases:
  obtains k where "dropWhile P xs = drop k xs" "k \<le> length xs" "\<forall>x\<in>set (take k xs). P x"
proof
  show "dropWhile P xs = drop (length (takeWhile P xs)) xs"
    by (rule dropWhile_eq_drop)
  show "length (takeWhile P xs) \<le> length xs" by (rule length_takeWhile_le)
  show "\<forall>x\<in>set (take (length (takeWhile P xs)) xs). P x"
    by (simp add: takeWhile_eq_take [symmetric]) (auto dest: set_takeWhileD)
qed

end
