(* ===== verification/Go_Strings.thy ===== *)
theory Go_Strings
  imports Broker_Prelude
begin

text \<open>
  The functions of Go's \<open>strings\<close> and \<open>path/filepath\<close> packages that the broker calls.  A Go string
  is a sequence of bytes, and so is a \<^typ>\<open>string\<close> here; white space is what \<open>unicode.IsSpace\<close>
  accepts, read from the UTF-8 bytes (\<open>space_len\<close> is the number of bytes of a leading space).
  Paths are the Unix ones.
\<close>

section \<open>White space\<close>

definition ascii_spaces :: "char list" where
  "ascii_spaces = [CHR 0x09, CHR 0x0A, CHR 0x0B, CHR 0x0C, CHR 0x0D, CHR '' '']"

definition wide_spaces :: "string list" where
  "wide_spaces =
     [[CHR 0xC2, CHR 0x85], [CHR 0xC2, CHR 0xA0], [CHR 0xE1, CHR 0x9A, CHR 0x80],
      [CHR 0xE2, CHR 0x80, CHR 0x80], [CHR 0xE2, CHR 0x80, CHR 0x81], [CHR 0xE2, CHR 0x80, CHR 0x82],
      [CHR 0xE2, CHR 0x80, CHR 0x83], [CHR 0xE2, CHR 0x80, CHR 0x84], [CHR 0xE2, CHR 0x80, CHR 0x85],
      [CHR 0xE2, CHR 0x80, CHR 0x86], [CHR 0xE2, CHR 0x80, CHR 0x87], [CHR 0xE2, CHR 0x80, CHR 0x88],
      [CHR 0xE2, CHR 0x80, CHR 0x89], [CHR 0xE2, CHR 0x80, CHR 0x8A], [CHR 0xE2, CHR 0x80, CHR 0xA8],
      [CHR 0xE2, CHR 0x80, CHR 0xA9], [CHR 0xE2, CHR 0x80, CHR 0xAF], [CHR 0xE2, CHR 0x81, CHR 0x9F],
      [CHR 0xE3, CHR 0x80, CHR 0x80]]"

definition has_prefix :: "string \<Rightarrow> string \<Rightarrow> bool" where
  [go_defs]: "has_prefix s p \<longleftrightarrow> take (length p) s = p"

definition has_suffix :: "string \<Rightarrow> string \<Rightarrow> bool" where
  [go_defs]: "has_suffix s p \<longleftrightarrow> has_prefix (rev s) (rev p)"

definition trim_prefix :: "string \<Rightarrow> string \<Rightarrow> string" where
  "trim_prefix s p = (if has_prefix s p then drop (length p) s else s)"

fun first_space :: "string list \<Rightarrow> string \<Rightarrow> nat" where
  "first_space [] s = 0"
| "first_space (w # ws) s = (if has_prefix s w then length w else first_space ws s)"

definition space_len :: "string \<Rightarrow> nat" where
  "space_len s = (case s of [] \<Rightarrow> 0
     | c # _ \<Rightarrow> if c \<in> set ascii_spaces then 1 else first_space wide_spaces s)"

text \<open>The number of bytes of a trailing space, read on the reversed string.\<close>

definition space_len_rev :: "string \<Rightarrow> nat" where
  "space_len_rev r = (case r of [] \<Rightarrow> 0
     | c # _ \<Rightarrow> if c \<in> set ascii_spaces then 1 else first_space (map rev wide_spaces) r)"

fun trim_by :: "(string \<Rightarrow> nat) \<Rightarrow> nat \<Rightarrow> string \<Rightarrow> string" where
  "trim_by len 0 s = s"
| "trim_by len (Suc fuel) s = (if len s = 0 then s else trim_by len fuel (drop (len s) s))"

text \<open>Every round removes at least one byte, so the length of the string is fuel enough.\<close>

definition trim_left :: "string \<Rightarrow> string" where
  "trim_left s = trim_by space_len (length s) s"

definition trim_right :: "string \<Rightarrow> string" where
  "trim_right s = rev (trim_by space_len_rev (length s) (rev s))"

definition trim_space :: "string \<Rightarrow> string" where
  "trim_space s = trim_right (trim_left s)"

text \<open>\<open>strings.Fields\<close>: the maximal runs without white space, in order.\<close>

function str_fields_from :: "string \<Rightarrow> string \<Rightarrow> string list" where
  "str_fields_from cur [] = (if cur = [] then [] else [rev cur])"
| "str_fields_from cur (c # cs) =
     (case space_len (c # cs) of
        0 \<Rightarrow> str_fields_from (c # cur) cs
      | Suc n \<Rightarrow> (if cur = [] then [] else [rev cur]) @ str_fields_from [] (drop n cs))"
  by pat_completeness auto
termination
  by (relation "measure (\<lambda>(cur, s). length s)") auto

definition str_fields :: "string \<Rightarrow> string list" where
  "str_fields s = str_fields_from [] s"

lemma has_prefix_Nil [simp]: "has_prefix s []"
  by (simp add: has_prefix_def)

lemma has_prefix_append [simp]: "has_prefix (p @ s) p"
  by (simp add: has_prefix_def)

lemma has_prefixE: "has_prefix s p \<Longrightarrow> (\<And>r. s = p @ r \<Longrightarrow> thesis) \<Longrightarrow> thesis"
  unfolding has_prefix_def by (metis append_take_drop_id)

lemma first_space_le: "first_space ws s \<le> length s"
  by (induction ws) (auto elim!: has_prefixE)

lemma space_len_le: "space_len s \<le> length s"
  using first_space_le [of wide_spaces s] by (cases s) (auto simp: space_len_def)

lemma has_prefix_hd: "has_prefix (c # cs) p \<Longrightarrow> p \<noteq> [] \<Longrightarrow> hd p = c"
  by (cases p) (auto simp: has_prefix_def)

lemma first_space_none: "c \<notin> hd ` set ws \<Longrightarrow> [] \<notin> set ws \<Longrightarrow> first_space ws (c # cs) = 0"
  by (induction ws) (auto dest: has_prefix_hd)

lemma fields_Nil [simp]: "str_fields [] = []"
  by (simp add: str_fields_def)

lemma fields_from_nonempty: "t \<in> set (str_fields_from cur s) \<Longrightarrow> t \<noteq> []"
  by (induction cur s rule: str_fields_from.induct) (auto split: nat.splits if_splits)

lemma fields_nonempty: "t \<in> set (str_fields s) \<Longrightarrow> t \<noteq> []"
  unfolding str_fields_def by (rule fields_from_nonempty)

text \<open>A byte of a field is a byte of the string.\<close>

lemma fields_from_bytes: "t \<in> set (str_fields_from cur s) \<Longrightarrow> set t \<subseteq> set cur \<union> set s"
proof (induction cur s rule: str_fields_from.induct)
  case (2 cur c cs)
  show ?case
  proof (cases "space_len (c # cs)")
    case 0
    with 2 show ?thesis by auto
  next
    case (Suc n)
    with 2 show ?thesis by (auto split: if_splits dest: in_set_dropD)
  qed
qed (auto split: if_splits)

lemma fields_from_word:
  assumes "\<forall>c\<in>set cs. c \<notin> set ascii_spaces \<and> c \<notin> hd ` set wide_spaces"
  shows "str_fields_from cur cs = (if rev cur @ cs = [] then [] else [rev cur @ cs])"
  using assms
proof (induction cs arbitrary: cur)
  case (Cons c cs)
  have "first_space wide_spaces (c # cs) = 0"
  proof (rule first_space_none)
    show "c \<notin> hd ` set wide_spaces" using Cons.prems by simp
    show "[] \<notin> set wide_spaces" by (simp add: wide_spaces_def)
  qed
  then have "space_len (c # cs) = 0"
    using Cons.prems by (simp add: space_len_def)
  with Cons show ?case by simp
qed simp

subsection \<open>Printable ASCII words\<close>

definition plain_char :: "char \<Rightarrow> bool" where
  "plain_char c \<longleftrightarrow> 33 \<le> (of_char c :: nat) \<and> (of_char c :: nat) \<le> 126"

definition plain :: "string \<Rightarrow> bool" where
  "plain s \<longleftrightarrow> (\<forall>c\<in>set s. plain_char c)"

lemma plain_Nil [simp]: "plain []"
  and plain_Cons [simp]: "plain (c # s) \<longleftrightarrow> plain_char c \<and> plain s"
  and plain_append [simp]: "plain (s @ t) \<longleftrightarrow> plain s \<and> plain t"
  and plain_rev [simp]: "plain (rev s) \<longleftrightarrow> plain s"
  by (auto simp: plain_def)

lemma plain_char_not_space:
  "plain_char c \<Longrightarrow> c \<notin> set ascii_spaces"
  "plain_char c \<Longrightarrow> c \<notin> hd ` set wide_spaces"
  "plain_char c \<Longrightarrow> c \<notin> hd ` set (map rev wide_spaces)"
  by (auto simp: plain_char_def ascii_spaces_def wide_spaces_def)

lemma wide_spaces_nonempty: "[] \<notin> set wide_spaces" "[] \<notin> set (map rev wide_spaces)"
  by (simp_all add: wide_spaces_def)

lemma space_len_plain: "plain_char c \<Longrightarrow> space_len (c # cs) = 0"
  by (simp only: space_len_def list.case plain_char_not_space first_space_none
      wide_spaces_nonempty not_False_eq_True if_False)

lemma space_len_rev_plain: "plain_char c \<Longrightarrow> space_len_rev (c # cs) = 0"
  by (simp only: space_len_rev_def list.case plain_char_not_space first_space_none
      wide_spaces_nonempty not_False_eq_True if_False)

lemma trim_by_none: "len s = 0 \<Longrightarrow> trim_by len n s = s"
  by (cases n) auto

lemma trim_left_plain: "plain s \<Longrightarrow> trim_left s = s"
  by (cases s) (auto simp: trim_left_def space_len_plain)

lemma trim_right_plain: "plain s \<Longrightarrow> trim_right s = s"
proof (cases "rev s")
  case (Cons c cs)
  assume "plain s"
  with Cons have "plain_char c" by (metis plain_Cons plain_rev)
  then have "trim_by space_len_rev (length s) (rev s) = rev s"
    by (simp add: Cons trim_by_none space_len_rev_plain)
  then show ?thesis by (simp add: trim_right_def)
qed (simp add: trim_right_def)

lemma trim_space_plain [simp]: "plain s \<Longrightarrow> trim_space s = s"
  by (simp add: trim_space_def trim_left_plain trim_right_plain)

lemma str_fields_plain: "plain s \<Longrightarrow> str_fields s = (if s = [] then [] else [s])"
  unfolding str_fields_def
  by (subst fields_from_word) (auto simp: plain_def dest: plain_char_not_space)

section \<open>Searching\<close>

text \<open>\<open>strings.Index\<close> is \<open>None\<close> where Go returns \<open>-1\<close>.\<close>

fun index_from :: "nat \<Rightarrow> string \<Rightarrow> string \<Rightarrow> nat option" where
  "index_from i [] p = (if p = [] then Some i else None)"
| "index_from i (c # cs) p = (if has_prefix (c # cs) p then Some i else index_from (Suc i) cs p)"

definition str_index :: "string \<Rightarrow> string \<Rightarrow> nat option" where
  "str_index s p = index_from 0 s p"

definition str_contains :: "string \<Rightarrow> string \<Rightarrow> bool" where
  "str_contains s p \<longleftrightarrow> str_index s p \<noteq> None"

text \<open>\<open>strings.TrimRight(s, cs)\<close>.\<close>

definition trim_right_set :: "char list \<Rightarrow> string \<Rightarrow> string" where
  "trim_right_set cs s = rev (dropWhile (\<lambda>c. c \<in> set cs) (rev s))"

lemma index_from_Some:
  "index_from i s p = Some j \<Longrightarrow> i \<le> j \<and> j - i \<le> length s \<and> has_prefix (drop (j - i) s) p"
proof (induction i s p rule: index_from.induct)
  case (2 i c cs p)
  show ?case
  proof (cases "has_prefix (c # cs) p")
    case False
    with 2 have "Suc i \<le> j \<and> j - Suc i \<le> length cs \<and> has_prefix (drop (j - Suc i) cs) p" by simp
    then show ?thesis by (auto simp: drop_Cons' Suc_diff_Suc)
  qed (use 2 in auto)
qed (simp split: if_splits)

lemma str_index_Some:
  "str_index s p = Some j \<Longrightarrow> j \<le> length s \<and> has_prefix (drop j s) p"
  using index_from_Some [of 0 s p j] by (simp add: str_index_def)

section \<open>Numbers as decimal text\<close>

fun nat_digits :: "nat \<Rightarrow> string" where
  "nat_digits n = (if n < 10 then [char_of (48 + n)] else nat_digits (n div 10) @ [char_of (48 + n mod 10)])"

declare nat_digits.simps [simp del]

text \<open>\<open>fmt\<close>'s \<open>%d\<close> and \<open>strconv.Itoa\<close>.\<close>

definition itoa :: "int \<Rightarrow> string" where
  "itoa i = (if i < 0 then CHR ''-'' # nat_digits (nat (- i)) else nat_digits (nat i))"

definition digit_val :: "char \<Rightarrow> nat" where
  "digit_val c = (of_char c :: nat) - 48"

definition is_digit :: "char \<Rightarrow> bool" where
  "is_digit c \<longleftrightarrow> 48 \<le> (of_char c :: nat) \<and> (of_char c :: nat) \<le> 57"

definition dec_val :: "string \<Rightarrow> nat" where
  "dec_val s = foldl (\<lambda>n c. n * 10 + digit_val c) 0 s"

lemma of_char_digit: "n < 10 \<Longrightarrow> of_char (char_of (48 + n) :: char) = (48 + n :: nat)"
  by (simp add: of_char_of)

lemma nat_digits_digits: "c \<in> set (nat_digits n) \<Longrightarrow> is_digit c"
proof (induction n rule: nat_digits.induct)
  case (1 n)
  show ?case
  proof (cases "n < 10")
    case True
    with "1.prems" have "c = char_of (48 + n)" by (subst (asm) nat_digits.simps) simp
    with True show ?thesis by (simp only: is_digit_def of_char_digit) simp
  next
    case False
    have "is_digit (char_of (48 + n mod 10))"
      by (simp only: is_digit_def of_char_digit mod_less_divisor) simp
    with False 1 show ?thesis by (subst (asm) (2) nat_digits.simps) auto
  qed
qed

lemma nat_digits_nonempty [simp]: "nat_digits n \<noteq> []"
  by (subst nat_digits.simps) simp

lemma dec_val_nat_digits: "dec_val (nat_digits n) = n"
proof (induction n rule: nat_digits.induct)
  case (1 n)
  show ?case
  proof (cases "n < 10")
    case True
    then have "digit_val (char_of (48 + n)) = n"
      by (simp only: digit_val_def of_char_digit)
    with True show ?thesis
      by (subst nat_digits.simps) (simp add: dec_val_def)
  next
    case False
    have "digit_val (char_of (48 + n mod 10)) = n mod 10"
      by (simp only: digit_val_def of_char_digit mod_less_divisor diff_add_inverse)
    with False 1 show ?thesis
      by (subst nat_digits.simps) (simp add: dec_val_def)
  qed
qed

lemma nat_digits_inject [simp]: "nat_digits m = nat_digits n \<longleftrightarrow> m = n"
  by (metis dec_val_nat_digits)

lemma itoa_inject [simp]: "itoa i = itoa j \<longleftrightarrow> i = j"
proof -
  have "CHR ''-'' \<notin> set (nat_digits n)" for n
    using nat_digits_digits [of "CHR ''-''" n] by (auto simp: is_digit_def)
  then have neq: "CHR ''-'' # nat_digits m \<noteq> nat_digits n" for m n
    by (metis list.set_intros(1))
  from neq [symmetric] neq show ?thesis by (auto simp: itoa_def nat_eq_iff)
qed

end
