(* ===== verification/Go_Float.thy ===== *)
theory Go_Float
  imports Broker_Prelude "HOL-Library.Log_Nat"
begin

text \<open>
  Go's \<open>float64\<close>.  A finite double is a \<^typ>\<open>rat\<close>; \<open>fl64\<close> rounds a rational to the nearest
  53-bit significand, ties to even, and every arithmetic operation of the source on doubles is the
  exact operation followed by \<open>fl64\<close>.  Overflow to infinity and the loss of precision below
  \<open>2 ^ -1022\<close> are outside the model: the broker's doubles are load fractions, ratios of counts and
  thresholds, all far from both ends.

  What the broker relies on is that rounding is monotone and keeps the numbers a double can hold
  exactly; the locale \<open>rounding\<close> states that, and \<open>fl64\<close> is its interpretation.
\<close>

section \<open>Rounding to an integer, ties to even\<close>

definition rne :: "rat \<Rightarrow> int" where
  "rne x = (let f = floor x; r = x - of_int f in
     if r < 1/2 then f else if 1/2 < r then f + 1 else if even f then f else f + 1)"

lemma rne_cases: "rne x = floor x \<or> rne x = floor x + 1"
  by (simp add: rne_def Let_def)

lemma rne_of_int [simp]: "rne (of_int n) = n"
  by (simp add: rne_def)

lemma rne_mono: assumes "x \<le> y" shows "rne x \<le> rne y"
proof (cases "floor x = floor y")
  case True
  with assms show ?thesis by (auto simp: rne_def Let_def)
next
  case False
  with assms have "floor x + 1 \<le> floor y" using floor_mono [OF assms] by linarith
  with rne_cases [of x] rne_cases [of y] show ?thesis by linarith
qed

section \<open>The binary exponent\<close>

text \<open>\<open>bin_exp x\<close> is the \<open>e\<close> with \<open>2 ^ e \<le> x < 2 ^ (e + 1)\<close>, for positive \<open>x\<close>.\<close>

definition bin_exp :: "rat \<Rightarrow> int" where
  "bin_exp x = (let (p, q) = quotient_of x; k = bitlen p - bitlen q in
     if 2 powi k \<le> x then k else k - 1)"

lemma bitlen_powi:
  assumes "0 < n"
  shows "2 powi (bitlen n - 1) \<le> (of_int n :: rat)" "(of_int n :: rat) < 2 powi (bitlen n)"
proof -
  have b: "0 < bitlen n" using bitlen_bounds [OF assms] assms by (cases "bitlen n \<le> 0") auto
  from bitlen_bounds [OF assms] have "(2::int) ^ nat (bitlen n - 1) \<le> n" "n < 2 ^ nat (bitlen n)" by auto
  then have "(2::rat) ^ nat (bitlen n - 1) \<le> of_int n" "of_int n < (2::rat) ^ nat (bitlen n)"
    by (metis of_int_le_iff of_int_numeral of_int_power) (metis \<open>n < 2 ^ nat (bitlen n)\<close> of_int_less_iff of_int_numeral of_int_power)
  with b show "2 powi (bitlen n - 1) \<le> (of_int n :: rat)" "(of_int n :: rat) < 2 powi (bitlen n)"
    by (auto simp: power_int_def)
qed

lemma bin_exp_bounds:
  assumes "0 < x"
  shows "2 powi (bin_exp x) \<le> x" "x < 2 powi (bin_exp x + 1)"
proof -
  obtain p q where pq: "quotient_of x = (p, q)" by fastforce
  then have q: "0 < q" and x: "x = of_int p / of_int q"
    by (auto simp: quotient_of_denom_pos quotient_of_div)
  with assms have p: "0 < p" by (simp add: zero_less_divide_iff)
  define k where "k = bitlen p - bitlen q"
  have qr: "0 < (of_int q :: rat)" using q by simp
  have "2 powi (k - 1) * of_int q < (2 powi (k - 1)) * (2 powi (bitlen q) :: rat)"
    by (rule mult_strict_left_mono [OF bitlen_powi(2) [OF q]]) simp
  also have "\<dots> = 2 powi (bitlen p - 1)"
    by (simp add: k_def power_int_add [symmetric])
  also have "\<dots> \<le> of_int p" by (rule bitlen_powi(1) [OF p])
  finally have lo: "2 powi (k - 1) < x" using qr by (simp add: x pos_less_divide_eq)
  have "of_int p < (2 powi (bitlen p) :: rat)" by (rule bitlen_powi(2) [OF p])
  also have "\<dots> = 2 powi (k + 1) * 2 powi (bitlen q - 1)"
    by (simp add: k_def power_int_add [symmetric])
  also have "\<dots> \<le> 2 powi (k + 1) * of_int q"
    by (rule mult_left_mono [OF bitlen_powi(1) [OF q]]) simp
  finally have hi: "x < 2 powi (k + 1)" using qr by (simp add: x pos_divide_less_eq)
  have "bin_exp x = (if 2 powi k \<le> x then k else k - 1)"
    by (simp add: bin_exp_def pq k_def)
  with lo hi show "2 powi (bin_exp x) \<le> x" "x < 2 powi (bin_exp x + 1)"
    by (auto simp: not_le)
qed

lemma bin_exp_mono:
  assumes "0 < x" "x \<le> y" shows "bin_exp x \<le> bin_exp y"
proof (rule ccontr)
  assume "\<not> bin_exp x \<le> bin_exp y"
  then have "(2::rat) powi (bin_exp y + 1) \<le> 2 powi (bin_exp x)"
    by (intro power_int_increasing) auto
  with bin_exp_bounds [of x] bin_exp_bounds [of y] assms show False by linarith
qed

section \<open>Rounding to a double\<close>

definition ulp :: "rat \<Rightarrow> rat" where
  "ulp x = 2 powi (bin_exp x - 52)"

definition fl_pos :: "rat \<Rightarrow> rat" where
  "fl_pos x = of_int (rne (x / ulp x)) * ulp x"

definition fl64 :: "rat \<Rightarrow> rat" where
  "fl64 x = (if x = 0 then 0 else if 0 < x then fl_pos x else - fl_pos (- x))"

lemma ulp_pos [simp]: "0 < ulp x"
  by (simp add: ulp_def)

lemma scaled_bounds:
  assumes "0 < x" shows "2 ^ 52 \<le> x / ulp x" "x / ulp x < 2 ^ 53"
proof -
  have "2 ^ 52 * ulp x = 2 powi (bin_exp x)" "2 ^ 53 * ulp x = 2 powi (bin_exp x + 1)"
    by (simp_all add: ulp_def power_int_diff power_int_add field_simps)
  with bin_exp_bounds [OF assms] show "2 ^ 52 \<le> x / ulp x" "x / ulp x < 2 ^ 53"
    by (simp_all add: pos_le_divide_eq pos_divide_less_eq)
qed

lemma fl_pos_bounds:
  assumes "0 < x"
  shows "2 powi (bin_exp x) \<le> fl_pos x" "fl_pos x \<le> 2 powi (bin_exp x + 1)"
proof -
  have e: "2 ^ 52 * ulp x = 2 powi (bin_exp x)" "2 ^ 53 * ulp x = 2 powi (bin_exp x + 1)"
    by (simp_all add: ulp_def power_int_diff power_int_add field_simps)
  from rne_mono [OF scaled_bounds(1) [OF assms]] rne_of_int [of "2 ^ 52"]
  have "2 ^ 52 \<le> rne (x / ulp x)" by simp
  then have "(2 ^ 52 :: rat) \<le> of_int (rne (x / ulp x))"
    by (metis of_int_le_iff of_int_numeral of_int_power)
  then have "2 ^ 52 * ulp x \<le> fl_pos x" by (simp add: fl_pos_def)
  moreover from rne_mono [of "x / ulp x" "2 ^ 53"] scaled_bounds(2) [OF assms] rne_of_int [of "2 ^ 53"]
  have "rne (x / ulp x) \<le> 2 ^ 53" by simp
  then have "of_int (rne (x / ulp x)) \<le> (2 ^ 53 :: rat)"
    by (metis of_int_le_iff of_int_numeral of_int_power)
  then have "fl_pos x \<le> 2 ^ 53 * ulp x" by (simp add: fl_pos_def)
  ultimately show "2 powi (bin_exp x) \<le> fl_pos x" "fl_pos x \<le> 2 powi (bin_exp x + 1)"
    by (simp_all only: e)
qed

lemma fl_pos_pos: "0 < x \<Longrightarrow> 0 < fl_pos x"
  using fl_pos_bounds(1) [of x] by (meson less_le_trans zero_less_numeral zero_less_power_int)

lemma fl_pos_mono:
  assumes "0 < x" "x \<le> y" shows "fl_pos x \<le> fl_pos y"
proof (cases "bin_exp x = bin_exp y")
  case True
  then have u: "ulp x = ulp y" by (simp add: ulp_def)
  have "x / ulp y \<le> y / ulp y" using assms by (simp add: divide_right_mono less_imp_le)
  then have "rne (x / ulp y) \<le> rne (y / ulp y)" by (rule rne_mono)
  then show ?thesis by (simp add: fl_pos_def u mult_right_mono less_imp_le)
next
  case False
  with bin_exp_mono [OF assms] have "bin_exp x + 1 \<le> bin_exp y" by linarith
  then have "(2::rat) powi (bin_exp x + 1) \<le> 2 powi (bin_exp y)"
    by (intro power_int_increasing) auto
  with fl_pos_bounds(2) [of x] fl_pos_bounds(1) [of y] assms show ?thesis by linarith
qed

lemma fl64_mono: assumes "x \<le> y" shows "fl64 x \<le> fl64 y"
proof -
  consider "0 < x" | "x \<le> 0" "0 \<le> y" | "y < 0" by linarith
  then show ?thesis
  proof cases
    case 1
    with assms fl_pos_mono [of x y] show ?thesis by (simp add: fl64_def)
  next
    case 2
    with fl_pos_pos [of y] fl_pos_pos [of "- x"] show ?thesis by (auto simp: fl64_def)
  next
    case 3
    with assms fl_pos_mono [of "- y" "- x"] show ?thesis by (simp add: fl64_def)
  qed
qed

text \<open>Doubles are the numbers with at most 53 significant bits; rounding keeps them.\<close>

lemma fl_pos_dyadic:
  assumes "0 < m" "m < 2 ^ 53"
  shows "fl_pos (of_int m * 2 powi e) = of_int m * 2 powi e"
proof -
  let ?x = "of_int m * 2 powi e :: rat"
  have pos: "0 < ?x" using assms by simp
  have "(of_int m :: rat) < 2 ^ 53" using assms(2) by (metis of_int_less_iff of_int_numeral of_int_power)
  then have "?x < 2 ^ 53 * 2 powi e" by simp
  also have "\<dots> = 2 powi (e + 53)" by (simp add: power_int_add field_simps)
  finally have "2 powi (bin_exp ?x) < (2 powi (e + 53) :: rat)"
    using bin_exp_bounds(1) [OF pos] by linarith
  then have "bin_exp ?x < e + 53"
    by (meson not_less one_le_numeral order_less_le_trans power_int_increasing less_irrefl)
  define n where "n = nat (e - (bin_exp ?x - 52))"
  with \<open>bin_exp ?x < e + 53\<close> have n: "e = (bin_exp ?x - 52) + int n" by simp
  have "(2::rat) powi e = 2 powi (bin_exp ?x - 52) * 2 ^ n"
    by (subst n) (simp add: power_int_add)
  then have eq: "?x = of_int m * 2 ^ n * ulp ?x" by (simp add: ulp_def mult.commute)
  have "?x / ulp ?x = of_int (m * 2 ^ n)"
    by (subst eq) (simp add: less_imp_neq [OF ulp_pos, symmetric])
  then have "fl_pos ?x = of_int (m * 2 ^ n) * ulp ?x" by (simp only: fl_pos_def rne_of_int)
  also have "\<dots> = ?x" by (subst (2) eq) simp
  finally show ?thesis .
qed

definition is_double :: "rat \<Rightarrow> bool" where
  "is_double x \<longleftrightarrow> (\<exists>m e. \<bar>m\<bar> < 2 ^ 53 \<and> x = of_int m * 2 powi e)"

lemma fl64_dyadic: "is_double x \<Longrightarrow> fl64 x = x"
proof -
  assume "is_double x"
  then obtain m e where m: "\<bar>m\<bar> < 2 ^ 53" and x: "x = of_int m * 2 powi e"
    by (auto simp: is_double_def)
  consider "m = 0" | "0 < m" | "m < 0" by linarith
  then show "fl64 x = x"
  proof cases
    case 2
    with m fl_pos_dyadic [of m e] show ?thesis by (simp add: x fl64_def)
  next
    case 3
    then have "x < 0" by (simp add: x mult_neg_pos)
    moreover from m 3 fl_pos_dyadic [of "- m" e] have "fl_pos (- x) = - x" by (simp add: x)
    ultimately show ?thesis by (simp add: fl64_def)
  qed (simp add: x fl64_def)
qed

lemma is_double_int: "\<bar>m\<bar> < 2 ^ 53 \<Longrightarrow> is_double (of_int m)"
  unfolding is_double_def by (rule exI [of _ m], rule exI [of _ 0]) simp

section \<open>The contract the broker's arithmetic rests on\<close>

locale rounding =
  fixes rnd :: "rat \<Rightarrow> rat"
  assumes rnd_mono: "x \<le> y \<Longrightarrow> rnd x \<le> rnd y"
    and rnd_exact: "is_double x \<Longrightarrow> rnd x = x"
begin

lemma rnd_0: "rnd 0 = 0"
  using rnd_exact [OF is_double_int [of 0]] by simp

lemma rnd_1: "rnd 1 = 1"
  using rnd_exact [OF is_double_int [of 1]] by simp

lemma rnd_nonneg: "0 \<le> x \<Longrightarrow> 0 \<le> rnd x"
  using rnd_mono [of 0 x] by (simp add: rnd_0)

lemma rnd_le_1: "x \<le> 1 \<Longrightarrow> rnd x \<le> 1"
  using rnd_mono [of x 1] by (simp add: rnd_1)

text \<open>A quotient of counts, rounded, stays in the unit interval.\<close>

lemma rnd_fraction:
  assumes "0 \<le> a" "0 \<le> b" "0 < a + b"
  shows "0 \<le> rnd (a / (a + b))" "rnd (a / (a + b)) \<le> 1"
proof -
  from assms have "0 \<le> a / (a + b)" "a / (a + b) \<le> 1" by simp_all
  then show "0 \<le> rnd (a / (a + b))" "rnd (a / (a + b)) \<le> 1"
    by (simp_all add: rnd_nonneg rnd_le_1)
qed

text \<open>Accumulating a nonnegative step \<open>n\<close> times never decreases the sum.\<close>

lemma rnd_load_mono:
  assumes "0 \<le> step" "m \<le> n"
  shows "rnd (c + rnd (of_nat m * step)) \<le> rnd (c + rnd (of_nat n * step))"
proof -
  from assms have "of_nat m * step \<le> of_nat n * step" by (intro mult_right_mono) auto
  then show ?thesis by (intro rnd_mono add_left_mono)
qed

end

interpretation f64: rounding fl64
  by unfold_locales (auto intro: fl64_mono fl64_dyadic)

end
