(* ===== verification/Gates.thy ===== *)
theory Gates
  imports Go_Strings Go_Float
begin

text \<open>
  The admission gates of \<open>internal/admission/gates.go\<close> and the view of the registry they read
  (\<open>internal/admission/registry.go\<close>): the semaphore, the CPU/RAM token bucket and the stagger gate,
  and the chain of the three that the engine walks.

  A gate's mutex makes each method atomic, so a method is a function on the gate's state.  The wall
  clock is an argument; one call reads it once.
\<close>

section \<open>Requests and the registry view\<close>

record request =
  req_id :: string
  req_worktree :: string
  req_pid :: int
  req_targets :: string

record active_build =
  act_id :: string
  act_targets :: "string list"
  act_pid :: int
  act_started :: gotime

record registry_snapshot =
  snap_builds :: "active_build list"
  snap_recent :: nat

section \<open>The contract of a gate\<close>

text \<open>
  What the engine relies on: an admitted request gets no retry hint, a hint is never negative,
  releasing twice is releasing once, and every method keeps the gate well formed.
\<close>

locale gate_contract =
  fixes attempt :: "'g \<Rightarrow> request \<Rightarrow> registry_snapshot \<Rightarrow> gotime \<Rightarrow> bool \<times> duration \<times> 'g"
    and acquire :: "'g \<Rightarrow> request \<Rightarrow> gotime \<Rightarrow> 'g"
    and release :: "'g \<Rightarrow> string \<Rightarrow> 'g"
    and wf :: "'g \<Rightarrow> bool"
  assumes attempt_wf: "wf g \<Longrightarrow> attempt g r sn t = (ok, d, g') \<Longrightarrow> wf g'"
    and acquire_wf: "wf g \<Longrightarrow> wf (acquire g r t)"
    and release_wf: "wf g \<Longrightarrow> wf (release g i)"
    and admit_no_hint: "attempt g r sn t = (True, d, g') \<Longrightarrow> d = 0"
    and hint_nonneg: "wf g \<Longrightarrow> attempt g r sn t = (ok, d, g') \<Longrightarrow> 0 \<le> d"
    and release_idem: "release (release g i) i = release g i"
begin

lemma release_all_wf: "wf g \<Longrightarrow> wf (foldl release g is)"
  by (induction "is" arbitrary: g) (auto intro: release_wf)

end

text \<open>A gate that also bounds the number of ids it holds.\<close>

locale capacity_gate = gate_contract +
  fixes holders :: "'g \<Rightarrow> string set"
    and capacity :: "'g \<Rightarrow> int"
  assumes holders_finite: "wf g \<Longrightarrow> finite (holders g)"
    and capacity_pos: "wf g \<Longrightarrow> 1 \<le> capacity g"
    and attempt_holders: "attempt g r sn t = (ok, d, g') \<Longrightarrow> holders g' = holders g"
    and attempt_capacity: "attempt g r sn t = (ok, d, g') \<Longrightarrow> capacity g' = capacity g"
    and acquire_holders: "holders (acquire g r t) = insert (req_id r) (holders g)"
    and acquire_capacity: "capacity (acquire g r t) = capacity g"
    and release_holders: "holders (release g i) = holders g - {i}"
    and release_capacity: "capacity (release g i) = capacity g"
    and admit_room: "attempt g r sn t = (True, d, g') \<Longrightarrow>
           req_id r \<in> holders g \<or> int (card (holders g)) < capacity g"
begin

definition bounded :: "'g \<Rightarrow> bool" where
  "bounded g \<longleftrightarrow> wf g \<and> int (card (holders g)) \<le> capacity g"

lemma bounded_attempt: "bounded g \<Longrightarrow> attempt g r sn t = (ok, d, g') \<Longrightarrow> bounded g'"
  using attempt_wf attempt_holders attempt_capacity by (auto simp: bounded_def)

lemma bounded_admit:
  assumes "bounded g" "attempt g r sn t = (True, d, g')"
  shows "bounded (acquire g' r t)"
proof -
  from assms have wf: "wf g'" and h: "holders g' = holders g" and c: "capacity g' = capacity g"
    using attempt_wf attempt_holders attempt_capacity by (auto simp: bounded_def)
  have fin: "finite (holders g)" using holders_finite [OF wf] h by simp
  from admit_room [OF assms(2)] assms(1) fin
  have "int (card (insert (req_id r) (holders g))) \<le> capacity g"
    by (auto simp: bounded_def card_insert_if)
  then show ?thesis
    by (simp add: bounded_def acquire_wf [OF wf] acquire_holders acquire_capacity h c)
qed

lemma bounded_release: "bounded g \<Longrightarrow> bounded (release g i)"
proof -
  assume b: "bounded g"
  then have "card (holders g - {i}) \<le> card (holders g)"
    using holders_finite by (intro card_mono) (auto simp: bounded_def)
  with b show ?thesis
    by (simp add: bounded_def release_wf release_holders release_capacity)
qed

end

section \<open>Gate 1: the semaphore\<close>

record semaphore =
  sem_max :: int
  held :: "string set"

definition new_semaphore :: "int \<Rightarrow> semaphore" where
  "new_semaphore m = \<lparr>sem_max = (if m < 1 then 1 else m), held = {}\<rparr>"

definition sem_try :: "semaphore \<Rightarrow> request \<Rightarrow> registry_snapshot \<Rightarrow> gotime \<Rightarrow> bool \<times> duration \<times> semaphore" where
  "sem_try s req sn now =
     (if req_id req \<in> held s then (True, 0, s)
      else (int (card (held s)) < sem_max s, 0, s))"

definition sem_acquire :: "semaphore \<Rightarrow> request \<Rightarrow> gotime \<Rightarrow> semaphore" where
  "sem_acquire s req now = s\<lparr>held := insert (req_id req) (held s)\<rparr>"

definition sem_release :: "semaphore \<Rightarrow> string \<Rightarrow> semaphore" where
  "sem_release s i = s\<lparr>held := held s - {i}\<rparr>"

definition sem_held :: "semaphore \<Rightarrow> int" where
  "sem_held s = int (card (held s))"

definition sem_wf :: "semaphore \<Rightarrow> bool" where
  "sem_wf s \<longleftrightarrow> finite (held s) \<and> 1 \<le> sem_max s"

lemmas sem_defs = sem_try_def sem_acquire_def sem_release_def sem_wf_def

lemma new_semaphore_wf: "sem_wf (new_semaphore m)"
  by (simp add: sem_wf_def new_semaphore_def)

interpretation semgate: capacity_gate sem_try sem_acquire sem_release sem_wf held sem_max
  by unfold_locales (auto simp: sem_defs split: if_splits)

section \<open>Gate 2: the token bucket\<close>

record token_bucket =
  cpu_hi :: rat
  ram_max :: int
  cpu_now :: rat
  ram_now :: int

definition ramp_per_head :: rat where
  "ramp_per_head = fl64 (1 / 10)"

definition new_token_bucket :: "rat \<Rightarrow> int \<Rightarrow> token_bucket" where
  "new_token_bucket hi rm = \<lparr>cpu_hi = hi, ram_max = rm, cpu_now = 0, ram_now = 1\<rparr>"

definition bucket_set_sample :: "token_bucket \<Rightarrow> rat \<Rightarrow> int \<Rightarrow> token_bucket" where
  "bucket_set_sample t cpu ram = t\<lparr>cpu_now := cpu, ram_now := ram\<rparr>"

definition eff_cpu :: "rat \<Rightarrow> nat \<Rightarrow> rat" where
  "eff_cpu cpu n = fl64 (cpu + fl64 (of_nat n * ramp_per_head))"

definition bucket_try :: "token_bucket \<Rightarrow> request \<Rightarrow> registry_snapshot \<Rightarrow> gotime \<Rightarrow> bool \<times> duration \<times> token_bucket" where
  "bucket_try t req sn now =
     (if 0 < cpu_hi t \<and> cpu_hi t \<le> eff_cpu (cpu_now t) (snap_recent sn) then (False, 2 * second, t)
      else if 0 < ram_max t \<and> ram_max t < ram_now t then (False, 2 * second, t)
      else (True, 0, t))"

definition bucket_acquire :: "token_bucket \<Rightarrow> request \<Rightarrow> gotime \<Rightarrow> token_bucket" where
  "bucket_acquire t req now = t"

definition bucket_release :: "token_bucket \<Rightarrow> string \<Rightarrow> token_bucket" where
  "bucket_release t i = t"

definition bucket_sample :: "token_bucket \<Rightarrow> rat \<times> int" where
  "bucket_sample t = (cpu_now t, ram_now t)"

lemmas bucket_defs = bucket_try_def bucket_acquire_def bucket_release_def

interpretation bucketgate: gate_contract bucket_try bucket_acquire bucket_release "\<lambda>_. True"
  by unfold_locales (auto simp: bucket_defs time_simps split: if_splits)

lemma ramp_nonneg: "0 \<le> ramp_per_head"
  unfolding ramp_per_head_def by (rule f64.rnd_nonneg) simp

lemma eff_cpu_mono: "m \<le> n \<Longrightarrow> eff_cpu c m \<le> eff_cpu c n"
  unfolding eff_cpu_def by (rule f64.rnd_load_mono [OF ramp_nonneg])

section \<open>Gate 3: stagger\<close>

subsection \<open>Target sets\<close>

text \<open>
  A \<open>map[string]struct{}\<close> is a set; \<open>target_list\<close> is the order of one iteration over it.  A
  pattern is normalised by \<open>norm_target\<close>.
\<close>

definition norm_target :: "string \<Rightarrow> string" where
  "norm_target t = trim_prefix (trim_space t) ''@//''"

definition target_list :: "string list \<Rightarrow> string list" where
  "target_list targets = remdups (filter (\<lambda>t. t \<noteq> []) (map norm_target (concat (map str_fields targets))))"

definition to_set :: "string list \<Rightarrow> string set" where
  "to_set targets = set (target_list targets)"

definition overlaps :: "string set \<Rightarrow> string set \<Rightarrow> bool" where
  "overlaps a b =
     (if card b < card a then (\<exists>k\<in>b. k \<in> a) else (\<exists>k\<in>a. k \<in> b))"

lemma overlaps_iff: "overlaps a b \<longleftrightarrow> a \<inter> b \<noteq> {}"
  by (auto simp: overlaps_def)

lemma finite_to_set [simp]: "finite (to_set ts)"
  by (simp add: to_set_def)

subsection \<open>The gate\<close>

record admit_record =
  rec_targets :: "string set"
  rec_at :: gotime

record stagger =
  window :: duration
  recents :: "(string \<times> admit_record) list"

definition new_stagger :: "duration \<Rightarrow> stagger" where
  "new_stagger w = \<lparr>window = w, recents = []\<rparr>"

text \<open>The closure \<open>consider\<close> of \<open>Try\<close>, on the running value of \<open>hold\<close>.\<close>

definition consider_hold :: "duration \<Rightarrow> gotime \<Rightarrow> string set \<Rightarrow> duration \<Rightarrow> string set \<Rightarrow> gotime \<Rightarrow> duration" where
  "consider_hold w now want hold targets adm =
     (let age = time_sub now adm in
      if w \<le> age \<or> age < 0 then hold
      else if overlaps want targets
           then (let rem = w - age in if hold < rem then rem else hold)
           else hold)"

text \<open>The loop over \<open>s.recent\<close>: aged records are dropped, the request's own record is skipped.\<close>

fun scan_recent ::
  "duration \<Rightarrow> gotime \<Rightarrow> string \<Rightarrow> string set \<Rightarrow> duration \<Rightarrow> (string \<times> admit_record) list
     \<Rightarrow> duration \<times> (string \<times> admit_record) list" where
  "scan_recent w now me want hold [] = (hold, [])"
| "scan_recent w now me want hold ((i, rec) # rs) =
     (if w \<le> time_sub now (rec_at rec) then scan_recent w now me want hold rs
      else if i = me
           then (let (h, kept) = scan_recent w now me want hold rs in (h, (i, rec) # kept))
           else (let (h, kept) =
                   scan_recent w now me want (consider_hold w now want hold (rec_targets rec) (rec_at rec)) rs
                 in (h, (i, rec) # kept)))"

fun scan_builds :: "duration \<Rightarrow> gotime \<Rightarrow> string \<Rightarrow> string set \<Rightarrow> duration \<Rightarrow> active_build list \<Rightarrow> duration" where
  "scan_builds w now me want hold [] = hold"
| "scan_builds w now me want hold (b # bs) =
     (if act_id b = me then scan_builds w now me want hold bs
      else scan_builds w now me want (consider_hold w now want hold (to_set (act_targets b)) (act_started b)) bs)"

definition stagger_try :: "stagger \<Rightarrow> request \<Rightarrow> registry_snapshot \<Rightarrow> gotime \<Rightarrow> bool \<times> duration \<times> stagger" where
  "stagger_try s req sn now =
     (if window s \<le> 0 then (True, 0, s)
      else let want = to_set [req_targets req] in
        if card want = 0 then (True, 0, s)
        else
          let (h1, kept) = scan_recent (window s) now (req_id req) want 0 (recents s);
              h2 = scan_builds (window s) now (req_id req) want h1 (snap_builds sn);
              s' = s\<lparr>recents := kept\<rparr>
          in if 0 < h2 then (False, h2, s') else (True, 0, s'))"

definition stagger_acquire :: "stagger \<Rightarrow> request \<Rightarrow> gotime \<Rightarrow> stagger" where
  "stagger_acquire s req now =
     s\<lparr>recents := AList.update (req_id req)
                   \<lparr>rec_targets = to_set [req_targets req], rec_at = now\<rparr> (recents s)\<rparr>"

definition stagger_release :: "stagger \<Rightarrow> string \<Rightarrow> stagger" where
  "stagger_release s i = s"

text \<open>One tick of \<open>runGC\<close>.\<close>

definition stagger_gc :: "stagger \<Rightarrow> gotime \<Rightarrow> stagger" where
  "stagger_gc s now = s\<lparr>recents := filter (\<lambda>(i, rec). time_sub now (rec_at rec) < window s) (recents s)\<rparr>"

definition stagger_wf :: "stagger \<Rightarrow> bool" where
  "stagger_wf s \<longleftrightarrow> distinct (map fst (recents s))"

subsection \<open>What the scan computes\<close>

lemma consider_ge: "hold \<le> consider_hold w now want hold ts adm"
  by (simp add: consider_hold_def Let_def)

lemma scan_builds_ge: "hold \<le> scan_builds w now me want hold bs"
proof (induction bs arbitrary: hold)
  case (Cons b bs)
  have "hold \<le> consider_hold w now want hold (to_set (act_targets b)) (act_started b)" by (rule consider_ge)
  with Cons [of hold] Cons [of "consider_hold w now want hold (to_set (act_targets b)) (act_started b)"]
  show ?case by auto
qed simp

lemma scan_recent_kept:
  "snd (scan_recent w now me want hold rs) = filter (\<lambda>(i, rec). time_sub now (rec_at rec) < w) rs"
  by (induction w now me want hold rs rule: scan_recent.induct)
     (auto simp: split_beta not_le)

text \<open>The overlapping records younger than the window, with the time each still has to run.\<close>

definition fresh_hold :: "duration \<Rightarrow> gotime \<Rightarrow> string set \<Rightarrow> string set \<Rightarrow> gotime \<Rightarrow> bool" where
  "fresh_hold w now want ts adm \<longleftrightarrow>
     0 \<le> time_sub now adm \<and> time_sub now adm < w \<and> want \<inter> ts \<noteq> {}"

lemma consider_eq:
  "consider_hold w now want hold ts adm =
     (if fresh_hold w now want ts adm then max hold (w - time_sub now adm) else hold)"
  by (auto simp: consider_hold_def fresh_hold_def overlaps_iff Let_def max_def)

text \<open>Every record the two loops may hold against a request, as target set and admission time.\<close>

definition holding :: "stagger \<Rightarrow> registry_snapshot \<Rightarrow> string \<Rightarrow> (string set \<times> gotime) list" where
  "holding s sn me =
     map (\<lambda>(i, rec). (rec_targets rec, rec_at rec)) (filter (\<lambda>(i, rec). i \<noteq> me) (recents s)) @
     map (\<lambda>b. (to_set (act_targets b), act_started b)) (filter (\<lambda>b. act_id b \<noteq> me) (snap_builds sn))"

fun scan_holds :: "duration \<Rightarrow> gotime \<Rightarrow> string set \<Rightarrow> duration \<Rightarrow> (string set \<times> gotime) list \<Rightarrow> duration" where
  "scan_holds w now want hold [] = hold"
| "scan_holds w now want hold ((ts, adm) # hs) = scan_holds w now want (consider_hold w now want hold ts adm) hs"

lemma scan_holds_append:
  "scan_holds w now want hold (xs @ ys) = scan_holds w now want (scan_holds w now want hold xs) ys"
  by (induction xs arbitrary: hold) auto

lemma scan_recent_hold:
  "fst (scan_recent w now me want hold rs) =
     scan_holds w now want hold
       (map (\<lambda>(i, rec). (rec_targets rec, rec_at rec)) (filter (\<lambda>(i, rec). i \<noteq> me) rs))"
  by (induction w now me want hold rs rule: scan_recent.induct)
     (auto simp: split_beta consider_eq fresh_hold_def)

lemma scan_builds_hold:
  "scan_builds w now me want hold bs =
     scan_holds w now want hold
       (map (\<lambda>b. (to_set (act_targets b), act_started b)) (filter (\<lambda>b. act_id b \<noteq> me) bs))"
  by (induction bs arbitrary: hold) auto

lemma Max_insert_max:
  fixes a b :: "'a :: linorder"
  assumes "finite S"
  shows "Max (insert (max a b) S) = Max (insert a (insert b S))"
proof (cases "S = {}")
  case False
  with assms show ?thesis by (simp add: max.assoc)
qed simp

lemma scan_holds_max:
  "0 \<le> hold \<Longrightarrow> scan_holds w now want hold hs =
     Max (insert hold {w - time_sub now adm | ts adm. (ts, adm) \<in> set hs \<and> fresh_hold w now want ts adm})"
proof (induction hs arbitrary: hold)
  case (Cons h hs)
  obtain ts adm where h: "h = (ts, adm)" by fastforce
  let ?S = "\<lambda>xs. {w - time_sub now adm | ts adm. (ts, adm) \<in> set xs \<and> fresh_hold w now want ts adm}"
  have fin: "finite (?S xs)" for xs
    by (rule finite_subset [of _ "(\<lambda>(ts, adm). w - time_sub now adm) ` set xs"]) auto
  show ?case
  proof (cases "fresh_hold w now want ts adm")
    case True
    then have S: "?S (h # hs) = insert (w - time_sub now adm) (?S hs)" by (auto simp: h)
    have "scan_holds w now want hold (h # hs) = Max (insert (max hold (w - time_sub now adm)) (?S hs))"
      using True Cons.prems by (simp add: h consider_eq Cons.IH max_def)
    also have "\<dots> = Max (insert hold (insert (w - time_sub now adm) (?S hs)))"
      by (rule Max_insert_max [OF fin])
    finally show ?thesis by (simp only: S)
  next
    case False
    then have S: "?S (h # hs) = ?S hs" by (auto simp: h)
    from False Cons have "scan_holds w now want hold (h # hs) = Max (insert hold (?S hs))"
      by (simp add: h consider_eq)
    then show ?thesis by (simp only: S)
  qed
qed simp

lemma scan_holds_nonneg: "0 \<le> hold \<Longrightarrow> 0 \<le> scan_holds w now want hold hs"
proof (induction hs arbitrary: hold)
  case (Cons h hs)
  obtain ts adm where "h = (ts, adm)" by fastforce
  with Cons consider_ge [of hold w now want ts adm] show ?case by simp
qed simp

lemma Max_insert_0:
  fixes S :: "int set"
  assumes "finite S" "\<forall>x\<in>S. 0 < x"
  shows "Max (insert 0 S) = 0 \<longleftrightarrow> S = {}"
proof (cases "S = {}")
  case False
  with assms Max_in [of S] have "0 < Max S" by simp
  with False assms(1) show ?thesis by (simp add: max_def)
qed simp

lemma scan_holds_0_iff:
  "scan_holds w now want 0 hs = 0 \<longleftrightarrow> (\<forall>(ts, adm)\<in>set hs. \<not> fresh_hold w now want ts adm)"
proof -
  let ?S = "{w - time_sub now adm | ts adm. (ts, adm) \<in> set hs \<and> fresh_hold w now want ts adm}"
  have fin: "finite ?S"
    by (rule finite_subset [of _ "(\<lambda>(ts, adm). w - time_sub now adm) ` set hs"]) auto
  have "\<forall>x\<in>?S. 0 < x" by (auto simp: fresh_hold_def)
  with fin have "Max (insert 0 ?S) = 0 \<longleftrightarrow> ?S = {}" by (rule Max_insert_0)
  then have "scan_holds w now want 0 hs = 0 \<longleftrightarrow> ?S = {}"
    by (simp only: scan_holds_max [OF order_refl])
  also have "\<dots> \<longleftrightarrow> (\<forall>(ts, adm)\<in>set hs. \<not> fresh_hold w now want ts adm)" by blast
  finally show ?thesis .
qed

text \<open>\<open>Try\<close> in terms of the records that may hold the request.\<close>

definition stagger_hold :: "stagger \<Rightarrow> request \<Rightarrow> registry_snapshot \<Rightarrow> gotime \<Rightarrow> duration" where
  "stagger_hold s req sn now =
     scan_holds (window s) now (to_set [req_targets req]) 0 (holding s sn (req_id req))"

definition stagger_swept :: "stagger \<Rightarrow> gotime \<Rightarrow> stagger" where
  "stagger_swept s now = s\<lparr>recents := filter (\<lambda>(i, rec). time_sub now (rec_at rec) < window s) (recents s)\<rparr>"

lemma stagger_try_eq:
  "stagger_try s req sn now =
     (if window s \<le> 0 \<or> to_set [req_targets req] = {} then (True, 0, s)
      else (stagger_hold s req sn now = 0, stagger_hold s req sn now, stagger_swept s now))"
proof -
  let ?want = "to_set [req_targets req]"
  obtain h1 kept where sr: "scan_recent (window s) now (req_id req) ?want 0 (recents s) = (h1, kept)"
    by fastforce
  with scan_recent_hold [of "window s" now "req_id req" ?want 0 "recents s"]
    scan_recent_kept [of "window s" now "req_id req" ?want 0 "recents s"]
  have "h1 = scan_holds (window s) now ?want 0
               (map (\<lambda>(i, rec). (rec_targets rec, rec_at rec)) (filter (\<lambda>(i, rec). i \<noteq> req_id req) (recents s)))"
    and kept: "kept = filter (\<lambda>(i, rec). time_sub now (rec_at rec) < window s) (recents s)" by auto
  then have "scan_builds (window s) now (req_id req) ?want h1 (snap_builds sn) = stagger_hold s req sn now"
    by (simp add: scan_builds_hold stagger_hold_def holding_def scan_holds_append)
  moreover have "0 \<le> stagger_hold s req sn now" by (simp add: stagger_hold_def scan_holds_nonneg)
  ultimately show ?thesis
    using sr kept by (simp add: stagger_try_def stagger_swept_def Let_def)
qed

lemma stagger_hold_nonneg: "0 \<le> stagger_hold s req sn now"
  by (simp add: stagger_hold_def scan_holds_nonneg)

lemma window_swept [simp]: "window (stagger_swept s now) = window s"
  by (simp add: stagger_swept_def)

lemma stagger_swept_wf: "stagger_wf s \<Longrightarrow> stagger_wf (stagger_swept s now)"
  by (simp add: stagger_wf_def stagger_swept_def filter_distinct_fst)

interpretation staggergate: gate_contract stagger_try stagger_acquire stagger_release stagger_wf
proof unfold_locales
  show "stagger_wf g \<Longrightarrow> stagger_try g r sn t = (ok, d, g') \<Longrightarrow> stagger_wf g'" for g r sn t ok d g'
    by (auto simp: stagger_try_eq stagger_swept_wf split: if_splits)
  show "stagger_wf g \<Longrightarrow> stagger_wf (stagger_acquire g r t)" for g r t
    by (simp add: stagger_wf_def stagger_acquire_def)
qed (auto simp: stagger_try_eq stagger_release_def stagger_hold_nonneg split: if_splits)

section \<open>The gate chain\<close>

text \<open>\<open>Engine.gates\<close> is the fixed list of the three gates, which the engine also keeps by name.\<close>

datatype gate_name = SemGate | BucketGate | StaggerGate

record gates =
  sem :: semaphore
  bucket :: token_bucket
  stag :: stagger

definition gate_chain :: "gate_name list" where
  "gate_chain = [SemGate, BucketGate, StaggerGate]"

fun gate_try :: "gate_name \<Rightarrow> gates \<Rightarrow> request \<Rightarrow> registry_snapshot \<Rightarrow> gotime \<Rightarrow> bool \<times> duration \<times> gates" where
  "gate_try SemGate g req sn now =
     (let (ok, d, s) = sem_try (sem g) req sn now in (ok, d, g\<lparr>sem := s\<rparr>))"
| "gate_try BucketGate g req sn now =
     (let (ok, d, b) = bucket_try (bucket g) req sn now in (ok, d, g\<lparr>bucket := b\<rparr>))"
| "gate_try StaggerGate g req sn now =
     (let (ok, d, s) = stagger_try (stag g) req sn now in (ok, d, g\<lparr>stag := s\<rparr>))"

fun gate_acquire :: "gate_name \<Rightarrow> gates \<Rightarrow> request \<Rightarrow> gotime \<Rightarrow> gates" where
  "gate_acquire SemGate g req now = g\<lparr>sem := sem_acquire (sem g) req now\<rparr>"
| "gate_acquire BucketGate g req now = g\<lparr>bucket := bucket_acquire (bucket g) req now\<rparr>"
| "gate_acquire StaggerGate g req now = g\<lparr>stag := stagger_acquire (stag g) req now\<rparr>"

fun gate_release :: "gate_name \<Rightarrow> gates \<Rightarrow> string \<Rightarrow> gates" where
  "gate_release SemGate g i = g\<lparr>sem := sem_release (sem g) i\<rparr>"
| "gate_release BucketGate g i = g\<lparr>bucket := bucket_release (bucket g) i\<rparr>"
| "gate_release StaggerGate g i = g\<lparr>stag := stagger_release (stag g) i\<rparr>"

fun try_gates :: "gate_name list \<Rightarrow> gates \<Rightarrow> request \<Rightarrow> registry_snapshot \<Rightarrow> gotime \<Rightarrow> bool \<times> duration \<times> gates" where
  "try_gates [] g req sn now = (True, 0, g)"
| "try_gates (n # ns) g req sn now =
     (let (ok, retry, g') = gate_try n g req sn now in
      if ok then try_gates ns g' req sn now
      else (False, if 0 < retry then retry else 0, g'))"

definition try_all_gates :: "gates \<Rightarrow> request \<Rightarrow> registry_snapshot \<Rightarrow> gotime \<Rightarrow> bool \<times> duration \<times> gates" where
  "try_all_gates g req sn now = try_gates gate_chain g req sn now"

definition acquire_all_gates :: "gates \<Rightarrow> request \<Rightarrow> gotime \<Rightarrow> gates" where
  "acquire_all_gates g req now = foldl (\<lambda>g n. gate_acquire n g req now) g gate_chain"

definition release_all_gates :: "gates \<Rightarrow> string \<Rightarrow> gates" where
  "release_all_gates g i = foldl (\<lambda>g n. gate_release n g i) g gate_chain"

definition gates_wf :: "gates \<Rightarrow> bool" where
  "gates_wf g \<longleftrightarrow> sem_wf (sem g) \<and> stagger_wf (stag g)"

definition holders :: "gates \<Rightarrow> string set" where
  "holders g = held (sem g)"

definition capacity :: "gates \<Rightarrow> int" where
  "capacity g = sem_max (sem g)"

lemma try_all_gates_eq:
  "try_all_gates g req sn now =
     (if \<not> fst (sem_try (sem g) req sn now) then (False, 0, g)
      else if \<not> fst (bucket_try (bucket g) req sn now) then (False, 2 * second, g)
      else let (ok, d, s) = stagger_try (stag g) req sn now in (ok, d, g\<lparr>stag := s\<rparr>))"
  by (auto simp: try_all_gates_def gate_chain_def sem_try_def bucket_try_def stagger_try_eq time_simps
      stagger_hold_nonneg order_less_le split: if_splits)

lemma try_all_gates_admits:
  "fst (sem_try (sem g) req sn now) \<Longrightarrow> fst (bucket_try (bucket g) req sn now) \<Longrightarrow>
     fst (stagger_try (stag g) req sn now) \<Longrightarrow> fst (try_all_gates g req sn now)"
  by (simp add: try_all_gates_eq split_beta)

lemma acquire_all_gates_eq:
  "acquire_all_gates g req now =
     g\<lparr>sem := sem_acquire (sem g) req now, stag := stagger_acquire (stag g) req now\<rparr>"
  by (simp add: acquire_all_gates_def gate_chain_def bucket_acquire_def)

lemma release_all_gates_eq: "release_all_gates g i = g\<lparr>sem := sem_release (sem g) i\<rparr>"
  by (simp add: release_all_gates_def gate_chain_def bucket_release_def stagger_release_def)

interpretation chain: capacity_gate try_all_gates acquire_all_gates release_all_gates gates_wf holders capacity
proof unfold_locales
  show "gates_wf g \<Longrightarrow> try_all_gates g r sn t = (ok, d, g') \<Longrightarrow> gates_wf g'" for g r sn t ok d g'
    by (auto simp: try_all_gates_eq gates_wf_def split: if_splits prod.splits intro: staggergate.attempt_wf)
  show "try_all_gates g r sn t = (True, d, g') \<Longrightarrow> d = 0" for g r sn t d g'
    by (auto simp: try_all_gates_eq split: if_splits prod.splits dest: staggergate.admit_no_hint)
  show "gates_wf g \<Longrightarrow> try_all_gates g r sn t = (ok, d, g') \<Longrightarrow> 0 \<le> d" for g r sn t ok d g'
    by (auto simp: try_all_gates_eq gates_wf_def time_simps split: if_splits prod.splits
        dest: staggergate.hint_nonneg)
  show "try_all_gates g r sn t = (True, d, g') \<Longrightarrow>
      req_id r \<in> holders g \<or> int (card (holders g)) < capacity g" for g r sn t d g'
    by (auto simp: try_all_gates_eq holders_def capacity_def sem_try_def split: if_splits prod.splits)
qed (auto simp: try_all_gates_eq acquire_all_gates_eq release_all_gates_eq gates_wf_def holders_def
    capacity_def sem_defs staggergate.acquire_wf stagger_wf_def stagger_acquire_def
    split: if_splits prod.splits)

section \<open>Properties\<close>

lemma to_set_plain: "plain t \<Longrightarrow> to_set [t] = {norm_target t} - {[]}"
  by (cases "t = []") (auto simp: to_set_def target_list_def str_fields_plain norm_target_def trim_prefix_def)

lemma stagger_hold_ge:
  assumes "(ts, adm) \<in> set (holding s sn (req_id req))"
    "fresh_hold (window s) now (to_set [req_targets req]) ts adm"
  shows "window s - time_sub now adm \<le> stagger_hold s req sn now"
proof -
  let ?S = "{window s - time_sub now adm | ts adm. (ts, adm) \<in> set (holding s sn (req_id req))
               \<and> fresh_hold (window s) now (to_set [req_targets req]) ts adm}"
  have "finite ?S"
    by (rule finite_subset [of _ "(\<lambda>(ts, adm). window s - time_sub now adm) ` set (holding s sn (req_id req))"]) auto
  moreover have "window s - time_sub now adm \<in> ?S" using assms by blast
  ultimately have "window s - time_sub now adm \<le> Max (insert 0 ?S)" by (intro Max_ge) auto
  then show ?thesis by (simp only: stagger_hold_def scan_holds_max [OF order_refl])
qed

lemma holding_swept: "set (holding (stagger_swept s now) sn me) \<subseteq> set (holding s sn me)"
  by (auto simp: holding_def stagger_swept_def)

lemma stagger_refusal:
  "\<not> fst (stagger_try s req sn now) \<longleftrightarrow>
     0 < window s \<and> to_set [req_targets req] \<noteq> {} \<and>
     filter (\<lambda>(ts, adm). fresh_hold (window s) now (to_set [req_targets req]) ts adm)
       (holding s sn (req_id req)) \<noteq> []"
  using scan_holds_0_iff [of "window s" now "to_set [req_targets req]" "holding s sn (req_id req)"]
  by (auto simp: stagger_try_eq stagger_hold_def filter_empty_conv)

text \<open>
  The stagger gate refuses a request exactly when it is switched on, the request names a target
  and some record of another build, admitted by the engine or seen in the registry, overlaps it and
  is younger than the window.  The retry hint is then the longest time any such record has left.
\<close>

theorem stagger_refuses_iff:
  "\<not> fst (stagger_try s req sn now) \<longleftrightarrow>
     0 < window s \<and> to_set [req_targets req] \<noteq> {} \<and>
     filter (\<lambda>(ts, adm). fresh_hold (window s) now (to_set [req_targets req]) ts adm)
       (holding s sn (req_id req)) \<noteq> []"
  by (rule stagger_refusal)

text \<open>
  C26: the hint the stagger gate gives is long enough.  Where no record carries a time in the future,
  a request refused with hint \<open>d\<close> is admitted by the same gate at any time \<open>d\<close> or more later, if
  nothing new was admitted meanwhile.
\<close>

theorem stagger_hint_enough:
  assumes "stagger_try s req sn now = (False, d, s')" and "window s \<le> max_duration"
    and "\<forall>(ts, adm)\<in>set (holding s sn (req_id req)). adm \<le> now"
    and "now + d \<le> t"
  shows "fst (stagger_try s' req sn t)"
proof (rule ccontr)
  assume "\<not> ?thesis"
  from assms(1) have w: "0 < window s" and s': "s' = stagger_swept s now"
    and d: "d = stagger_hold s req sn now"
    by (auto simp: stagger_try_eq split: if_splits)
  from \<open>\<not> ?thesis\<close> s' obtain ts adm where h: "(ts, adm) \<in> set (holding s sn (req_id req))"
    and f: "fresh_hold (window s) t (to_set [req_targets req]) ts adm"
    using holding_swept by (fastforce simp: stagger_refusal filter_empty_conv)
  from h assms(3) have past: "adm \<le> now" by blast
  from f w assms(2) have young: "t - adm < window s"
    by (simp add: fresh_hold_def time_sub_less_iff min_duration_def)
  have "0 \<le> d" by (simp add: d stagger_hold_nonneg)
  with young past assms(4) have "0 \<le> now - adm" "now - adm < window s" by auto
  with w assms(2) have ex: "time_sub now adm = now - adm"
    by (intro time_sub_exact) (auto simp: min_duration_def)
  with f \<open>0 \<le> now - adm\<close> \<open>now - adm < window s\<close>
  have "fresh_hold (window s) now (to_set [req_targets req]) ts adm" by (simp add: fresh_hold_def)
  from stagger_hold_ge [OF h this] ex d assms(4) young show False by simp
qed

definition demo_req :: "string \<Rightarrow> string \<Rightarrow> request" where
  "demo_req i ts = \<lparr>req_id = i, req_worktree = ''/w'', req_pid = 7, req_targets = ts\<rparr>"

definition demo_stagger :: stagger where
  "demo_stagger = \<lparr>window = 8 * second,
     recents = [(''a'', \<lparr>rec_targets = {''//app''}, rec_at = 100\<rparr>)]\<rparr>"

definition no_builds :: registry_snapshot where
  "no_builds = \<lparr>snap_builds = [], snap_recent = 0\<rparr>"

lemma demo_stagger_try:
  "stagger_try demo_stagger (demo_req ''b'' ''//app'') no_builds 200 = (False, 8 * second - 100, demo_stagger)"
  by (simp add: stagger_try_eq stagger_hold_def holding_def demo_stagger_def demo_req_def no_builds_def
      to_set_plain plain_char_def norm_target_def trim_prefix_def has_prefix_def consider_eq fresh_hold_def
      time_sub_def min_duration_def max_duration_def time_simps stagger_swept_def)

theorem stagger_hint_enough_witness:
  "fst (stagger_try demo_stagger (demo_req ''b'' ''//app'') no_builds (200 + 8 * second))"
  by (rule stagger_hint_enough [OF demo_stagger_try])
     (auto simp: demo_stagger_def holding_def no_builds_def time_simps max_duration_def)

text \<open>
  The two spellings \<open>@//x\<close> and \<open>//x\<close> of one target never overlap, although the comment on
  \<open>toSet\<close> says that the prefix \<open>@//\<close> is brought to \<open>//\<close>: \<open>TrimPrefix\<close> drops the slashes too, so two
  builds of the same target are not staggered.
\<close>

theorem repo_prefix_never_overlaps:
  assumes "plain x"
  shows "\<not> overlaps (to_set [''@//'' @ x]) (to_set [''//'' @ x])"
proof -
  have p: "plain (''@//'' @ x)" "plain (''//'' @ x)" using assms by (simp_all add: plain_char_def)
  have "norm_target (''@//'' @ x) = x" "norm_target (''//'' @ x) = ''//'' @ x"
    unfolding norm_target_def trim_space_plain [OF p(1)] trim_space_plain [OF p(2)]
    by (simp_all add: trim_prefix_def has_prefix_def)
  with to_set_plain [OF p(1)] to_set_plain [OF p(2)] show ?thesis by (auto simp: overlaps_iff)
qed

theorem repo_prefix_never_overlaps_witness:
  "\<not> overlaps (to_set [''@//'' @ ''app:App'']) (to_set [''//'' @ ''app:App''])"
  by (rule repo_prefix_never_overlaps) (simp add: plain_char_def)

end
