(* ===== verification/Engine.thy ===== *)
theory Engine
  imports Gates
begin

text \<open>
  The admission engine of \<open>internal/admission/engine.go\<close> and the background loops of
  \<open>internal/admission/run.go\<close>.

  A \<open>*waiter\<close> is shared by the FIFO queue, the index \<open>byID\<close> and the blocked HTTP handlers, so a
  waiter is an address into the store \<open>waiters\<close>.  The engine holds \<open>e.mu\<close> from the first to the
  last line of each function named \<open>..._locked\<close>, of \<open>schedule\<close> and of \<open>gc_queued\<close>: these are the
  atomic steps.  Functions of the source that take the mutex several times are compositions of
  them, and \<open>Engine_Steps\<close> interleaves the pieces.  The registry snapshot and the wall clock, which
  the code asks for once per step, are arguments.
\<close>

section \<open>State\<close>

datatype verdict = Allow | Queue | Deny

fun verdict_string :: "verdict \<Rightarrow> string" where
  "verdict_string Allow = ''ALLOW''"
| "verdict_string Queue = ''QUEUE''"
| "verdict_string Deny = ''DENY''"

record policy =
  max_concurrent :: int
  cpu_high_water :: rat
  ram_pressure_max :: int
  stagger_window :: duration
  poll_window :: duration

definition default_policy :: policy where
  "default_policy = \<lparr>max_concurrent = 2, cpu_high_water = fl64 (85 / 100), ram_pressure_max = 1,
     stagger_window = 8 * second, poll_window = 25 * second\<rparr>"

datatype waiter_state = WsQueued | WsAdmitted | WsDone

text \<open>The channel \<open>ch\<close> has capacity one: \<open>w_ch\<close> is what its buffer holds.\<close>

record waiter =
  w_req :: request
  w_state :: waiter_state
  w_connected :: bool
  w_detached :: gotime
  w_ch :: "verdict option"

record engine =
  poll_seconds :: duration
  egates :: gates
  queue :: "nat list"
  by_id :: "(string \<times> nat) list"
  waiters :: "nat \<Rightarrow> waiter"
  next_waiter :: nat
  paused :: bool
  draining :: bool
  recently_admitted :: nat
  queued_gc_grace :: duration
  retry_timers :: "(string \<times> gotime) list"

definition new_waiter :: "request \<Rightarrow> waiter" where
  "new_waiter req = \<lparr>w_req = req, w_state = WsQueued, w_connected = False, w_detached = time_zero, w_ch = None\<rparr>"

definition empty_request :: request where
  "empty_request = \<lparr>req_id = [], req_worktree = [], req_pid = 0, req_targets = []\<rparr>"

definition new_engine :: "policy \<Rightarrow> engine" where
  "new_engine pol =
     \<lparr>poll_seconds = (if poll_window pol \<le> 0 then 25 * second else poll_window pol),
      egates = \<lparr>sem = new_semaphore (max_concurrent pol),
                bucket = new_token_bucket (cpu_high_water pol) (ram_pressure_max pol),
                stag = new_stagger (stagger_window pol)\<rparr>,
      queue = [], by_id = [], waiters = (\<lambda>_. new_waiter empty_request), next_waiter = 0,
      paused = False, draining = False, recently_admitted = 0, queued_gc_grace = 30 * second,
      retry_timers = []\<rparr>"

definition upd_waiter :: "nat \<Rightarrow> (waiter \<Rightarrow> waiter) \<Rightarrow> engine \<Rightarrow> engine" where
  "upd_waiter p f e = e\<lparr>waiters := (waiters e)(p := f (waiters e p))\<rparr>"

abbreviation waiter_id :: "engine \<Rightarrow> nat \<Rightarrow> string" where
  "waiter_id e p \<equiv> req_id (w_req (waiters e p))"

section \<open>Delivery and retry timers\<close>

definition deliver :: "nat \<Rightarrow> verdict \<Rightarrow> engine \<Rightarrow> engine" where
  "deliver p v = upd_waiter p (\<lambda>w. w\<lparr>w_ch := (case w_ch w of None \<Rightarrow> Some v | Some u \<Rightarrow> Some u)\<rparr>)"

text \<open>An armed timer is the time it fires at; arming stops the timer armed before.\<close>

definition arm_retry_timer :: "string \<Rightarrow> duration \<Rightarrow> gotime \<Rightarrow> engine \<Rightarrow> engine" where
  "arm_retry_timer i d now e =
     (if d \<le> 0 then e else e\<lparr>retry_timers := AList.update i (now + d) (retry_timers e)\<rparr>)"

section \<open>Scheduling\<close>

definition split_targets :: "string \<Rightarrow> string list" where
  "split_targets s = (if s = [] then [] else target_list [s])"

text \<open>The body of the loop that denies, and the one that admits, the waiter at the head.\<close>

definition deny_head :: "nat \<Rightarrow> engine \<Rightarrow> engine" where
  "deny_head p e =
     (let e1 = upd_waiter p (\<lambda>w. w\<lparr>w_state := WsDone\<rparr>) (deliver p Deny e)
      in e1\<lparr>by_id := AList.delete (waiter_id e p) (by_id e1)\<rparr>)"

definition admit_head :: "nat \<Rightarrow> gates \<Rightarrow> gotime \<Rightarrow> engine \<Rightarrow> engine" where
  "admit_head p g now e =
     (let e1 = e\<lparr>egates := acquire_all_gates g (w_req (waiters e p)) now\<rparr>;
          e2 = upd_waiter p (\<lambda>w. w\<lparr>w_state := WsAdmitted\<rparr>) e1;
          e3 = e2\<lparr>recently_admitted := recently_admitted e2 + 1\<rparr>
      in deliver p Allow e3)"

definition snap_admitted :: "request \<Rightarrow> nat \<Rightarrow> gotime \<Rightarrow> registry_snapshot \<Rightarrow> registry_snapshot" where
  "snap_admitted req n now sn =
     \<lparr>snap_builds = snap_builds sn @
        [\<lparr>act_id = req_id req, act_targets = split_targets (req_targets req), act_pid = req_pid req,
          act_started = now\<rparr>],
      snap_recent = n\<rparr>"

text \<open>The loop, on the queue it walks; it leaves the rest of the queue in the engine.\<close>

fun sched_loop :: "nat list \<Rightarrow> registry_snapshot \<Rightarrow> gotime \<Rightarrow> engine \<Rightarrow> engine" where
  "sched_loop [] sn now e = e\<lparr>queue := []\<rparr>"
| "sched_loop (p # ps) sn now e =
     (let w = waiters e p in
      if w_state w \<noteq> WsQueued then sched_loop ps sn now e
      else if draining e then sched_loop ps sn now (deny_head p e)
      else
        let (admit, retry, g) = try_all_gates (egates e) (w_req w) sn now in
        if \<not> admit
        then arm_retry_timer (req_id (w_req w)) retry now (e\<lparr>egates := g, queue := p # ps\<rparr>)
        else let e' = admit_head p g now e
             in sched_loop ps (snap_admitted (w_req w) (recently_admitted e') now sn) now e')"

definition schedule :: "registry_snapshot \<Rightarrow> gotime \<Rightarrow> engine \<Rightarrow> engine" where
  "schedule sn now e =
     (if paused e \<or> queue e = [] then e
      else sched_loop (queue e) (sn\<lparr>snap_recent := recently_admitted e\<rparr>) now e)"

section \<open>Attaching and detaching a handler\<close>

definition refresh_request :: "request \<Rightarrow> request \<Rightarrow> request" where
  "refresh_request req old =
     old\<lparr>req_pid := (if req_pid req \<noteq> 0 then req_pid req else req_pid old),
         req_targets := (if req_targets req \<noteq> [] then req_targets req else req_targets old),
         req_worktree := (if req_worktree req \<noteq> [] then req_worktree req else req_worktree old)\<rparr>"

definition attach_locked :: "request \<Rightarrow> engine \<Rightarrow> nat \<times> engine" where
  "attach_locked req e =
     (let (p, e1) =
        (case map_of (by_id e) (req_id req) of
           None \<Rightarrow>
             (next_waiter e,
              e\<lparr>waiters := (waiters e)(next_waiter e := new_waiter req),
                next_waiter := Suc (next_waiter e),
                by_id := AList.update (req_id req) (next_waiter e) (by_id e),
                queue := queue e @ [next_waiter e]\<rparr>)
         | Some p \<Rightarrow> (p, upd_waiter p (\<lambda>w. w\<lparr>w_req := refresh_request req (w_req w)\<rparr>) e))
      in (p, upd_waiter p (\<lambda>w. w\<lparr>w_connected := True\<rparr>) e1))"

definition attach :: "request \<Rightarrow> registry_snapshot \<Rightarrow> gotime \<Rightarrow> engine \<Rightarrow> nat \<times> engine" where
  "attach req sn now e = (let (p, e1) = attach_locked req e in (p, schedule sn now e1))"

definition detach :: "nat \<Rightarrow> gotime \<Rightarrow> engine \<Rightarrow> engine" where
  "detach p now = upd_waiter p (\<lambda>w. w\<lparr>w_connected := False, w_detached := now\<rparr>)"

text \<open>
  The second half of \<open>Admit\<close>: the handler waits on the channel, the poll timer and the client.
  Which of the ready cases \<open>select\<close> takes is not determined; \<open>admit_return\<close> is \<open>None\<close> where the
  chosen case is not ready.  The deferred \<open>detach\<close> runs on every path.
\<close>

datatype wake = WakeVerdict | WakeTimer | WakeClient

fun admit_return :: "wake \<Rightarrow> nat \<Rightarrow> gotime \<Rightarrow> engine \<Rightarrow> (verdict \<times> engine) option" where
  "admit_return WakeVerdict p now e =
     (case w_ch (waiters e p) of
        None \<Rightarrow> None
      | Some v \<Rightarrow> Some (v, detach p now (upd_waiter p (\<lambda>w. w\<lparr>w_ch := None\<rparr>) e)))"
| "admit_return WakeTimer p now e = Some (Queue, detach p now e)"
| "admit_return WakeClient p now e = Some (Queue, detach p now e)"

text \<open>
  One uncontended call of \<open>Admit\<close>: the fast path takes a buffered verdict, and where there is none
  nothing else runs until the handler wakes.
\<close>

definition admit_call :: "request \<Rightarrow> registry_snapshot \<Rightarrow> gotime \<Rightarrow> engine \<Rightarrow> verdict \<times> engine" where
  "admit_call req sn now e =
     (let (p, e1) = attach req sn now e in
      case admit_return WakeVerdict p now e1 of
        Some r \<Rightarrow> r
      | None \<Rightarrow> (Queue, detach p (now + poll_seconds e1) e1))"

section \<open>Releasing\<close>

definition release_locked :: "string \<Rightarrow> engine \<Rightarrow> engine" where
  "release_locked i e =
     (let e1 = (case map_of (by_id e) i of
                  None \<Rightarrow> e
                | Some p \<Rightarrow> upd_waiter p (\<lambda>w. w\<lparr>w_state := WsDone\<rparr>) (e\<lparr>by_id := AList.delete i (by_id e)\<rparr>))
      in e1\<lparr>retry_timers := AList.delete i (retry_timers e1)\<rparr>)"

definition release_gates :: "string \<Rightarrow> engine \<Rightarrow> engine" where
  "release_gates i e = e\<lparr>egates := release_all_gates (egates e) i\<rparr>"

definition release :: "string \<Rightarrow> registry_snapshot \<Rightarrow> gotime \<Rightarrow> engine \<Rightarrow> engine" where
  "release i sn now e = schedule sn now (release_gates i (release_locked i e))"

section \<open>Timers, garbage collection, load samples\<close>

definition timer_locked :: "string \<Rightarrow> engine \<Rightarrow> engine" where
  "timer_locked i e = e\<lparr>retry_timers := AList.delete i (retry_timers e)\<rparr>"

definition timer_fire :: "string \<Rightarrow> registry_snapshot \<Rightarrow> gotime \<Rightarrow> engine \<Rightarrow> engine" where
  "timer_fire i sn now e = schedule sn now (timer_locked i e)"

definition gc_stale :: "gotime \<Rightarrow> duration \<Rightarrow> waiter \<Rightarrow> bool" where
  "gc_stale now grace w \<longleftrightarrow>
     w_state w = WsQueued \<and> \<not> w_connected w \<and> \<not> is_zero (w_detached w) \<and>
     grace \<le> time_sub now (w_detached w)"

fun gc_loop :: "nat list \<Rightarrow> gotime \<Rightarrow> engine \<Rightarrow> nat list \<times> engine" where
  "gc_loop [] now e = ([], e)"
| "gc_loop (p # ps) now e =
     (if gc_stale now (queued_gc_grace e) (waiters e p)
      then gc_loop ps now
             (upd_waiter p (\<lambda>w. w\<lparr>w_state := WsDone\<rparr>) (e\<lparr>by_id := AList.delete (waiter_id e p) (by_id e)\<rparr>))
      else let (kept, e') = gc_loop ps now e in (p # kept, e'))"

definition gc_queued :: "gotime \<Rightarrow> engine \<Rightarrow> engine" where
  "gc_queued now e = (let (kept, e') = gc_loop (queue e) now e in e'\<lparr>queue := kept\<rparr>)"

definition stagger_tick :: "gotime \<Rightarrow> engine \<Rightarrow> engine" where
  "stagger_tick now e = e\<lparr>egates := (egates e)\<lparr>stag := stagger_gc (stag (egates e)) now\<rparr>\<rparr>"

definition set_sample :: "rat \<Rightarrow> int \<Rightarrow> engine \<Rightarrow> engine" where
  "set_sample cpu ram e = e\<lparr>egates := (egates e)\<lparr>bucket := bucket_set_sample (bucket (egates e)) cpu ram\<rparr>\<rparr>"

definition reset_recent :: "engine \<Rightarrow> engine" where
  "reset_recent e = e\<lparr>recently_admitted := 0\<rparr>"

definition on_load_sample :: "rat \<Rightarrow> int \<Rightarrow> registry_snapshot \<Rightarrow> gotime \<Rightarrow> engine \<Rightarrow> engine" where
  "on_load_sample cpu ram sn now e = schedule sn now (reset_recent (set_sample cpu ram e))"

text \<open>
  The reaper reads the held slots under the mutex, asks the registry adapter about each pid outside
  it (\<open>alive\<close>), and releases the dead ones one after another.
\<close>

definition held_slots :: "engine \<Rightarrow> (string \<times> int) list" where
  "held_slots e =
     map (\<lambda>(i, p). (i, req_pid (w_req (waiters e p))))
       (filter (\<lambda>(i, p). w_state (waiters e p) = WsAdmitted \<and> 0 < req_pid (w_req (waiters e p))) (by_id e))"

definition dead_slots :: "(int \<Rightarrow> bool) \<Rightarrow> engine \<Rightarrow> string list" where
  "dead_slots alive e = map fst (filter (\<lambda>(i, pid). \<not> alive pid) (held_slots e))"

definition reap_dead_pids :: "(int \<Rightarrow> bool) \<Rightarrow> registry_snapshot \<Rightarrow> gotime \<Rightarrow> engine \<Rightarrow> engine" where
  "reap_dead_pids alive sn now e = foldl (\<lambda>e i. release i sn now e) e (dead_slots alive e)"

section \<open>Policy switches and status\<close>

definition pause_locked :: "bool \<Rightarrow> engine \<Rightarrow> engine" where
  "pause_locked b e = e\<lparr>paused := b\<rparr>"

definition drain_locked :: "bool \<Rightarrow> engine \<Rightarrow> engine" where
  "drain_locked b e = e\<lparr>draining := b\<rparr>"

definition resume_locked :: "engine \<Rightarrow> engine" where
  "resume_locked e = e\<lparr>paused := False, draining := False\<rparr>"

definition set_paused :: "bool \<Rightarrow> registry_snapshot \<Rightarrow> gotime \<Rightarrow> engine \<Rightarrow> engine" where
  "set_paused b sn now e = schedule sn now (pause_locked b e)"

definition set_draining :: "bool \<Rightarrow> registry_snapshot \<Rightarrow> gotime \<Rightarrow> engine \<Rightarrow> engine" where
  "set_draining b sn now e = schedule sn now (drain_locked b e)"

definition resume :: "registry_snapshot \<Rightarrow> gotime \<Rightarrow> engine \<Rightarrow> engine" where
  "resume sn now e = schedule sn now (resume_locked e)"

record engine_status =
  st_max :: int
  st_held :: int
  st_queued :: nat
  st_paused :: bool
  st_draining :: bool
  st_cpu :: rat
  st_ram :: int

definition queued_count :: "engine \<Rightarrow> nat" where
  "queued_count e = length (filter (\<lambda>p. w_state (waiters e p) = WsQueued) (queue e))"

definition status :: "engine \<Rightarrow> engine_status" where
  "status e =
     (let (cpu, ram) = bucket_sample (bucket (egates e)) in
      \<lparr>st_max = sem_max (sem (egates e)), st_held = sem_held (sem (egates e)), st_queued = queued_count e,
       st_paused = paused e, st_draining = draining e, st_cpu = cpu, st_ram = ram\<rparr>)"

end
