(* ===== verification/Engine_Inv.thy ===== *)
theory Engine_Inv
  imports Engine
begin

text \<open>
  The invariants of the admission engine.  \<open>core_inv\<close> ties the queue, the index and the waiters
  together and bounds the semaphore; it holds between any two atomic steps.  \<open>slots_ok\<close> says that
  the held slots are exactly the admitted waiters of the index; it holds between whole operations.
  \<open>sched_loop_rule\<close> is the loop rule every fact about \<open>schedule\<close> goes through.
\<close>

named_theorems eng_defs \<open>definitions of the engine's atomic steps\<close>

declare upd_waiter_def [eng_defs] deliver_def [eng_defs] arm_retry_timer_def [eng_defs]
  deny_head_def [eng_defs] admit_head_def [eng_defs] detach_def [eng_defs]
  release_locked_def [eng_defs] release_gates_def [eng_defs] timer_locked_def [eng_defs]
  stagger_tick_def [eng_defs] set_sample_def [eng_defs] reset_recent_def [eng_defs]
  pause_locked_def [eng_defs] drain_locked_def [eng_defs] resume_locked_def [eng_defs]

abbreviation lookup_id :: "engine \<Rightarrow> string \<Rightarrow> nat option" where
  "lookup_id e \<equiv> map_of (by_id e)"

abbreviation queued_w :: "engine \<Rightarrow> nat \<Rightarrow> bool" where
  "queued_w e p \<equiv> w_state (waiters e p) = WsQueued"

abbreviation admitted_w :: "engine \<Rightarrow> nat \<Rightarrow> bool" where
  "admitted_w e p \<equiv> w_state (waiters e p) = WsAdmitted"

section \<open>The loop rule\<close>

lemma sched_loop_rule [consumes 1, case_names pop deny admit block finish]:
  assumes start: "P q sn e"
    and pop: "\<And>p ps sn e. P (p # ps) sn e \<Longrightarrow> \<not> queued_w e p \<Longrightarrow> P ps sn e"
    and deny: "\<And>p ps sn e. P (p # ps) sn e \<Longrightarrow> queued_w e p \<Longrightarrow> draining e \<Longrightarrow> P ps sn (deny_head p e)"
    and admit: "\<And>p ps sn e d g e'. P (p # ps) sn e \<Longrightarrow> queued_w e p \<Longrightarrow> \<not> draining e \<Longrightarrow>
        try_all_gates (egates e) (w_req (waiters e p)) sn now = (True, d, g) \<Longrightarrow>
        e' = admit_head p g now e \<Longrightarrow>
        P ps (snap_admitted (w_req (waiters e p)) (recently_admitted e') now sn) e'"
    and block: "\<And>p ps sn e d g. P (p # ps) sn e \<Longrightarrow> queued_w e p \<Longrightarrow> \<not> draining e \<Longrightarrow>
        try_all_gates (egates e) (w_req (waiters e p)) sn now = (False, d, g) \<Longrightarrow>
        Q (arm_retry_timer (waiter_id e p) d now (e\<lparr>egates := g, queue := p # ps\<rparr>))"
    and finish: "\<And>sn e. P [] sn e \<Longrightarrow> Q (e\<lparr>queue := []\<rparr>)"
  shows "Q (sched_loop q sn now e)"
  using start
proof (induction q arbitrary: sn e)
  case Nil
  then show ?case using finish by simp
next
  case (Cons p ps)
  obtain ok d g where t: "try_all_gates (egates e) (w_req (waiters e p)) sn now = (ok, d, g)"
    by (cases "try_all_gates (egates e) (w_req (waiters e p)) sn now")
  consider "\<not> queued_w e p" | "queued_w e p" "draining e" | "queued_w e p" "\<not> draining e" "ok"
    | "queued_w e p" "\<not> draining e" "\<not> ok" by blast
  then show ?case
  proof cases
    case 1
    with pop Cons show ?thesis by simp
  next
    case 2
    with deny Cons show ?thesis by simp
  next
    case 3
    with t have t': "try_all_gates (egates e) (w_req (waiters e p)) sn now = (True, d, g)" by simp
    from admit [OF Cons.prems 3(1,2) t' refl] Cons.IH 3 t' show ?thesis by (simp add: Let_def)
  next
    case 4
    with t have t': "try_all_gates (egates e) (w_req (waiters e p)) sn now = (False, d, g)" by simp
    from block [OF Cons.prems 4(1,2) t'] 4 t' show ?thesis by simp
  qed
qed

section \<open>The invariant of every atomic step\<close>

definition waiters_ok :: "nat list \<Rightarrow> engine \<Rightarrow> bool" where
  "waiters_ok q e \<longleftrightarrow>
     distinct (map fst (by_id e)) \<and> distinct q \<and> (\<forall>p\<in>set q. p < next_waiter e) \<and>
     (\<forall>p\<in>set q. queued_w e p \<longrightarrow> lookup_id e (waiter_id e p) = Some p \<and> w_ch (waiters e p) = None) \<and>
     (\<forall>i p. lookup_id e i = Some p \<longrightarrow>
        waiter_id e p = i \<and> p < next_waiter e \<and> w_state (waiters e p) \<noteq> WsDone \<and>
        (queued_w e p \<longrightarrow> p \<in> set q))"

definition core_inv :: "engine \<Rightarrow> bool" where
  "core_inv e \<longleftrightarrow> waiters_ok (queue e) e \<and> chain.bounded (egates e)"

lemma waiters_okI [intro?]:
  assumes "distinct (map fst (by_id e))" "distinct q" "\<And>p. p \<in> set q \<Longrightarrow> p < next_waiter e"
    "\<And>p. p \<in> set q \<Longrightarrow> queued_w e p \<Longrightarrow> lookup_id e (waiter_id e p) = Some p \<and> w_ch (waiters e p) = None"
    "\<And>i p. lookup_id e i = Some p \<Longrightarrow>
       waiter_id e p = i \<and> p < next_waiter e \<and> w_state (waiters e p) \<noteq> WsDone \<and> (queued_w e p \<longrightarrow> p \<in> set q)"
  shows "waiters_ok q e"
  using assms by (simp add: waiters_ok_def)

lemma waiters_okD:
  assumes "waiters_ok q e"
  shows "distinct (map fst (by_id e))" "distinct q" "p \<in> set q \<Longrightarrow> p < next_waiter e"
    "p \<in> set q \<Longrightarrow> queued_w e p \<Longrightarrow> lookup_id e (waiter_id e p) = Some p"
    "p \<in> set q \<Longrightarrow> queued_w e p \<Longrightarrow> w_ch (waiters e p) = None"
    "lookup_id e i = Some p \<Longrightarrow> waiter_id e p = i"
    "lookup_id e i = Some p \<Longrightarrow> p < next_waiter e"
    "lookup_id e i = Some p \<Longrightarrow> w_state (waiters e p) \<noteq> WsDone"
    "lookup_id e i = Some p \<Longrightarrow> queued_w e p \<Longrightarrow> p \<in> set q"
  using assms by (simp_all add: waiters_ok_def)

lemma waiters_ok_frame:
  assumes "waiters_ok q e" "by_id e' = by_id e" "next_waiter e' = next_waiter e" "waiters e' = waiters e"
  shows "waiters_ok q e'"
  using assms by (simp add: waiters_ok_def)

lemma waiters_ok_pop: "waiters_ok (p # ps) e \<Longrightarrow> \<not> queued_w e p \<Longrightarrow> waiters_ok ps e"
  by (fastforce simp: waiters_ok_def)

text \<open>The index without the id of a waiter that leaves the state \<open>wsQueued\<close>.\<close>

lemma waiters_ok_drop:
  assumes ok: "waiters_ok q e" and p: "lookup_id e i = Some p"
    and e': "by_id e' = AList.delete i (by_id e)" "next_waiter e' = next_waiter e"
      "\<And>r. r \<noteq> p \<Longrightarrow> waiters e' r = waiters e r" "\<not> queued_w e' p"
    and q': "distinct q'" "set q' \<subseteq> set q" "set q \<subseteq> insert p (set q')"
  shows "waiters_ok q' e'"
proof
  show "distinct (map fst (by_id e'))"
    using waiters_okD(1) [OF ok] by (simp add: e' distinct_delete)
  show "distinct q'" by fact
  show "r \<in> set q' \<Longrightarrow> r < next_waiter e'" for r
    using waiters_okD(3) [OF ok] q' e'(2) by auto
next
  fix r assume r: "r \<in> set q'" "queued_w e' r"
  with e'(4) have "r \<noteq> p" by metis
  with r e'(3) q' have w: "waiters e' r = waiters e r" "r \<in> set q" "queued_w e r" by auto
  with waiters_okD(4,5) [OF ok, of r] have "lookup_id e (waiter_id e r) = Some r" "w_ch (waiters e r) = None" by auto
  moreover from this p \<open>r \<noteq> p\<close> have "waiter_id e r \<noteq> i" by auto
  ultimately show "lookup_id e' (waiter_id e' r) = Some r \<and> w_ch (waiters e' r) = None"
    by (simp add: e' w delete_conv')
next
  fix j r assume "lookup_id e' j = Some r"
  then have j: "j \<noteq> i" "lookup_id e j = Some r" by (auto simp: e' delete_conv' split: if_splits)
  with waiters_okD(6) [OF ok] p have "r \<noteq> p" by metis
  with j q'(3) e'(3) [of r] waiters_okD(6-9) [OF ok, of j r] waiters_okD(9) [OF ok, of j r]
  show "waiter_id e' r = j \<and> r < next_waiter e' \<and> w_state (waiters e' r) \<noteq> WsDone \<and> (queued_w e' r \<longrightarrow> r \<in> set q')"
    by (auto simp: e'(2))
qed

subsection \<open>The branches of the loop\<close>

lemma deny_head_frame [simp]:
  "egates (deny_head p e) = egates e" "draining (deny_head p e) = draining e"
  "paused (deny_head p e) = paused e" "recently_admitted (deny_head p e) = recently_admitted e"
  "next_waiter (deny_head p e) = next_waiter e" "by_id (deny_head p e) = AList.delete (waiter_id e p) (by_id e)"
  "retry_timers (deny_head p e) = retry_timers e" "queue (deny_head p e) = queue e"
  "r \<noteq> p \<Longrightarrow> waiters (deny_head p e) r = waiters e r"
  by (simp_all add: eng_defs Let_def)

lemma deny_head_waiter:
  "w_ch (waiters e p) = None \<Longrightarrow>
     waiters (deny_head p e) p = (waiters e p)\<lparr>w_ch := Some Deny, w_state := WsDone\<rparr>"
  "w_state (waiters (deny_head p e) p) = WsDone"
  by (simp_all add: eng_defs Let_def)

lemma admit_head_frame [simp]:
  "egates (admit_head p g now e) = acquire_all_gates g (w_req (waiters e p)) now"
  "draining (admit_head p g now e) = draining e" "paused (admit_head p g now e) = paused e"
  "recently_admitted (admit_head p g now e) = Suc (recently_admitted e)"
  "next_waiter (admit_head p g now e) = next_waiter e" "by_id (admit_head p g now e) = by_id e"
  "retry_timers (admit_head p g now e) = retry_timers e" "queue (admit_head p g now e) = queue e"
  "r \<noteq> p \<Longrightarrow> waiters (admit_head p g now e) r = waiters e r"
  by (simp_all add: eng_defs Let_def)

lemma admit_head_waiter:
  "w_ch (waiters e p) = None \<Longrightarrow>
     waiters (admit_head p g now e) p = (waiters e p)\<lparr>w_ch := Some Allow, w_state := WsAdmitted\<rparr>"
  "w_state (waiters (admit_head p g now e) p) = WsAdmitted"
  "w_req (waiters (admit_head p g now e) p) = w_req (waiters e p)"
  by (simp_all add: eng_defs Let_def)

lemma waiters_ok_deny:
  assumes "waiters_ok (p # ps) e" "queued_w e p"
  shows "waiters_ok ps (deny_head p e)"
proof (rule waiters_ok_drop [OF assms(1)])
  show "lookup_id e (waiter_id e p) = Some p" by (rule waiters_okD(4) [OF assms(1) _ assms(2)]) simp
  show "distinct ps" using waiters_okD(2) [OF assms(1)] by simp
qed (auto simp: deny_head_waiter)

lemma waiters_ok_admit:
  assumes ok: "waiters_ok (p # ps) e" and p: "queued_w e p"
  shows "waiters_ok ps (admit_head p g now e)" (is "waiters_ok ps ?e")
proof
  have np: "p \<notin> set ps" and id: "lookup_id e (waiter_id e p) = Some p"
    using waiters_okD(2,4) [OF ok] p by auto
  show "distinct (map fst (by_id ?e))" "distinct ps" "r \<in> set ps \<Longrightarrow> r < next_waiter ?e" for r
    using waiters_okD(1-3) [OF ok] by auto
  show "lookup_id ?e (waiter_id ?e r) = Some r \<and> w_ch (waiters ?e r) = None"
    if "r \<in> set ps" "queued_w ?e r" for r
    using that np waiters_okD(4,5) [OF ok, of r] by (cases "r = p") auto
  show "waiter_id ?e r = i \<and> r < next_waiter ?e \<and> w_state (waiters ?e r) \<noteq> WsDone \<and> (queued_w ?e r \<longrightarrow> r \<in> set ps)"
    if "lookup_id ?e i = Some r" for i r
    using that waiters_okD(6-9) [OF ok, of i r] waiters_okD(9) [OF ok, of i r]
    by (cases "r = p") (auto simp: admit_head_waiter)
qed

lemma sched_loop_core:
  assumes "waiters_ok q e" "chain.bounded (egates e)"
  shows "core_inv (sched_loop q sn now e)"
proof -
  from assms have "waiters_ok q e \<and> chain.bounded (egates e)" ..
  then show ?thesis
  proof (induction q sn e rule: sched_loop_rule [where now = now])
    case (admit p ps sn e d g e')
    then show ?case by (auto intro: waiters_ok_admit chain.bounded_admit)
  next
    case (block p ps sn e d g)
    then have "waiters_ok (p # ps) e" "chain.bounded g" by (auto intro: chain.bounded_attempt)
    then show ?case
      by (auto simp: core_inv_def arm_retry_timer_def intro: waiters_ok_frame)
  next
    case (finish sn e)
    then show ?case by (auto simp: core_inv_def intro: waiters_ok_frame)
  qed (auto intro: waiters_ok_pop waiters_ok_deny)
qed

lemma core_schedule: "core_inv e \<Longrightarrow> core_inv (schedule sn now e)"
  using sched_loop_core [of "queue e" e] by (simp add: schedule_def) (simp add: core_inv_def)

subsection \<open>The other steps\<close>

lemma core_new_engine: "core_inv (new_engine pol)"
  by (auto simp: core_inv_def waiters_ok_def new_engine_def chain.bounded_def gates_wf_def
      sem_wf_def stagger_wf_def new_stagger_def holders_def capacity_def new_semaphore_def)

lemma waiters_ok_upd_live:
  assumes "waiters_ok q e" "req_id (w_req (f (waiters e p))) = waiter_id e p"
    "w_state (f (waiters e p)) = w_state (waiters e p)"
    "w_ch (waiters e p) = None \<Longrightarrow> w_ch (f (waiters e p)) = None"
  shows "waiters_ok q (upd_waiter p f e)"
proof
  note ok = assms(1)
  show "distinct (map fst (by_id (upd_waiter p f e)))" "distinct q"
    "r \<in> set q \<Longrightarrow> r < next_waiter (upd_waiter p f e)" for r
    using waiters_okD(1-3) [OF ok] by (auto simp: upd_waiter_def)
  have w: "waiter_id (upd_waiter p f e) r = waiter_id e r"
    "w_state (waiters (upd_waiter p f e) r) = w_state (waiters e r)"
    "w_ch (waiters e r) = None \<Longrightarrow> w_ch (waiters (upd_waiter p f e) r) = None" for r
    using assms(2-4) by (auto simp: upd_waiter_def)
  have b: "by_id (upd_waiter p f e) = by_id e" "next_waiter (upd_waiter p f e) = next_waiter e"
    by (simp_all add: upd_waiter_def)
  show "lookup_id (upd_waiter p f e) (waiter_id (upd_waiter p f e) r) = Some r
      \<and> w_ch (waiters (upd_waiter p f e) r) = None"
    if "r \<in> set q" "queued_w (upd_waiter p f e) r" for r
    using that waiters_okD(4,5) [OF ok, of r] w(3) by (auto simp only: w(1,2) b)
  show "waiter_id (upd_waiter p f e) r = i \<and> r < next_waiter (upd_waiter p f e)
      \<and> w_state (waiters (upd_waiter p f e) r) \<noteq> WsDone \<and> (queued_w (upd_waiter p f e) r \<longrightarrow> r \<in> set q)"
    if "lookup_id (upd_waiter p f e) i = Some r" for i r
    using that waiters_okD(6-9) [OF ok, of i r] waiters_okD(9) [OF ok, of i r] by (auto simp only: w(1,2) b)
qed

lemma core_upd_live:
  assumes "core_inv e" "req_id (w_req (f (waiters e p))) = waiter_id e p"
    "w_state (f (waiters e p)) = w_state (waiters e p)"
    "w_ch (waiters e p) = None \<Longrightarrow> w_ch (f (waiters e p)) = None"
  shows "core_inv (upd_waiter p f e)"
  using assms waiters_ok_upd_live [of "queue e" e f p] by (simp add: core_inv_def upd_waiter_def)

lemma core_detach: "core_inv e \<Longrightarrow> core_inv (detach p now e)"
  unfolding detach_def by (rule core_upd_live) auto

lemma core_admit_return:
  "core_inv e \<Longrightarrow> admit_return k p now e = Some (v, e') \<Longrightarrow> core_inv e'"
  by (cases k) (auto split: option.splits intro!: core_detach core_upd_live)

lemma waiters_ok_enqueue:
  assumes ok: "waiters_ok (queue e) e" and new: "lookup_id e (req_id req) = None"
  defines "n \<equiv> next_waiter e"
  defines "e1 \<equiv> e\<lparr>waiters := (waiters e)(n := new_waiter req), next_waiter := Suc n,
                   by_id := AList.update (req_id req) n (by_id e), queue := queue e @ [n]\<rparr>"
  shows "waiters_ok (queue e1) e1"
proof
  have fresh: "r \<in> set (queue e) \<Longrightarrow> r \<noteq> n" "lookup_id e i = Some r \<Longrightarrow> r \<noteq> n" for r i
    using waiters_okD(3,7) [OF ok] by (fastforce simp: n_def)+
  show "distinct (map fst (by_id e1))" "distinct (queue e1)"
    using waiters_okD(1,2) [OF ok] fresh by (auto simp: e1_def)
  show "r < next_waiter e1" if "r \<in> set (queue e1)" for r
    using that waiters_okD(3) [OF ok, of r] by (auto simp: e1_def n_def)
  show "lookup_id e1 (waiter_id e1 r) = Some r \<and> w_ch (waiters e1 r) = None"
    if "r \<in> set (queue e1)" "queued_w e1 r" for r
    using that fresh waiters_okD(4,5) [OF ok, of r] new
    by (cases "r = n") (auto simp: e1_def update_conv' new_waiter_def)
  show "waiter_id e1 r = i \<and> r < next_waiter e1 \<and> w_state (waiters e1 r) \<noteq> WsDone
      \<and> (queued_w e1 r \<longrightarrow> r \<in> set (queue e1))" if "lookup_id e1 i = Some r" for i r
    using that fresh waiters_okD(6-9) [OF ok, of i r] waiters_okD(9) [OF ok, of i r]
    by (auto simp: e1_def update_conv' new_waiter_def n_def split: if_splits)
qed

lemma core_attach_locked: assumes "core_inv e" shows "core_inv (snd (attach_locked req e))"
proof (cases "lookup_id e (req_id req)")
  case None
  let ?e1 = "e\<lparr>waiters := (waiters e)(next_waiter e := new_waiter req), next_waiter := Suc (next_waiter e),
               by_id := AList.update (req_id req) (next_waiter e) (by_id e), queue := queue e @ [next_waiter e]\<rparr>"
  from waiters_ok_enqueue [of e req] assms None have "core_inv ?e1" by (simp add: core_inv_def)
  then have "core_inv (upd_waiter (next_waiter e) (\<lambda>w. w\<lparr>w_connected := True\<rparr>) ?e1)"
    by (rule core_upd_live) auto
  with None show ?thesis by (simp add: attach_locked_def)
next
  case (Some p)
  have "core_inv (upd_waiter p (\<lambda>w. w\<lparr>w_req := refresh_request req (w_req w)\<rparr>) e)"
    using assms by (rule core_upd_live) (auto simp: refresh_request_def)
  then have "core_inv (upd_waiter p (\<lambda>w. w\<lparr>w_connected := True\<rparr>)
      (upd_waiter p (\<lambda>w. w\<lparr>w_req := refresh_request req (w_req w)\<rparr>) e))"
    by (rule core_upd_live) auto
  with Some show ?thesis by (simp add: attach_locked_def)
qed

lemma core_release_locked: assumes "core_inv e" shows "core_inv (release_locked i e)"
proof (cases "lookup_id e i")
  case None
  with assms show ?thesis
    by (auto simp: core_inv_def release_locked_def intro: waiters_ok_frame)
next
  case (Some p)
  from assms have ok: "waiters_ok (queue e) e" by (simp add: core_inv_def)
  have "waiters_ok (queue e) (release_locked i e)"
    by (rule waiters_ok_drop [OF ok Some]) (auto simp: release_locked_def Some upd_waiter_def waiters_okD(2) [OF ok])
  with assms Some show ?thesis by (simp add: core_inv_def release_locked_def upd_waiter_def)
qed

lemma core_frame:
  assumes "core_inv e" "by_id e' = by_id e" "next_waiter e' = next_waiter e" "waiters e' = waiters e"
    "queue e' = queue e" "chain.bounded (egates e) \<Longrightarrow> chain.bounded (egates e')"
  shows "core_inv e'"
  using assms waiters_ok_frame [of "queue e" e e'] by (simp add: core_inv_def)

lemma core_release_gates: "core_inv e \<Longrightarrow> core_inv (release_gates i e)"
  by (rule core_frame) (auto simp: release_gates_def intro: chain.bounded_release)

lemma bounded_frame:
  "chain.bounded g \<Longrightarrow> sem g' = sem g \<Longrightarrow> stagger_wf (stag g') \<Longrightarrow> chain.bounded g'"
  by (simp add: chain.bounded_def gates_wf_def holders_def capacity_def)

lemma bounded_stagger_wf: "core_inv e \<Longrightarrow> stagger_wf (stag (egates e))"
  by (simp add: core_inv_def chain.bounded_def gates_wf_def)

lemma stagger_gc_wf: "stagger_wf s \<Longrightarrow> stagger_wf (stagger_gc s now)"
  by (simp add: stagger_wf_def stagger_gc_def filter_distinct_fst)

lemma core_stagger_tick: "core_inv e \<Longrightarrow> core_inv (stagger_tick now e)"
  by (rule core_frame)
     (use stagger_gc_wf [OF bounded_stagger_wf] in \<open>auto simp: stagger_tick_def elim!: bounded_frame\<close>)

lemma core_set_sample: "core_inv e \<Longrightarrow> core_inv (set_sample cpu ram e)"
  by (rule core_frame) (auto simp: set_sample_def elim!: bounded_frame intro: bounded_stagger_wf)

lemma core_switches:
  "core_inv e \<Longrightarrow> core_inv (pause_locked b e)" "core_inv e \<Longrightarrow> core_inv (drain_locked b e)"
  "core_inv e \<Longrightarrow> core_inv (resume_locked e)" "core_inv e \<Longrightarrow> core_inv (reset_recent e)"
  "core_inv e \<Longrightarrow> core_inv (timer_locked i e)"
  by (rule core_frame, auto simp: eng_defs)+

lemma gc_loop_core:
  assumes "waiters_ok (pre @ q) e" "\<forall>p\<in>set pre. \<not> gc_stale now (queued_gc_grace e) (waiters e p)"
    "gc_loop q now e = (kept, e')"
  shows "waiters_ok (pre @ kept) e' \<and> egates e' = egates e"
  using assms
proof (induction q arbitrary: pre e kept)
  case (Cons p ps)
  let ?stale = "gc_stale now (queued_gc_grace e) (waiters e p)"
  show ?case
  proof (cases ?stale)
    case True
    let ?e1 = "upd_waiter p (\<lambda>w. w\<lparr>w_state := WsDone\<rparr>) (e\<lparr>by_id := AList.delete (waiter_id e p) (by_id e)\<rparr>)"
    have q: "queued_w e p" using True by (simp add: gc_stale_def)
    have id: "lookup_id e (waiter_id e p) = Some p"
      by (rule waiters_okD(4) [OF Cons.prems(1) _ q]) simp
    have d: "distinct (pre @ p # ps)" by (rule waiters_okD(2) [OF Cons.prems(1)])
    have "waiters_ok (pre @ ps) ?e1"
      by (rule waiters_ok_drop [OF Cons.prems(1) id]) (use d in \<open>auto simp: upd_waiter_def\<close>)
    moreover have "\<forall>r\<in>set pre. \<not> gc_stale now (queued_gc_grace ?e1) (waiters ?e1 r)"
      using Cons.prems(2) d by (auto simp: upd_waiter_def)
    moreover have "gc_loop ps now ?e1 = (kept, e')" using Cons.prems(3) True by simp
    ultimately have "waiters_ok (pre @ kept) e' \<and> egates e' = egates ?e1" by (rule Cons.IH)
    then show ?thesis by (simp add: upd_waiter_def)
  next
    case False
    then obtain k where k: "gc_loop ps now e = (k, e')" "kept = p # k"
      using Cons.prems(3) by (auto split: prod.splits)
    with Cons.IH [of "pre @ [p]" e k] Cons.prems False show ?thesis by simp
  qed
qed simp

lemma core_gc_queued: "core_inv e \<Longrightarrow> core_inv (gc_queued now e)"
  using gc_loop_core [of "[]" "queue e" e now]
  by (auto simp: gc_queued_def core_inv_def split: prod.splits intro: waiters_ok_frame)

lemmas core_steps =
  core_schedule core_attach_locked core_detach core_admit_return core_release_locked core_release_gates
  core_stagger_tick core_set_sample core_switches core_gc_queued

section \<open>Held slots and admitted waiters\<close>

text \<open>Between whole operations the semaphore holds exactly the ids of the admitted waiters.\<close>

definition slots_ok :: "engine \<Rightarrow> bool" where
  "slots_ok e \<longleftrightarrow>
     (\<forall>i. i \<in> holders (egates e) \<longleftrightarrow> (\<exists>p. lookup_id e i = Some p \<and> admitted_w e p))"

definition eng_inv :: "engine \<Rightarrow> bool" where
  "eng_inv e \<longleftrightarrow> core_inv e \<and> slots_ok e"

lemma slots_ok_frame:
  assumes "slots_ok e" "by_id e' = by_id e" "\<And>p. w_state (waiters e' p) = w_state (waiters e p)"
    "holders (egates e') = holders (egates e)"
  shows "slots_ok e'"
  using assms by (simp add: slots_ok_def)

lemma slots_ok_deny:
  assumes ok: "waiters_ok (p # ps) e" and s: "slots_ok e" and p: "queued_w e p"
  shows "slots_ok (deny_head p e)"
proof -
  have id: "lookup_id e (waiter_id e p) = Some p" by (rule waiters_okD(4) [OF ok _ p]) simp
  have "r \<noteq> p" if "lookup_id e i = Some r" "i \<noteq> waiter_id e p" for i r
    using that waiters_okD(6) [OF ok, of i r] by auto
  with s p id show ?thesis
    by (auto simp: slots_ok_def delete_conv' split: if_splits)
qed

lemma slots_ok_admit:
  assumes ok: "waiters_ok (p # ps) e" and s: "slots_ok e" and p: "queued_w e p"
    and t: "try_all_gates (egates e) (w_req (waiters e p)) sn now = (ok', d, g)"
  shows "slots_ok (admit_head p g now e)"
proof -
  have id: "lookup_id e (waiter_id e p) = Some p" by (rule waiters_okD(4) [OF ok _ p]) simp
  have ne: "r \<noteq> p" if "lookup_id e i = Some r" "i \<noteq> waiter_id e p" for i r
    using that waiters_okD(6) [OF ok, of i r] by auto
  have h: "holders (acquire_all_gates g (w_req (waiters e p)) now) = insert (waiter_id e p) (holders (egates e))"
    using chain.attempt_holders [OF t] by (simp add: chain.acquire_holders)
  show ?thesis
    unfolding slots_ok_def
  proof
    fix i
    show "i \<in> holders (egates (admit_head p g now e)) \<longleftrightarrow>
        (\<exists>r. lookup_id (admit_head p g now e) i = Some r \<and> admitted_w (admit_head p g now e) r)"
    proof (cases "i = waiter_id e p")
      case True
      with id show ?thesis by (simp add: h admit_head_waiter)
    next
      case False
      with s ne [of i] show ?thesis by (auto simp: h slots_ok_def)
    qed
  qed
qed

lemma sched_loop_slots:
  assumes "waiters_ok q e" "slots_ok e"
  shows "slots_ok (sched_loop q sn now e)"
proof -
  from assms have "waiters_ok q e \<and> slots_ok e" ..
  then show ?thesis
  proof (induction q sn e rule: sched_loop_rule [where now = now])
    case (block p ps sn e d g)
    then show ?case
      by (auto simp: arm_retry_timer_def elim!: slots_ok_frame dest: chain.attempt_holders)
  next
    case (finish sn e)
    then show ?case by (auto elim: slots_ok_frame)
  next
    case (admit p ps sn e d g e')
    then show ?case by (auto intro: waiters_ok_admit slots_ok_admit)
  qed (auto intro: waiters_ok_pop waiters_ok_deny slots_ok_deny)
qed

lemma inv_schedule: "eng_inv e \<Longrightarrow> eng_inv (schedule sn now e)"
  using sched_loop_slots [of "queue e" e] core_schedule [of e]
  by (auto simp: eng_inv_def schedule_def core_inv_def)

lemma slots_ok_drop_queued:
  assumes ok: "waiters_ok q e" and s: "slots_ok e" and p: "lookup_id e i = Some p" "queued_w e p"
    and e': "by_id e' = AList.delete i (by_id e)" "egates e' = egates e"
      "\<And>r. r \<noteq> p \<Longrightarrow> waiters e' r = waiters e r"
  shows "slots_ok e'"
proof -
  have "r \<noteq> p" if "lookup_id e j = Some r" "j \<noteq> i" for j r
    using that waiters_okD(6) [OF ok, of j r] waiters_okD(6) [OF ok p(1)] by auto
  with s p show ?thesis by (auto simp: slots_ok_def e' delete_conv' split: if_splits)
qed

lemma slots_ok_release:
  assumes ok: "waiters_ok q e" and s: "slots_ok e"
  shows "slots_ok (release_gates i (release_locked i e))"
proof -
  have h: "holders (release_all_gates g i) = holders g - {i}" for g by (rule chain.release_holders)
  have ne: "r \<noteq> p" if "lookup_id e j = Some r" "j \<noteq> i" "lookup_id e i = Some p" for j r p
    using that waiters_okD(6) [OF ok, of j r] waiters_okD(6) [OF ok, of i p] by auto
  show ?thesis
  proof (cases "lookup_id e i")
    case None
    with s have "i \<notin> holders (egates e)" by (simp add: slots_ok_def)
    with None s show ?thesis
      by (simp add: slots_ok_def release_gates_def release_locked_def h)
  next
    case (Some p)
    let ?e' = "release_gates i (release_locked i e)"
    have b: "by_id ?e' = AList.delete i (by_id e)" "holders (egates ?e') = holders (egates e) - {i}"
      "r \<noteq> p \<Longrightarrow> waiters ?e' r = waiters e r" for r
      using Some by (simp_all add: release_gates_def release_locked_def h upd_waiter_def)
    have "j \<in> holders (egates ?e') \<longleftrightarrow> (\<exists>r. lookup_id ?e' j = Some r \<and> admitted_w ?e' r)" for j
    proof (cases "j = i")
      case False
      then have "lookup_id ?e' j = lookup_id e j" by (simp add: b delete_conv')
      moreover have "lookup_id e j = Some r \<Longrightarrow> waiters ?e' r = waiters e r" for r
        using ne [OF _ False Some] b(3) by blast
      ultimately show ?thesis using s False by (auto simp: slots_ok_def b(2))
    qed (simp add: b delete_conv')
    then show ?thesis by (simp add: slots_ok_def)
  qed
qed

lemma inv_release: assumes "eng_inv e" shows "eng_inv (release i sn now e)"
proof -
  from assms have "core_inv (release_gates i (release_locked i e))"
    by (simp add: eng_inv_def core_release_gates core_release_locked)
  moreover from assms have "slots_ok (release_gates i (release_locked i e))"
    by (auto simp: eng_inv_def core_inv_def intro: slots_ok_release [of "queue e"])
  ultimately show ?thesis unfolding release_def by (intro inv_schedule) (simp add: eng_inv_def)
qed

lemma inv_attach_locked: assumes "eng_inv e" shows "eng_inv (snd (attach_locked req e))"
proof -
  from assms have ok: "waiters_ok (queue e) e" and s: "slots_ok e" by (auto simp: eng_inv_def core_inv_def)
  have fresh: "lookup_id e i = Some r \<Longrightarrow> r \<noteq> next_waiter e" for i r
    using waiters_okD(7) [OF ok] by fastforce
  have "slots_ok (snd (attach_locked req e))"
  proof (cases "lookup_id e (req_id req)")
    case None
    with s fresh show ?thesis
      by (auto simp: attach_locked_def slots_ok_def upd_waiter_def update_conv' new_waiter_def split: if_splits)
  next
    case (Some p)
    with s show ?thesis by (auto simp: attach_locked_def upd_waiter_def elim!: slots_ok_frame)
  qed
  with assms core_attach_locked show ?thesis by (simp add: eng_inv_def)
qed

lemma inv_attach: "eng_inv e \<Longrightarrow> eng_inv (snd (attach req sn now e))"
  using inv_attach_locked [of e req] inv_schedule
  by (auto simp: attach_def split: prod.splits)

lemma inv_admit_return: "eng_inv e \<Longrightarrow> admit_return k p now e = Some (v, e') \<Longrightarrow> eng_inv e'"
  unfolding eng_inv_def
  by (cases k) (auto intro: core_admit_return [of e k p now v] simp: detach_def upd_waiter_def
      split: option.splits elim!: slots_ok_frame)

lemma gc_loop_slots:
  assumes "waiters_ok (pre @ q) e" "\<forall>p\<in>set pre. \<not> gc_stale now (queued_gc_grace e) (waiters e p)"
    "slots_ok e" "gc_loop q now e = (kept, e')"
  shows "slots_ok e'"
  using assms
proof (induction q arbitrary: pre e kept)
  case (Cons p ps)
  show ?case
  proof (cases "gc_stale now (queued_gc_grace e) (waiters e p)")
    case True
    let ?e1 = "upd_waiter p (\<lambda>w. w\<lparr>w_state := WsDone\<rparr>) (e\<lparr>by_id := AList.delete (waiter_id e p) (by_id e)\<rparr>)"
    have q: "queued_w e p" using True by (simp add: gc_stale_def)
    have id: "lookup_id e (waiter_id e p) = Some p"
      by (rule waiters_okD(4) [OF Cons.prems(1) _ q]) simp
    have d: "distinct (pre @ p # ps)" by (rule waiters_okD(2) [OF Cons.prems(1)])
    have "waiters_ok (pre @ ps) ?e1"
      by (rule waiters_ok_drop [OF Cons.prems(1) id]) (use d in \<open>auto simp: upd_waiter_def\<close>)
    moreover have "\<forall>r\<in>set pre. \<not> gc_stale now (queued_gc_grace ?e1) (waiters ?e1 r)"
      using Cons.prems(2) d by (auto simp: upd_waiter_def)
    moreover have "slots_ok ?e1"
      by (rule slots_ok_drop_queued [OF Cons.prems(1,3) id q]) (auto simp: upd_waiter_def)
    moreover have "gc_loop ps now ?e1 = (kept, e')" using Cons.prems(4) True by simp
    ultimately show ?thesis by (rule Cons.IH)
  next
    case False
    then obtain k where k: "gc_loop ps now e = (k, e')" "kept = p # k"
      using Cons.prems(4) by (auto split: prod.splits)
    with Cons.IH [of "pre @ [p]" e k] Cons.prems False show ?thesis by simp
  qed
qed simp

lemma inv_gc_queued: "eng_inv e \<Longrightarrow> eng_inv (gc_queued now e)"
proof -
  assume inv: "eng_inv e"
  obtain kept e' where g: "gc_loop (queue e) now e = (kept, e')" by fastforce
  from inv gc_loop_slots [of "[]" "queue e" e now kept e'] g have "slots_ok e'"
    by (simp add: eng_inv_def core_inv_def)
  then have "slots_ok (gc_queued now e)" by (auto simp: gc_queued_def g elim: slots_ok_frame)
  with inv core_gc_queued show ?thesis by (simp add: eng_inv_def)
qed

lemma inv_frame:
  assumes "eng_inv e" "core_inv e'" "by_id e' = by_id e" "waiters e' = waiters e"
    "holders (egates e') = holders (egates e)"
  shows "eng_inv e'"
  using assms by (simp add: eng_inv_def slots_ok_def)

lemma inv_core: "eng_inv e \<Longrightarrow> core_inv e"
  by (simp add: eng_inv_def)

lemma inv_switches:
  assumes "eng_inv e"
  shows "eng_inv (pause_locked b e)" "eng_inv (drain_locked b e)" "eng_inv (resume_locked e)"
    "eng_inv (reset_recent e)" "eng_inv (timer_locked i e)" "eng_inv (set_sample cpu ram e)"
    "eng_inv (stagger_tick now e)"
proof -
  note c = inv_core [OF assms]
  note f = inv_frame [OF assms]
  show "eng_inv (pause_locked b e)" by (rule f) (simp_all add: core_switches c, simp_all add: eng_defs)
  show "eng_inv (drain_locked b e)" by (rule f) (simp_all add: core_switches c, simp_all add: eng_defs)
  show "eng_inv (resume_locked e)" by (rule f) (simp_all add: core_switches c, simp_all add: eng_defs)
  show "eng_inv (reset_recent e)" by (rule f) (simp_all add: core_switches c, simp_all add: eng_defs)
  show "eng_inv (timer_locked i e)" by (rule f) (simp_all add: core_switches c, simp_all add: eng_defs)
  show "eng_inv (set_sample cpu ram e)"
    by (rule f) (simp_all add: core_set_sample c, simp_all add: set_sample_def holders_def)
  show "eng_inv (stagger_tick now e)"
    by (rule f) (simp_all add: core_stagger_tick c, simp_all add: stagger_tick_def holders_def)
qed

lemma inv_reap: "eng_inv e \<Longrightarrow> eng_inv (reap_dead_pids alive sn now e)"
proof -
  assume "eng_inv e"
  then have "eng_inv (foldl (\<lambda>e i. release i sn now e) e is)" for "is"
    by (induction "is" arbitrary: e) (auto intro: inv_release)
  then show ?thesis by (simp add: reap_dead_pids_def)
qed

lemma inv_new_engine: "eng_inv (new_engine pol)"
  by (simp add: eng_inv_def core_new_engine slots_ok_def)
     (simp add: new_engine_def holders_def new_semaphore_def)

end
