(* ===== verification/Engine_Steps.thy ===== *)
theory Engine_Steps
  imports Engine_Inv
begin

text \<open>
  Runs of the admission engine.  \<open>world_step\<close> interleaves the atomic steps of any number of
  goroutines: a handler attaches, schedules and returns in separate steps, and a \<open>Release\<close> gives up
  the mutex before it releases the gates, so the ids whose gates are still to be released are part
  of the state.  \<open>operation\<close> is the coarse view in which each call of the source runs to its end.
\<close>

section \<open>Interleaved runs\<close>

record world =
  eng :: engine
  releasing :: "string list"

text \<open>
  One label per critical section.  \<open>schedule\<close> may run at any time: every operation of the source
  ends with a call of it and the load sampler calls it each second.
\<close>

datatype atomic =
    AttachLocked request
  | ScheduleLocked registry_snapshot gotime
  | AdmitReturn wake nat gotime
  | ReleaseLocked string
  | ReleaseGates string
  | TimerLocked string
  | GcQueued gotime
  | StaggerTick gotime
  | SetSample rat int
  | ResetRecent
  | PauseLocked bool
  | DrainLocked bool
  | ResumeLocked

fun world_step :: "atomic \<Rightarrow> world \<Rightarrow> world option" where
  "world_step (AttachLocked req) w = Some (w\<lparr>eng := snd (attach_locked req (eng w))\<rparr>)"
| "world_step (ScheduleLocked sn now) w = Some (w\<lparr>eng := schedule sn now (eng w)\<rparr>)"
| "world_step (AdmitReturn k p now) w =
     (case admit_return k p now (eng w) of
        None \<Rightarrow> None
      | Some (v, e) \<Rightarrow> Some (w\<lparr>eng := e\<rparr>))"
| "world_step (ReleaseLocked i) w =
     Some \<lparr>eng = release_locked i (eng w), releasing = i # releasing w\<rparr>"
| "world_step (ReleaseGates i) w =
     (if i \<in> set (releasing w)
      then Some \<lparr>eng = release_gates i (eng w), releasing = remove1 i (releasing w)\<rparr> else None)"
| "world_step (TimerLocked i) w = Some (w\<lparr>eng := timer_locked i (eng w)\<rparr>)"
| "world_step (GcQueued now) w = Some (w\<lparr>eng := gc_queued now (eng w)\<rparr>)"
| "world_step (StaggerTick now) w = Some (w\<lparr>eng := stagger_tick now (eng w)\<rparr>)"
| "world_step (SetSample cpu ram) w = Some (w\<lparr>eng := set_sample cpu ram (eng w)\<rparr>)"
| "world_step ResetRecent w = Some (w\<lparr>eng := reset_recent (eng w)\<rparr>)"
| "world_step (PauseLocked b) w = Some (w\<lparr>eng := pause_locked b (eng w)\<rparr>)"
| "world_step (DrainLocked b) w = Some (w\<lparr>eng := drain_locked b (eng w)\<rparr>)"
| "world_step ResumeLocked w = Some (w\<lparr>eng := resume_locked (eng w)\<rparr>)"

inductive reachable :: "policy \<Rightarrow> world \<Rightarrow> bool" for pol where
  start: "reachable pol \<lparr>eng = new_engine pol, releasing = []\<rparr>"
| step: "reachable pol w \<Longrightarrow> world_step a w = Some w' \<Longrightarrow> reachable pol w'"

inductive_cases reachableE: "reachable pol w"

fun_cases admit_step: "world_step (AdmitReturn k p now) w = Some w'"
  and release_step: "world_step (ReleaseGates i) w = Some w'"

text \<open>A run given by its labels.\<close>

fun run :: "atomic list \<Rightarrow> world \<Rightarrow> world option" where
  "run [] w = Some w"
| "run (a # as) w = (case world_step a w of None \<Rightarrow> None | Some w' \<Rightarrow> run as w')"

lemma run_reachable: "run as w = Some w' \<Longrightarrow> reachable pol w \<Longrightarrow> reachable pol w'"
  by (induction "as" arbitrary: w) (auto split: option.splits intro: reachable.step)

section \<open>Runs of whole operations\<close>

datatype operation =
    OpAttach request registry_snapshot gotime
  | OpReturn wake nat gotime
  | OpRelease string registry_snapshot gotime
  | OpTimer string registry_snapshot gotime
  | OpGc gotime
  | OpStaggerTick gotime
  | OpSample rat int registry_snapshot gotime
  | OpReap "int \<Rightarrow> bool" registry_snapshot gotime
  | OpPause bool registry_snapshot gotime
  | OpDrain bool registry_snapshot gotime
  | OpResume registry_snapshot gotime

fun operate :: "operation \<Rightarrow> engine \<Rightarrow> engine option" where
  "operate (OpAttach req sn now) e = Some (snd (attach req sn now e))"
| "operate (OpReturn k p now) e = map_option snd (admit_return k p now e)"
| "operate (OpRelease i sn now) e = Some (release i sn now e)"
| "operate (OpTimer i sn now) e = Some (timer_fire i sn now e)"
| "operate (OpGc now) e = Some (gc_queued now e)"
| "operate (OpStaggerTick now) e = Some (stagger_tick now e)"
| "operate (OpSample cpu ram sn now) e = Some (on_load_sample cpu ram sn now e)"
| "operate (OpReap alive sn now) e = Some (reap_dead_pids alive sn now e)"
| "operate (OpPause b sn now) e = Some (set_paused b sn now e)"
| "operate (OpDrain b sn now) e = Some (set_draining b sn now e)"
| "operate (OpResume sn now) e = Some (resume sn now e)"

inductive served :: "policy \<Rightarrow> engine \<Rightarrow> bool" for pol where
  new: "served pol (new_engine pol)"
| op: "served pol e \<Longrightarrow> operate a e = Some e' \<Longrightarrow> served pol e'"

section \<open>Invariants by rule induction\<close>

lemma core_world_step:
  assumes "world_step a w = Some w'" "core_inv (eng w)"
  shows "core_inv (eng w')"
proof (cases a)
  case (AdmitReturn k p now)
  with assms show ?thesis by (auto split: option.splits intro: core_admit_return)
next
  case (AttachLocked req)
  with assms core_attach_locked show ?thesis by auto
qed (use assms in \<open>auto simp: core_schedule core_release_locked core_release_gates core_stagger_tick
      core_set_sample core_switches core_gc_queued split: if_splits\<close>)

lemma reachable_core: "reachable pol w \<Longrightarrow> core_inv (eng w)"
  by (induction rule: reachable.induct) (auto simp: core_new_engine intro: core_world_step)

text \<open>No step changes the size of the semaphore.\<close>

lemma sched_loop_capacity: "capacity (egates e) = c \<Longrightarrow> capacity (egates (sched_loop q sn now e)) = c"
  by (induction q sn e rule: sched_loop_rule [where now = now])
     (auto simp: arm_retry_timer_def chain.acquire_capacity dest: chain.attempt_capacity)

lemma capacity_schedule [simp]: "capacity (egates (schedule sn now e)) = capacity (egates e)"
  by (simp add: schedule_def sched_loop_capacity)

lemma gc_loop_gates: "egates (snd (gc_loop q now e)) = egates e"
  by (induction q arbitrary: e) (auto simp: upd_waiter_def split_beta)

lemma gates_steps [simp]:
  "egates (snd (attach_locked req e)) = egates e" "egates (detach p now e) = egates e"
  "egates (release_locked i e) = egates e" "egates (gc_queued now e) = egates e"
  "egates (timer_locked i e) = egates e" "egates (pause_locked b e) = egates e"
  "egates (drain_locked b e) = egates e" "egates (resume_locked e) = egates e"
  "egates (reset_recent e) = egates e" "egates (upd_waiter p f e) = egates e"
  using gc_loop_gates [of "queue e" now e]
  by (auto simp: eng_defs attach_locked_def gc_queued_def split: option.splits prod.splits)

lemma gates_admit_return: "admit_return k p now e = Some (v, e') \<Longrightarrow> egates e' = egates e"
  by (cases k) (auto split: option.splits)

lemma capacity_steps [simp]:
  "capacity (egates (release_gates i e)) = capacity (egates e)"
  "capacity (egates (stagger_tick now e)) = capacity (egates e)"
  "capacity (egates (set_sample cpu ram e)) = capacity (egates e)"
  by (simp_all add: release_gates_def chain.release_capacity, simp_all add: eng_defs capacity_def)

lemma capacity_world_step:
  "world_step a w = Some w' \<Longrightarrow> capacity (egates (eng w')) = capacity (egates (eng w))"
  by (cases a) (auto split: option.splits if_splits dest: gates_admit_return)

lemma capacity_new: "capacity (egates (new_engine pol)) = max 1 (max_concurrent pol)"
  by (simp add: new_engine_def capacity_def new_semaphore_def)

lemma reachable_capacity: "reachable pol w \<Longrightarrow> capacity (egates (eng w)) = max 1 (max_concurrent pol)"
  by (induction rule: reachable.induct) (auto simp: capacity_new dest: capacity_world_step)

lemma capacity_release [simp]: "capacity (egates (release i sn now e)) = capacity (egates e)"
  by (simp add: release_def)

lemma capacity_reap [simp]: "capacity (egates (reap_dead_pids alive sn now e)) = capacity (egates e)"
proof -
  have "capacity (egates (foldl (\<lambda>e i. release i sn now e) e is)) = capacity (egates e)" for "is"
    by (induction "is" arbitrary: e) simp_all
  then show ?thesis by (simp add: reap_dead_pids_def)
qed

lemma attach_eq: "attach req sn now e = (fst (attach_locked req e), schedule sn now (snd (attach_locked req e)))"
  by (simp add: attach_def split_beta)

lemmas operation_defs =
  attach_eq timer_fire_def on_load_sample_def set_paused_def set_draining_def resume_def

lemma capacity_operate: "operate a e = Some e' \<Longrightarrow> capacity (egates e') = capacity (egates e)"
  by (cases a) (auto simp: operation_defs dest: gates_admit_return)

lemma inv_operate: "operate a e = Some e' \<Longrightarrow> eng_inv e \<Longrightarrow> eng_inv e'"
  by (cases a)
     (auto simp: operation_defs inv_switches inv_schedule inv_release inv_gc_queued inv_reap
        inv_attach_locked intro: inv_admit_return)

lemma served_inv: "served pol e \<Longrightarrow> eng_inv e \<and> capacity (egates e) = max 1 (max_concurrent pol)"
  by (induction rule: served.induct)
     (auto simp: inv_new_engine capacity_new dest: inv_operate capacity_operate)

end
