(* ===== verification/Engine_Props.thy ===== *)
theory Engine_Props
  imports Engine_Steps
begin

text \<open>
  The properties of the admission engine: the bound on held slots in every interleaving, the
  agreement of slots and admitted waiters between operations, FIFO order, the absence of lost
  wake-ups, drain and pause, redelivery of a buffered verdict, garbage collection, and the ramp
  that keeps one load sample from admitting a stampede.
\<close>

section \<open>What one run of schedule does\<close>

text \<open>The loop works off a prefix of the queue; waiters outside it are not touched.\<close>

lemma sched_loop_prefix:
  fixes q0 :: "nat list" and e0 :: engine
  assumes "distinct q0"
  defines "J \<equiv> \<lambda>q e. \<exists>k. q = drop k q0 \<and> (\<forall>p\<in>set (take k q0). \<not> queued_w e p) \<and>
             (\<forall>p. p \<notin> set (take k q0) \<longrightarrow> waiters e p = waiters e0 p) \<and>
             draining e = draining e0 \<and> paused e = paused e0"
  shows "let e' = sched_loop q0 sn now e0 in J (queue e') e'"
proof -
  have step: "J ps e'"
    if j: "J (p # ps) e" and w: "\<And>r. r \<noteq> p \<Longrightarrow> waiters e' r = waiters e r" "\<not> queued_w e' p"
      and f: "draining e' = draining e" "paused e' = paused e" for p ps e e'
  proof -
    from j obtain k where k: "p # ps = drop k q0" and d: "\<forall>r\<in>set (take k q0). \<not> queued_w e r"
      "\<forall>r. r \<notin> set (take k q0) \<longrightarrow> waiters e r = waiters e0 r" "draining e = draining e0" "paused e = paused e0"
      unfolding J_def by blast
    then have len: "k < length q0" by (metis drop_all leI list.distinct(1))
    with k have p: "q0 ! k = p" "drop (Suc k) q0 = ps" by (metis Cons_nth_drop_Suc list.inject)+
    with len have t: "set (take (Suc k) q0) = insert p (set (take k q0))"
      by (simp add: take_Suc_conv_app_nth)
    from d t w have "\<forall>r\<in>set (take (Suc k) q0). \<not> queued_w e' r" by (metis insert_iff)
    moreover from d t w have "\<forall>r. r \<notin> set (take (Suc k) q0) \<longrightarrow> waiters e' r = waiters e0 r" by simp
    ultimately show ?thesis using p d f unfolding J_def by metis
  qed
  have frame: "J q e'" if "J q e" "waiters e' = waiters e" "draining e' = draining e" "paused e' = paused e" for q e e'
    using that by (simp add: J_def)
  have "J q0 e0" unfolding J_def by (rule exI [of _ 0]) simp
  then have "J (queue (sched_loop q0 sn now e0)) (sched_loop q0 sn now e0)"
  proof (induction q0 sn e0 rule: sched_loop_rule [where now = now])
    case (pop p ps sn e)
    then show ?case by (auto intro: step)
  next
    case (deny p ps sn e)
    then show ?case by (auto intro: step simp: deny_head_waiter)
  next
    case (admit p ps sn e d g e')
    then show ?case by (auto intro: step simp: admit_head_waiter)
  next
    case (block p ps sn e d g)
    then show ?case by (auto intro: frame simp: arm_retry_timer_def)
  next
    case (finish sn e)
    then show ?case by (auto intro: frame)
  qed
  then show ?thesis by (simp add: Let_def)
qed

text \<open>Where it stops, the waiter at the head waits for a timer or for a slot.\<close>

definition waits_for_wake :: "engine \<Rightarrow> gotime \<Rightarrow> bool" where
  "waits_for_wake e now \<longleftrightarrow>
     (case queue e of
        [] \<Rightarrow> True
      | p # _ \<Rightarrow> queued_w e p \<and> \<not> draining e \<and>
          ((\<exists>t. map_of (retry_timers e) (waiter_id e p) = Some t \<and> now < t) \<or>
           (capacity (egates e) \<le> int (card (holders (egates e))) \<and> waiter_id e p \<notin> holders (egates e))))"

lemma chain_refusal:
  assumes "try_all_gates g req sn now = (False, d, g')"
  shows "0 < d \<or> (d = 0 \<and> capacity g \<le> int (card (holders g)) \<and> req_id req \<notin> holders g)"
  using assms stagger_hold_nonneg [of "stag g" req sn now]
  by (auto simp: stagger_try_eq order_less_le try_all_gates_eq sem_try_def holders_def capacity_def time_simps split: if_splits prod.splits)

lemma sched_loop_waits: "waits_for_wake (sched_loop q sn now e) now"
proof -
  have "True" ..
  then show ?thesis
  proof (induction q sn e rule: sched_loop_rule [where now = now and P = "\<lambda>_ _ _. True"])
    case (block p ps sn e d g)
    from block(4) chain_refusal [OF block(4)] chain.attempt_holders [OF block(4)] chain.attempt_capacity [OF block(4)] block(2,3)
    show ?case by (auto simp: waits_for_wake_def arm_retry_timer_def update_conv')
  qed (simp_all add: waits_for_wake_def)
qed

text \<open>Draining answers every queued waiter and leaves the gates alone.\<close>

lemma sched_loop_drain:
  fixes sn :: registry_snapshot and now :: gotime
  assumes "waiters_ok q e" "draining e"
  defines "e' \<equiv> sched_loop q sn now e"
  shows "queue e' = []" "egates e' = egates e" "recently_admitted e' = recently_admitted e"
    "\<And>p. p \<in> set q \<Longrightarrow> queued_w e p \<Longrightarrow> waiters e' p = (waiters e p)\<lparr>w_ch := Some Deny, w_state := WsDone\<rparr>"
    "\<And>p. p \<notin> set q \<or> \<not> queued_w e p \<Longrightarrow> waiters e' p = waiters e p"
proof -
  have "queue e' = [] \<and> egates e' = egates e \<and> recently_admitted e' = recently_admitted e \<and>
    (\<forall>p. waiters e' p = (if p \<in> set q \<and> queued_w e p
                         then (waiters e p)\<lparr>w_ch := Some Deny, w_state := WsDone\<rparr> else waiters e p))"
    using assms(1,2) unfolding e'_def
  proof (induction q arbitrary: e)
    case (Cons p ps)
    show ?case
    proof (cases "queued_w e p")
      case False
      with Cons.IH [of e] Cons.prems waiters_ok_pop [of p ps e] show ?thesis by auto
    next
      case True
      with Cons.IH [of "deny_head p e"] Cons.prems waiters_ok_deny [of p ps e]
      have ih: "queue (sched_loop ps sn now (deny_head p e)) = []"
        "egates (sched_loop ps sn now (deny_head p e)) = egates e"
        "recently_admitted (sched_loop ps sn now (deny_head p e)) = recently_admitted e"
        "waiters (sched_loop ps sn now (deny_head p e)) r =
          (if r \<in> set ps \<and> queued_w (deny_head p e) r
           then (waiters (deny_head p e) r)\<lparr>w_ch := Some Deny, w_state := WsDone\<rparr> else waiters (deny_head p e) r)" for r
        by simp_all
      have "w_ch (waiters e p) = None" "p \<notin> set ps"
        using waiters_okD(2) [OF Cons.prems(1)] waiters_okD(5) [OF Cons.prems(1), of p] True by auto
      then have "waiters (deny_head p e) r =
          (if r = p then (waiters e p)\<lparr>w_ch := Some Deny, w_state := WsDone\<rparr> else waiters e r)" for r
        by (simp add: deny_head_waiter)
      with ih True Cons.prems(2) \<open>p \<notin> set ps\<close> show ?thesis by auto
    qed
  qed simp
  then show "queue e' = []" "egates e' = egates e" "recently_admitted e' = recently_admitted e"
    "\<And>p. p \<in> set q \<Longrightarrow> queued_w e p \<Longrightarrow> waiters e' p = (waiters e p)\<lparr>w_ch := Some Deny, w_state := WsDone\<rparr>"
    "\<And>p. p \<notin> set q \<or> \<not> queued_w e p \<Longrightarrow> waiters e' p = waiters e p"
    by auto
qed

section \<open>The ramp between two load samples\<close>

lemma bucket_admits:
  "try_all_gates g req sn now = (True, d, g') \<Longrightarrow>
     0 < cpu_hi (bucket g) \<Longrightarrow> eff_cpu (cpu_now (bucket g)) (snap_recent sn) < cpu_hi (bucket g)"
  by (auto simp: try_all_gates_eq bucket_try_def split: if_splits)

lemma bucket_chain [simp]:
  "try_all_gates g req sn now = (ok, d, g') \<Longrightarrow> bucket g' = bucket g"
  "bucket (acquire_all_gates g req now) = bucket g"
  by (auto simp: try_all_gates_eq acquire_all_gates_eq split: if_splits prod.splits)

lemma sched_loop_ramp:
  assumes "0 < cpu_hi b" "cpu_hi b \<le> eff_cpu (cpu_now b) n"
    and "bucket (egates e) = b" "snap_recent sn = recently_admitted e" "recently_admitted e \<le> n"
  shows "recently_admitted (sched_loop q sn now e) \<le> n"
proof -
  from assms(3-5) have "bucket (egates e) = b \<and> snap_recent sn = recently_admitted e \<and> recently_admitted e \<le> n"
    by simp
  then show ?thesis
  proof (induction q sn e rule: sched_loop_rule [where now = now])
    case (admit p ps sn e d g e')
    then have "eff_cpu (cpu_now b) (recently_admitted e) < cpu_hi b"
      using bucket_admits [OF admit(4)] assms(1) by simp
    with assms(2) eff_cpu_mono [of n "recently_admitted e" "cpu_now b"]
    have "recently_admitted e < n" by (meson leD leI order_trans)
    with admit show ?case by (simp add: snap_admitted_def)
  qed (auto simp: arm_retry_timer_def)
qed

lemma ramp_ge: "51 / 512 \<le> ramp_per_head"
proof -
  have "is_double (51 / 512)"
    unfolding is_double_def by (intro exI [of _ 51] exI [of _ "-9"]) (simp add: power_int_minus)
  then have "fl64 (51 / 512) = 51 / 512" by (rule fl64_dyadic)
  with fl64_mono [of "51 / 512" "1 / 10"] show ?thesis by (simp add: ramp_per_head_def)
qed

lemma eff_cpu_nine:
  assumes "0 \<le> c" shows "fl64 (85 / 100) \<le> eff_cpu c 9"
proof -
  have "is_double (459 / 512)"
    unfolding is_double_def by (intro exI [of _ 459] exI [of _ "-9"]) (simp add: power_int_minus)
  then have "459 / 512 = fl64 (459 / 512)" by (simp add: fl64_dyadic)
  also have "\<dots> \<le> fl64 (of_nat 9 * ramp_per_head)" using ramp_ge by (intro fl64_mono) simp
  finally have "85 / 100 \<le> c + fl64 (of_nat 9 * ramp_per_head)" using assms by simp
  then show ?thesis unfolding eff_cpu_def by (rule fl64_mono)
qed

section \<open>Handlers\<close>

lemma fst_attach_locked: "lookup_id e (req_id req) = Some p \<Longrightarrow> fst (attach_locked req e) = p"
  by (simp add: attach_locked_def)

lemma attach_known:
  assumes "lookup_id e (req_id req) = Some p"
  defines "e1 \<equiv> snd (attach_locked req e)"
  shows "queue e1 = queue e" "by_id e1 = by_id e" "egates e1 = egates e"
    "w_ch (waiters e1 p) = w_ch (waiters e p)" "w_state (waiters e1 r) = w_state (waiters e r)"
  using assms by (auto simp: attach_locked_def upd_waiter_def)

text \<open>\<open>schedule\<close> does not touch a waiter that has left the state \<open>wsQueued\<close>.\<close>

lemma sched_loop_settled:
  fixes sn :: registry_snapshot and now :: gotime
  assumes "waiters_ok q e" "\<not> queued_w e p" "lookup_id e i = Some p"
  defines "e' \<equiv> sched_loop q sn now e"
  shows "waiters e' p = waiters e p \<and> lookup_id e' i = Some p"
proof -
  define w where "w = waiters e p"
  have "waiters_ok q e \<and> waiters e p = w \<and> w_state w \<noteq> WsQueued \<and> lookup_id e i = Some p"
    using assms by (simp add: w_def)
  then have "waiters e' p = w \<and> lookup_id e' i = Some p" unfolding e'_def
  proof (induction q sn e rule: sched_loop_rule [where now = now])
    case (deny r ps sn e)
    then have "r \<noteq> p" by auto
    moreover have "waiter_id e r \<noteq> i"
      using deny \<open>r \<noteq> p\<close> waiters_okD(4) [of "r # ps" e r] by auto
    ultimately show ?case using deny waiters_ok_deny by (auto simp: delete_conv')
  next
    case (admit r ps sn e d g e')
    then have "r \<noteq> p" by auto
    with admit waiters_ok_admit show ?case by auto
  qed (auto simp: arm_retry_timer_def intro: waiters_ok_pop)
  then show ?thesis by (simp add: w_def)
qed

lemma schedule_settled:
  assumes "core_inv e" "\<not> queued_w e p" "lookup_id e i = Some p"
  shows "waiters (schedule sn now e) p = waiters e p" "lookup_id (schedule sn now e) i = Some p"
  using sched_loop_settled [of "queue e" e p i] assms by (auto simp: schedule_def core_inv_def)

text \<open>Whoever leaves the state \<open>wsQueued\<close> in \<open>schedule\<close> finds the verdict in the buffer.\<close>

definition answered :: "engine \<Rightarrow> nat \<Rightarrow> bool" where
  "answered e p \<longleftrightarrow>
     (admitted_w e p \<and> w_ch (waiters e p) = Some Allow) \<or>
     (w_state (waiters e p) = WsDone \<and> w_ch (waiters e p) = Some Deny)"

lemma sched_loop_answers:
  assumes "waiters_ok q e" "queued_w e p" "p \<in> set q"
  defines "J \<equiv> \<lambda>e. queued_w e p \<or> answered e p"
  shows "J (sched_loop q sn now e)"
proof -
  from assms have "waiters_ok q e \<and> J e" by simp
  then show ?thesis
  proof (induction q sn e rule: sched_loop_rule [where now = now])
    case (deny r ps sn e)
    with waiters_okD(5) [of "r # ps" e r] waiters_ok_deny [of r ps e] show ?case
      by (cases "r = p") (auto simp: J_def answered_def deny_head_waiter)
  next
    case (admit r ps sn e d g e')
    with waiters_okD(5) [of "r # ps" e r] waiters_ok_admit [of r ps e g now] show ?case
      by (cases "r = p") (auto simp: J_def answered_def admit_head_waiter)
  next
    case (block r ps sn e d g)
    then show ?case by (auto simp: J_def answered_def arm_retry_timer_def)
  next
    case (finish sn e)
    then show ?case by (auto simp: J_def answered_def)
  qed (auto intro: waiters_ok_pop)
qed

section \<open>The semaphore\<close>

definition admitted_ids :: "engine \<Rightarrow> string set" where
  "admitted_ids e = {i. \<exists>p. lookup_id e i = Some p \<and> admitted_w e p}"

lemma admitted_ids_alt:
  "distinct (map fst (by_id e)) \<Longrightarrow>
     admitted_ids e = set (map fst (filter (\<lambda>(i, p). admitted_w e p) (by_id e)))"
  by (force simp: admitted_ids_def in_set_alist_iff [symmetric])

text \<open>
  C2: in every interleaving of handlers, releases, timers and background loops the semaphore holds
  at most \<open>MaxConcurrent\<close> invocation ids (at least one).
\<close>

theorem occupancy_bounded:
  assumes "reachable pol w"
  shows "sem_held (sem (egates (eng w))) \<le> max 1 (max_concurrent pol)"
  using reachable_core [OF assms] reachable_capacity [OF assms]
  by (simp add: core_inv_def chain.bounded_def holders_def capacity_def sem_held_def)

definition one_slot :: policy where
  "one_slot = \<lparr>max_concurrent = 1, cpu_high_water = 0, ram_pressure_max = 0, stagger_window = 0,
     poll_window = 25 * second\<rparr>"

definition ask :: "string \<Rightarrow> request" where
  "ask i = \<lparr>req_id = i, req_worktree = ''/w'', req_pid = 7, req_targets = ''//app''\<rparr>"

abbreviation run_new :: "policy \<Rightarrow> atomic list \<Rightarrow> world option" where
  "run_new pol as \<equiv> run as \<lparr>eng = new_engine pol, releasing = []\<rparr>"

lemma run_new_reachable: "run_new pol as = Some w \<Longrightarrow> reachable pol w"
  by (erule run_reachable) (rule reachable.start)

lemmas run_simps =
  attach_locked_def schedule_def snap_admitted_def admit_head_def deny_head_def upd_waiter_def deliver_def
  detach_def release_locked_def release_gates_def gc_queued_def stagger_tick_def set_sample_def
  new_engine_def new_semaphore_def new_token_bucket_def new_stagger_def new_waiter_def
  try_all_gates_eq acquire_all_gates_eq release_all_gates_eq sem_try_def sem_acquire_def sem_release_def
  bucket_try_def stagger_try_def stagger_acquire_def arm_retry_timer_def one_slot_def ask_def
  no_builds_def Let_def

theorem occupancy_bounded_witness:
  "\<exists>w. run_new one_slot [AttachLocked (ask ''a''), ScheduleLocked no_builds 5, AttachLocked (ask ''b''),
          ScheduleLocked no_builds 6] = Some w \<and>
       length (queue (eng w)) = 1 \<and> sem_held (sem (egates (eng w))) \<le> max 1 (max_concurrent one_slot)"
proof -
  let ?r = "run_new one_slot [AttachLocked (ask ''a''), ScheduleLocked no_builds 5, AttachLocked (ask ''b''),
          ScheduleLocked no_builds 6]"
  have q: "map_option (\<lambda>w. length (queue (eng w))) ?r = Some 1"
    by (simp add: run_simps)
  then obtain w where w: "?r = Some w" "length (queue (eng w)) = 1" by auto
  with occupancy_bounded [OF run_new_reachable [OF w(1)]] show ?thesis by blast
qed

lemma held_admitted:
  assumes "eng_inv e"
  shows "held (sem (egates e)) = admitted_ids e" "int (card (admitted_ids e)) \<le> capacity (egates e)"
proof -
  from assms have "slots_ok e" and b: "chain.bounded (egates e)" by (auto simp: eng_inv_def core_inv_def)
  then show "held (sem (egates e)) = admitted_ids e" by (auto simp: slots_ok_def holders_def admitted_ids_def)
  with b show "int (card (admitted_ids e)) \<le> capacity (egates e)" by (simp add: chain.bounded_def holders_def)
qed

text \<open>
  When every operation runs to its end, the semaphore holds exactly the ids of the admitted
  waiters, so no more than \<open>MaxConcurrent\<close> builds are admitted at a time.
\<close>

theorem slots_are_admitted:
  assumes "served pol e"
  shows "held (sem (egates e)) = admitted_ids e \<and> int (card (admitted_ids e)) \<le> max 1 (max_concurrent pol)"
  using served_inv [OF assms] held_admitted [of e] by simp

fun serve :: "operation list \<Rightarrow> engine \<Rightarrow> engine option" where
  "serve [] e = Some e"
| "serve (a # as) e = (case operate a e of None \<Rightarrow> None | Some e' \<Rightarrow> serve as e')"

lemma serve_served: "serve as e = Some e' \<Longrightarrow> served pol e \<Longrightarrow> served pol e'"
  by (induction "as" arbitrary: e) (auto split: option.splits intro: served.op)

theorem slots_are_admitted_witness:
  "\<exists>e. serve [OpAttach (ask ''a'') no_builds 5, OpAttach (ask ''b'') no_builds 6, OpRelease ''a'' no_builds 7]
         (new_engine one_slot) = Some e \<and>
       held (sem (egates e)) = {''b''} \<and> held (sem (egates e)) = admitted_ids e"
proof -
  let ?r = "serve [OpAttach (ask ''a'') no_builds 5, OpAttach (ask ''b'') no_builds 6, OpRelease ''a'' no_builds 7]
              (new_engine one_slot)"
  have "map_option (\<lambda>e. held (sem (egates e))) ?r = Some {''b''}"
    by (simp add: run_simps attach_def release_def)
  then obtain e where e: "?r = Some e" "held (sem (egates e)) = {''b''}" by auto
  with slots_are_admitted [OF serve_served [OF e(1) served.new]] show ?thesis by auto
qed

text \<open>
  C14: the agreement is lost when the pieces of two calls interleave.  \<open>Release\<close> unlocks \<open>e.mu\<close> before
  it releases the gates, so a request with the same id may attach and be admitted on the slot that is
  about to be freed; the slot then goes to another build as well and two builds run where the policy
  allows one.
\<close>

theorem release_race_overadmits:
  "\<exists>w. reachable one_slot w \<and> max_concurrent one_slot = 1 \<and> releasing w = [] \<and>
       admitted_ids (eng w) = {''a'', ''b''} \<and> held (sem (egates (eng w))) = {''b''}"
proof -
  let ?r = "run_new one_slot
      [AttachLocked (ask ''a''), ScheduleLocked no_builds 1, ReleaseLocked ''a'', AttachLocked (ask ''a''),
       ScheduleLocked no_builds 2, ReleaseGates ''a'', AttachLocked (ask ''b''), ScheduleLocked no_builds 3]"
  have "map_option (\<lambda>w. releasing w) ?r = Some []"
    "map_option (\<lambda>w. held (sem (egates (eng w)))) ?r = Some {''b''}"
    "map_option (\<lambda>w. map fst (filter (\<lambda>(i, p). admitted_w (eng w) p) (by_id (eng w)))) ?r = Some [''a'', ''b'']"
    by (simp_all add: run_simps)
  then obtain w where w: "?r = Some w" "releasing w = []" "held (sem (egates (eng w))) = {''b''}"
    "map fst (filter (\<lambda>(i, p). admitted_w (eng w) p) (by_id (eng w))) = [''a'', ''b'']"
    by auto
  from run_new_reachable [OF w(1)] have r: "reachable one_slot w" .
  have "distinct (map fst (by_id (eng w)))"
    using reachable_core [OF r] waiters_okD(1) by (auto simp: core_inv_def)
  from admitted_ids_alt [OF this] w(4) have "admitted_ids (eng w) = {''a'', ''b''}" by simp
  with r w show ?thesis by (auto simp: one_slot_def)
qed

section \<open>Scheduling\<close>

text \<open>
  C8: \<open>schedule\<close> is first in, first out.  It works off a prefix of the queue, answers or skips every
  waiter of it, and touches no waiter behind: nobody overtakes the head.
\<close>

theorem schedule_fifo:
  assumes "reachable pol w"
  shows "let e = eng w; e' = schedule sn now e in
    \<exists>k\<le>length (queue e). queue e' = drop k (queue e) \<and>
      filter (queued_w e') (take k (queue e)) = [] \<and>
      (\<lambda>p. waiters e' p = waiters e p) ` set (drop k (queue e)) \<subseteq> {True}"
proof -
  let ?e = "eng w" and ?e' = "schedule sn now (eng w)"
  have d: "distinct (queue ?e)"
    using reachable_core [OF assms] waiters_okD(2) by (auto simp: core_inv_def)
  obtain k where k: "queue ?e' = drop k (queue ?e)" "\<forall>p\<in>set (take k (queue ?e)). \<not> queued_w ?e' p"
    "\<forall>p. p \<notin> set (take k (queue ?e)) \<longrightarrow> waiters ?e' p = waiters ?e p"
  proof (cases "paused ?e \<or> queue ?e = []")
    case True
    then show ?thesis using that [of 0] by (simp add: schedule_def)
  next
    case False
    with sched_loop_prefix [OF d, of "sn\<lparr>snap_recent := recently_admitted ?e\<rparr>" now ?e] that
    show ?thesis by (auto simp: schedule_def Let_def)
  qed
  define j where "j = min k (length (queue ?e))"
  have j: "take j (queue ?e) = take k (queue ?e)" "drop j (queue ?e) = drop k (queue ?e)" "j \<le> length (queue ?e)"
    by (simp_all add: j_def min_def)
  have "set (take j (queue ?e)) \<inter> set (drop j (queue ?e)) = {}"
    using d by (simp add: set_take_disj_set_drop_if_distinct)
  with k j show ?thesis
    by (auto simp: Let_def filter_empty_conv intro!: exI [of _ j])
qed

theorem schedule_fifo_witness:
  "\<exists>w. run_new one_slot [AttachLocked (ask ''a''), AttachLocked (ask ''b'')] = Some w \<and>
     (\<exists>k\<le>length (queue (eng w)). queue (schedule no_builds 9 (eng w)) = drop k (queue (eng w)))"
proof -
  let ?r = "run_new one_slot [AttachLocked (ask ''a''), AttachLocked (ask ''b'')]"
  obtain w where w: "?r = Some w" by simp
  from schedule_fifo [OF run_new_reachable [OF w], of no_builds 9] w show ?thesis
    by (auto simp: Let_def)
qed

lemma schedule_waits: "\<not> paused e \<Longrightarrow> waits_for_wake (schedule sn now e) now"
  using sched_loop_waits [of "queue e" "sn\<lparr>snap_recent := recently_admitted e\<rparr>" now e]
  by (auto simp: schedule_def waits_for_wake_def)

text \<open>
  C7: no wake-up is lost.  When \<open>schedule\<close> returns in an engine that is not paused, the queue is empty, or
  the waiter at the head is held back by gates that will call again: a retry timer is armed for it in
  the future, or every slot is taken and the release of one of them calls \<open>schedule\<close>.  In a paused engine
  \<open>schedule\<close> does nothing and arms nothing, so the head waits for the resume, which leaves the engine in
  the state above.
\<close>

theorem schedule_no_lost_wakeup:
  "(if paused e then schedule sn now e = e else waits_for_wake (schedule sn now e) now) \<and>
   waits_for_wake (resume sn now e) now"
  using schedule_waits [of e sn now] schedule_waits [of "resume_locked e" sn now]
  by (simp add: schedule_def resume_def resume_locked_def)

text \<open>
  C9: a verdict is never dropped.  Whoever was waiting in the queue is still waiting after
  \<open>schedule\<close>, or is admitted with ALLOW in its buffer, or is done with DENY in its buffer.
\<close>

theorem schedule_answers:
  assumes "reachable pol w" and "p \<in> set (queue (eng w))" and "queued_w (eng w) p"
  shows "queued_w (schedule sn now (eng w)) p \<or> answered (schedule sn now (eng w)) p"
  using reachable_core [OF assms(1)] sched_loop_answers [of "queue (eng w)" "eng w" p] assms(2,3)
  by (auto simp: schedule_def core_inv_def)

theorem schedule_answers_witness:
  "\<exists>w. run_new one_slot [AttachLocked (ask ''a'')] = Some w \<and>
     (queued_w (schedule no_builds 9 (eng w)) 0 \<or> answered (schedule no_builds 9 (eng w)) 0)"
proof -
  let ?r = "run_new one_slot [AttachLocked (ask ''a'')]"
  have "map_option (\<lambda>w. 0 \<in> set (queue (eng w)) \<and> queued_w (eng w) 0) ?r = Some True"
    by (simp add: run_simps)
  then obtain w where w: "?r = Some w" "0 \<in> set (queue (eng w))" "queued_w (eng w) 0" by auto
  with schedule_answers [OF run_new_reachable [OF w(1)] w(2,3)] show ?thesis by blast
qed

section \<open>Drain and pause\<close>

text \<open>
  C23: draining an engine that is not paused answers DENY to every queued waiter and empties the
  queue; the gates, and with them the slots of the builds in flight, are left as they are, and so is
  every waiter that was not queued.
\<close>

theorem drain_denies_queued:
  assumes "reachable pol w" and "\<not> paused (eng w)"
  shows "let e = eng w; e' = set_draining True sn now e in
    queue e' = [] \<and> egates e' = egates e \<and>
    waiters e' = (\<lambda>p. if p \<in> set (queue e) \<and> queued_w e p
                     then (waiters e p)\<lparr>w_ch := Some Deny, w_state := WsDone\<rparr> else waiters e p)"
proof -
  let ?e = "drain_locked True (eng w)"
  from reachable_core [OF assms(1)] have ok: "waiters_ok (queue ?e) ?e" and d: "draining ?e"
    by (auto simp: core_inv_def drain_locked_def intro: waiters_ok_frame)
  show ?thesis
  proof (cases "queue (eng w) = []")
    case False
    with sched_loop_drain [OF ok d, where sn = "sn\<lparr>snap_recent := recently_admitted ?e\<rparr>" and now = now] assms(2)
    show ?thesis by (auto simp: set_draining_def schedule_def Let_def fun_eq_iff drain_locked_def)
  qed (simp add: set_draining_def schedule_def drain_locked_def)
qed

theorem drain_denies_queued_witness:
  "\<exists>w. run_new one_slot [AttachLocked (ask ''a'')] = Some w \<and>
     queue (set_draining True no_builds 4 (eng w)) = []"
proof -
  let ?r = "run_new one_slot [AttachLocked (ask ''a'')]"
  have "map_option (\<lambda>w. paused (eng w)) ?r = Some False" by (simp add: run_simps)
  then obtain w where w: "?r = Some w" "\<not> paused (eng w)" by auto
  from drain_denies_queued [OF run_new_reachable [OF w(1)] w(2), of no_builds 4] w(1)
  show ?thesis by (auto simp: Let_def)
qed

text \<open>
  Draining a paused engine denies nobody: \<open>schedule\<close> returns before it looks at the switch.  The
  comment on \<open>SetDraining\<close> promises a DENY for every queued and every new waiter.
\<close>

theorem drain_while_paused_denies_nobody:
  "set_draining True sn now (pause_locked True e) = pause_locked True e\<lparr>draining := True\<rparr> \<and>
   fst (admit_call req sn now (new_engine pol\<lparr>paused := True, draining := True\<rparr>)) = Queue"
  by (simp add: set_draining_def pause_locked_def drain_locked_def schedule_def admit_call_def attach_eq
      attach_locked_def new_engine_def upd_waiter_def new_waiter_def)

text \<open>The operations other than those that lift the pause.\<close>

definition holders_shrink :: "engine \<Rightarrow> engine \<Rightarrow> bool" where
  "holders_shrink e e' \<longleftrightarrow> holders (egates e') \<subseteq> holders (egates e) \<and>
     {p. w_ch (waiters e' p) \<noteq> None} \<subseteq> {p. w_ch (waiters e p) \<noteq> None}"

lemma paused_sched_loop: "paused e = b \<Longrightarrow> paused (sched_loop q sn now e) = b"
  by (induction q sn e rule: sched_loop_rule [where now = now]) (auto simp: arm_retry_timer_def)

lemma paused_schedule [simp]: "paused (schedule sn now e) = paused e"
  by (simp add: schedule_def paused_sched_loop [OF refl])

lemma schedule_paused [simp]: "paused e \<Longrightarrow> schedule sn now e = e"
  by (simp add: schedule_def)

lemma paused_steps [simp]:
  "paused (snd (attach_locked req e)) = paused e" "paused (detach p now e) = paused e"
  "paused (release_locked i e) = paused e" "paused (release_gates i e) = paused e"
  "paused (timer_locked i e) = paused e" "paused (stagger_tick now e) = paused e"
  "paused (set_sample cpu ram e) = paused e" "paused (reset_recent e) = paused e"
  "paused (drain_locked b e) = paused e" "paused (upd_waiter p f e) = paused e"
  by (auto simp: eng_defs attach_locked_def split: option.splits prod.splits)

lemma holders_shrink_refl [simp]: "holders_shrink e e"
  by (simp add: holders_shrink_def)

lemma holders_shrink_trans: "holders_shrink e e1 \<Longrightarrow> holders_shrink e1 e2 \<Longrightarrow> holders_shrink e e2"
  unfolding holders_shrink_def by (blast intro: subset_trans)

lemma gc_loop_ch: "w_ch (waiters (snd (gc_loop q now e)) p) = w_ch (waiters e p)"
  by (induction q arbitrary: e) (auto simp: upd_waiter_def split_beta)

lemma shrink_steps:
  "holders_shrink e (detach p now e)" "holders_shrink e (release_locked i e)" "holders_shrink e (release_gates i e)"
  "holders_shrink e (timer_locked i e)" "holders_shrink e (stagger_tick now e)" "holders_shrink e (set_sample cpu ram e)"
  "holders_shrink e (reset_recent e)" "holders_shrink e (drain_locked b e)" "holders_shrink e (pause_locked b e)"
  "holders_shrink e (gc_queued now e)" "holders_shrink e (snd (attach_locked req e))"
  "admit_return k p now e = Some (v, e') \<Longrightarrow> holders_shrink e e'"
  subgoal by (auto simp: holders_shrink_def eng_defs split: if_splits)
  subgoal by (auto simp: holders_shrink_def eng_defs split: option.splits if_splits)
  subgoal using chain.release_holders by (auto simp: holders_shrink_def release_gates_def)
  subgoal by (simp add: holders_shrink_def eng_defs)
  subgoal by (simp add: holders_shrink_def eng_defs holders_def)
  subgoal by (simp add: holders_shrink_def eng_defs holders_def)
  subgoal by (simp add: holders_shrink_def eng_defs)
  subgoal by (simp add: holders_shrink_def eng_defs)
  subgoal by (simp add: holders_shrink_def eng_defs)
  subgoal using gc_loop_ch [of "queue e" now e] gc_loop_gates [of "queue e" now e]
    by (auto simp: holders_shrink_def gc_queued_def split: prod.splits)
  subgoal by (auto simp: holders_shrink_def attach_locked_def upd_waiter_def new_waiter_def split: option.splits if_splits)
  subgoal by (cases k) (auto simp: holders_shrink_def eng_defs split: option.splits if_splits)
  done

lemma shrink_release: "paused e \<Longrightarrow> holders_shrink e (release i sn now e) \<and> paused (release i sn now e)"
  using holders_shrink_trans [OF shrink_steps(2) shrink_steps(3)] by (simp add: release_def)

lemma shrink_reap: "paused e \<Longrightarrow> holders_shrink e (reap_dead_pids alive sn now e)"
proof -
  have "paused e \<Longrightarrow> holders_shrink e (foldl (\<lambda>e i. release i sn now e) e is)" for "is"
  proof (induction "is" arbitrary: e)
    case (Cons i "is")
    with shrink_release [of e i sn now] holders_shrink_trans show ?case by fastforce
  qed simp
  then show "paused e \<Longrightarrow> ?thesis" by (simp add: reap_dead_pids_def)
qed

text \<open>
  A paused engine admits nobody and denies nobody.  As long as the engine stays paused, no
  operation takes a slot or puts a verdict into a buffer; releases and verdicts already buffered go
  through.
\<close>

theorem pause_holds:
  assumes "paused e" and "operate a e = Some e'" and "paused e'"
  shows "holders (egates e') \<subseteq> holders (egates e) \<and>
    {p. w_ch (waiters e' p) \<noteq> None} \<subseteq> {p. w_ch (waiters e p) \<noteq> None}"
proof -
  have "holders_shrink e e'"
  proof (cases a)
    case (OpSample cpu ram sn now)
    with assms show ?thesis
      by (auto simp: operation_defs intro: holders_shrink_trans [OF shrink_steps(6,7)])
  next
    case (OpResume sn now)
    with assms show ?thesis by (auto simp: operation_defs resume_locked_def)
  next
    case (OpPause b sn now)
    with assms show ?thesis by (cases b) (auto simp: operation_defs pause_locked_def holders_shrink_def)
  qed (use assms in \<open>auto simp: operation_defs shrink_steps shrink_release shrink_reap\<close>)
  then show ?thesis by (simp add: holders_shrink_def)
qed

theorem pause_holds_witness:
  "let e = pause_locked True (new_engine one_slot); e' = snd (attach (ask ''a'') no_builds 3 e) in
     holders (egates e') \<subseteq> holders (egates e) \<and>
     {p. w_ch (waiters e' p) \<noteq> None} \<subseteq> {p. w_ch (waiters e p) \<noteq> None}"
proof -
  let ?e = "pause_locked True (new_engine one_slot)"
  have "paused ?e" "paused (snd (attach (ask ''a'') no_builds 3 ?e))"
    by (simp_all add: pause_locked_def attach_eq)
  with pause_holds [of ?e "OpAttach (ask ''a'') no_builds 3"] show ?thesis by (simp add: Let_def)
qed

section \<open>Garbage collection of the queue\<close>

abbreviation stale :: "gotime \<Rightarrow> engine \<Rightarrow> nat \<Rightarrow> bool" where
  "stale now e p \<equiv> gc_stale now (queued_gc_grace e) (waiters e p)"

lemma gc_loop_result:
  assumes "distinct q" "\<And>p. p \<in> set q \<Longrightarrow> stale now e p \<Longrightarrow> lookup_id e (waiter_id e p) = Some p"
    "\<And>i p. lookup_id e i = Some p \<Longrightarrow> waiter_id e p = i" "gc_loop q now e = (kept, e')"
  shows "kept = filter (\<lambda>p. \<not> stale now e p) q \<and>
    waiters e' = (\<lambda>p. if p \<in> set q \<and> stale now e p then (waiters e p)\<lparr>w_state := WsDone\<rparr> else waiters e p) \<and>
    lookup_id e' = (\<lambda>i. case lookup_id e i of None \<Rightarrow> None
                      | Some p \<Rightarrow> if p \<in> set q \<and> stale now e p then None else Some p)"
  using assms
proof (induction q arbitrary: e kept)
  case Nil
  then show ?case by (auto split: option.splits)
next
  case (Cons p ps)
  show ?case
  proof (cases "stale now e p")
    case True
    let ?e1 = "upd_waiter p (\<lambda>w. w\<lparr>w_state := WsDone\<rparr>) (e\<lparr>by_id := AList.delete (waiter_id e p) (by_id e)\<rparr>)"
    have lk: "lookup_id ?e1 = (lookup_id e)(waiter_id e p := None)"
      by (simp add: upd_waiter_def delete_conv')
    have st: "stale now ?e1 r \<longleftrightarrow> r \<noteq> p \<and> stale now e r" for r
      by (auto simp: upd_waiter_def gc_stale_def)
    have id: "waiter_id ?e1 r = waiter_id e r" for r by (simp add: upd_waiter_def)
    have p: "lookup_id e (waiter_id e p) = Some p" using Cons.prems(2) True by simp
    have other: "waiter_id e r \<noteq> waiter_id e p" if "lookup_id e (waiter_id e r) = Some r" "r \<noteq> p" for r
      using that p by auto
    have a: "lookup_id ?e1 (waiter_id ?e1 r) = Some r" if "r \<in> set ps" "stale now ?e1 r" for r
      using that Cons.prems(2) [of r] other [of r] unfolding lk id st by auto
    have b: "lookup_id ?e1 i = Some r \<Longrightarrow> waiter_id ?e1 r = i" for i r
      using Cons.prems(3) [of i r] unfolding lk id by (auto split: if_splits)
    have g: "gc_loop ps now ?e1 = (kept, e')" using Cons.prems(4) True by simp
    from Cons.prems(1) have np: "p \<notin> set ps" "distinct ps" by auto
    from Cons.IH [OF np(2) a b g] have
      k: "kept = filter (\<lambda>r. \<not> stale now ?e1 r) ps" and
      w: "waiters e' = (\<lambda>r. if r \<in> set ps \<and> stale now ?e1 r then (waiters ?e1 r)\<lparr>w_state := WsDone\<rparr> else waiters ?e1 r)" and
      l: "lookup_id e' = (\<lambda>i. case lookup_id ?e1 i of None \<Rightarrow> None
                      | Some r \<Rightarrow> if r \<in> set ps \<and> stale now ?e1 r then None else Some r)"
      by blast+
    have "kept = filter (\<lambda>r. \<not> stale now e r) (p # ps)"
      unfolding k st using True np by (auto intro: filter_cong)
    moreover have "waiters e' = (\<lambda>r. if r \<in> set (p # ps) \<and> stale now e r
        then (waiters e r)\<lparr>w_state := WsDone\<rparr> else waiters e r)"
      unfolding w st using True np by (auto simp: upd_waiter_def fun_eq_iff)
    moreover have "lookup_id e' = (\<lambda>i. case lookup_id e i of None \<Rightarrow> None
        | Some r \<Rightarrow> if r \<in> set (p # ps) \<and> stale now e r then None else Some r)"
    proof
      fix i
      show "lookup_id e' i = (case lookup_id e i of None \<Rightarrow> None
          | Some r \<Rightarrow> if r \<in> set (p # ps) \<and> stale now e r then None else Some r)"
      proof (cases "lookup_id e i")
        case (Some r)
        with Cons.prems(3) have i: "i = waiter_id e r" by simp
        show ?thesis
        proof (cases "r = p")
          case False
          with Some i other [of r] show ?thesis by (simp add: l lk st)
        qed (simp add: l lk i p True)
      qed (simp add: l lk)
    qed
    ultimately show ?thesis by blast
  next
    case False
    then obtain k where k: "gc_loop ps now e = (k, e')" "kept = p # k"
      using Cons.prems(4) by (auto split: prod.splits)
    from Cons.prems have "distinct ps" by simp
    from Cons.IH [OF this _ Cons.prems(3) k(1)] Cons.prems(2) False k(2) show ?thesis
      by (auto simp: fun_eq_iff split: option.splits)
  qed
qed

lemma gc_queued_result:
  fixes now :: gotime
  assumes "core_inv e"
  defines "e' \<equiv> gc_queued now e"
  shows "queue e' = filter (\<lambda>p. \<not> stale now e p) (queue e)"
    "waiters e' = (\<lambda>p. if p \<in> set (queue e) \<and> stale now e p then (waiters e p)\<lparr>w_state := WsDone\<rparr> else waiters e p)"
    "lookup_id e' = (\<lambda>i. case lookup_id e i of None \<Rightarrow> None
                      | Some p \<Rightarrow> if p \<in> set (queue e) \<and> stale now e p then None else Some p)"
proof -
  from assms(1) have ok: "waiters_ok (queue e) e" by (simp add: core_inv_def)
  obtain kept e2 where g: "gc_loop (queue e) now e = (kept, e2)" by fastforce
  have s: "stale now e p \<Longrightarrow> queued_w e p" for p by (simp add: gc_stale_def)
  note r = gc_loop_result [OF waiters_okD(2) [OF ok] waiters_okD(4) [OF ok _ s] waiters_okD(6) [OF ok] g]
  show "queue e' = filter (\<lambda>p. \<not> stale now e p) (queue e)"
    "waiters e' = (\<lambda>p. if p \<in> set (queue e) \<and> stale now e p then (waiters e p)\<lparr>w_state := WsDone\<rparr> else waiters e p)"
    "lookup_id e' = (\<lambda>i. case lookup_id e i of None \<Rightarrow> None
                      | Some p \<Rightarrow> if p \<in> set (queue e) \<and> stale now e p then None else Some p)"
    using r by (simp_all add: e'_def gc_queued_def g)
qed

text \<open>
  The queue collector drops exactly the waiters that are queued, have no handler and have been
  without one for the grace period; it keeps the order of the others, forgets the ids of the dropped
  ones and no other id, and releases no gate.
\<close>

theorem gc_drops_exactly_stale:
  assumes "reachable pol w"
  shows "let e = eng w; e' = gc_queued now e in
    queue e' = filter (\<lambda>p. \<not> gc_stale now (queued_gc_grace e) (waiters e p)) (queue e) \<and>
    map_of (by_id e') = (\<lambda>i. case map_of (by_id e) i of None \<Rightarrow> None
        | Some p \<Rightarrow> if p \<in> set (queue e) \<and> gc_stale now (queued_gc_grace e) (waiters e p) then None else Some p) \<and>
    egates e' = egates e"
  using gc_queued_result [OF reachable_core [OF assms], of now] by (simp add: Let_def)

theorem gc_drops_exactly_stale_witness:
  "\<exists>w. run_new one_slot [AttachLocked (ask ''a''), AdmitReturn WakeTimer 0 (25 * second)] = Some w \<and>
     queue (gc_queued (60 * second) (eng w)) =
       filter (\<lambda>p. \<not> gc_stale (60 * second) (queued_gc_grace (eng w)) (waiters (eng w) p)) (queue (eng w))"
proof -
  let ?r = "run_new one_slot [AttachLocked (ask ''a''), AdmitReturn WakeTimer 0 (25 * second)]"
  obtain w where w: "?r = Some w" by simp
  from gc_drops_exactly_stale [OF run_new_reachable [OF w], of "60 * second"] w
  show ?thesis by (auto simp: Let_def)
qed

end
