(* ===== verification/Engine_Delivery.thy ===== *)
theory Engine_Delivery
  imports Engine_Props
begin

text \<open>
  What a client of the engine can count on: a buffered ALLOW stays until its client takes it or the
  slot is released, a re-poll takes the buffered verdict and no second slot, a freed slot goes to the
  head of the queue, and one load sample admits at most nine builds under the default policy.
\<close>

section \<open>The buffered verdict\<close>

definition buffered :: "string \<Rightarrow> nat \<Rightarrow> engine \<Rightarrow> bool" where
  "buffered i p e \<longleftrightarrow> lookup_id e i = Some p \<and> admitted_w e p \<and> w_ch (waiters e p) = Some Allow"

lemma buffered_frame:
  "buffered i p e \<Longrightarrow> by_id e' = by_id e \<Longrightarrow> waiters e' p = waiters e p \<Longrightarrow> buffered i p e'"
  by (simp add: buffered_def)

lemma buffered_schedule: "core_inv e \<Longrightarrow> buffered i p e \<Longrightarrow> buffered i p (schedule sn now e)"
  using schedule_settled [of e p i] by (auto simp: buffered_def)

lemma buffered_attach:
  assumes "core_inv e" "buffered i p e" shows "buffered i p (snd (attach_locked req e))"
proof (cases "lookup_id e (req_id req)")
  case None
  have "waiters_ok (queue e) e" using assms(1) by (simp add: core_inv_def)
  from waiters_okD(7) [OF this] assms(2) have "p < next_waiter e" by (auto simp: buffered_def)
  with None assms(2) show ?thesis
    by (auto simp: buffered_def attach_locked_def upd_waiter_def update_conv')
next
  case (Some r)
  with assms(2) show ?thesis by (auto simp: buffered_def attach_locked_def upd_waiter_def)
qed

lemma buffered_release:
  assumes "core_inv e" "buffered i p e" "j \<noteq> i" shows "buffered i p (release_locked j e)"
proof (cases "lookup_id e j")
  case None
  with assms show ?thesis by (simp add: buffered_def release_locked_def)
next
  case (Some r)
  have "waiters_ok (queue e) e" using assms(1) by (simp add: core_inv_def)
  from waiters_okD(6) [OF this] Some assms(2,3) have "r \<noteq> p" by (auto simp: buffered_def)
  with Some assms show ?thesis by (auto simp: buffered_def release_locked_def upd_waiter_def delete_conv')
qed

lemma buffered_gc: "core_inv e \<Longrightarrow> buffered i p e \<Longrightarrow> buffered i p (gc_queued now e)"
  using gc_queued_result(2,3) [of e now] by (simp add: buffered_def gc_stale_def)

lemma buffered_others:
  assumes "buffered i p e"
  shows "buffered i p (release_gates j e)" "buffered i p (timer_locked j e)" "buffered i p (stagger_tick now e)"
    "buffered i p (set_sample cpu ram e)" "buffered i p (reset_recent e)" "buffered i p (pause_locked b e)"
    "buffered i p (drain_locked b e)" "buffered i p (resume_locked e)"
  using assms by (simp_all add: buffered_def eng_defs)

fun takes_verdict :: "atomic \<Rightarrow> nat \<Rightarrow> bool" where
  "takes_verdict (AdmitReturn WakeVerdict q now) p \<longleftrightarrow> q = p"
| "takes_verdict _ p \<longleftrightarrow> False"

text \<open>
  C11: a buffered ALLOW survives every interleaving.  Only the handler of that waiter taking the
  verdict and the release of its id remove it; time-outs, disconnects, other builds, pausing,
  draining, load samples and garbage collection do not.
\<close>

theorem buffered_allow_survives:
  assumes "reachable pol w" and "lookup_id (eng w) i = Some p" and "admitted_w (eng w) p"
    and "w_ch (waiters (eng w) p) = Some Allow"
    and "world_step a w = Some w'" and "a \<noteq> ReleaseLocked i" and "\<not> takes_verdict a p"
  shows "lookup_id (eng w') i = Some p \<and> admitted_w (eng w') p \<and> w_ch (waiters (eng w') p) = Some Allow"
proof -
  from assms(2-4) have b: "buffered i p (eng w)" by (simp add: buffered_def)
  note c = reachable_core [OF assms(1)]
  have "buffered i p (eng w')"
  proof (cases a)
    case (AdmitReturn k q u)
    with assms(5,7) b show ?thesis by (cases k) (auto simp: buffered_def detach_def upd_waiter_def split: option.splits)
  qed (use assms(5,6) b c in \<open>auto simp: buffered_schedule buffered_attach buffered_release buffered_gc
        buffered_others split: if_splits\<close>)
  then show ?thesis by (simp add: buffered_def)
qed

abbreviation started :: "world option" where
  "started \<equiv> run_new one_slot [AttachLocked (ask ''a''), ScheduleLocked no_builds 5]"

lemma started_state:
  "\<exists>w. started = Some w \<and> lookup_id (eng w) ''a'' = Some 0 \<and> admitted_w (eng w) 0 \<and>
     w_ch (waiters (eng w) 0) = Some Allow"
proof -
  have "map_option (\<lambda>w. (lookup_id (eng w) ''a'', waiters (eng w) 0)) started =
      Some (Some 0, \<lparr>w_req = ask ''a'', w_state = WsAdmitted, w_connected = True, w_detached = time_zero, w_ch = Some Allow\<rparr>)"
    by (simp add: run_simps)
  then show ?thesis by auto
qed

theorem buffered_allow_survives_witness:
  "\<exists>w w'. started = Some w \<and> world_step (AdmitReturn WakeClient 0 9) w = Some w' \<and>
     w_ch (waiters (eng w') 0) = Some Allow"
proof -
  from started_state obtain w where w: "started = Some w" "lookup_id (eng w) ''a'' = Some 0"
    "admitted_w (eng w) 0" "w_ch (waiters (eng w) 0) = Some Allow" by blast
  let ?w = "w\<lparr>eng := detach 0 9 (eng w)\<rparr>"
  have s: "world_step (AdmitReturn WakeClient 0 9) w = Some ?w" by simp
  from buffered_allow_survives [OF run_new_reachable [OF w(1)] w(2-4) s] w(1) s show ?thesis by simp
qed

text \<open>
  C12: a re-poll of an admitted build whose ALLOW is still buffered gets ALLOW, whatever the policy
  switches say, and takes no second slot: the id stays with the same waiter, and the buffer is empty
  afterwards.
\<close>

theorem repoll_takes_buffered_allow:
  assumes "reachable pol w" and "lookup_id (eng w) (req_id req) = Some p" and "admitted_w (eng w) p"
    and "w_ch (waiters (eng w) p) = Some Allow"
  shows "let (v, e') = admit_call req sn now (eng w) in
    v = Allow \<and> lookup_id e' (req_id req) = Some p \<and> admitted_w e' p \<and> w_ch (waiters e' p) = None"
proof -
  let ?e1 = "snd (attach_locked req (eng w))"
  from assms(2-4) have "buffered (req_id req) p (eng w)" by (simp add: buffered_def)
  with reachable_core [OF assms(1)] have "buffered (req_id req) p (schedule sn now ?e1)"
    by (intro buffered_schedule buffered_attach core_attach_locked)
  with fst_attach_locked [OF assms(2)] show ?thesis
    by (auto simp: admit_call_def attach_eq buffered_def detach_def upd_waiter_def Let_def)
qed

theorem repoll_takes_buffered_allow_witness:
  "\<exists>w. started = Some w \<and> fst (admit_call (ask ''a'') no_builds 30 (eng w)) = Allow"
proof -
  from started_state obtain w where w: "started = Some w" "lookup_id (eng w) ''a'' = Some 0"
    "admitted_w (eng w) 0" "w_ch (waiters (eng w) 0) = Some Allow" by blast
  have "lookup_id (eng w) (req_id (ask ''a'')) = Some 0" using w(2) by (simp add: ask_def)
  from repoll_takes_buffered_allow [OF run_new_reachable [OF w(1)] this w(3,4), of no_builds 30] w(1)
  show ?thesis by (auto simp: split_beta)
qed

text \<open>
  A client that lost the ALLOW it was sent is not admitted again.  Once the verdict has left the
  buffer, a re-poll with the same id waits out the poll window and is told QUEUE, every time, while
  the semaphore keeps holding a slot for it.
\<close>

theorem lost_allow_queues_forever:
  assumes "reachable pol w" and "lookup_id (eng w) (req_id req) = Some p" and "admitted_w (eng w) p"
    and "w_ch (waiters (eng w) p) = None"
  shows "let (v, e') = admit_call req sn now (eng w) in
    v = Queue \<and> lookup_id e' (req_id req) = Some p \<and> admitted_w e' p \<and> w_ch (waiters e' p) = None"
proof -
  let ?e1 = "snd (attach_locked req (eng w))"
  note k = attach_known [OF assms(2)]
  have "core_inv ?e1" using reachable_core [OF assms(1)] by (rule core_attach_locked)
  moreover have "\<not> queued_w ?e1 p" using k(5) [of p] assms(3) by simp
  moreover have "lookup_id ?e1 (req_id req) = Some p" using k(2) assms(2) by simp
  ultimately have "waiters (schedule sn now ?e1) p = waiters ?e1 p"
    "lookup_id (schedule sn now ?e1) (req_id req) = Some p"
    by (rule schedule_settled)+
  with k(4) k(5) [of p] assms(3,4) fst_attach_locked [OF assms(2)] show ?thesis
    by (auto simp: admit_call_def attach_eq detach_def upd_waiter_def Let_def)
qed

theorem lost_allow_queues_forever_witness:
  "\<exists>w. run_new one_slot [AttachLocked (ask ''a''), ScheduleLocked no_builds 5, AdmitReturn WakeVerdict 0 6] = Some w \<and>
     fst (admit_call (ask ''a'') no_builds 30 (eng w)) = Queue"
proof -
  let ?r = "run_new one_slot [AttachLocked (ask ''a''), ScheduleLocked no_builds 5, AdmitReturn WakeVerdict 0 6]"
  have "map_option (\<lambda>w. (lookup_id (eng w) ''a'', waiters (eng w) 0)) ?r =
      Some (Some 0, \<lparr>w_req = ask ''a'', w_state = WsAdmitted, w_connected = False, w_detached = 6, w_ch = None\<rparr>)"
    by (simp add: run_simps)
  then obtain w where w: "?r = Some w" "lookup_id (eng w) (req_id (ask ''a'')) = Some 0"
    "admitted_w (eng w) 0" "w_ch (waiters (eng w) 0) = None" by (auto simp: ask_def)
  from lost_allow_queues_forever [OF run_new_reachable [OF w(1)] w(2-4), of no_builds 30] w(1)
  show ?thesis by (auto simp: split_beta)
qed

section \<open>A freed slot\<close>

text \<open>Scheduling changes neither the load sample nor the settings of the gates.\<close>

lemma sched_loop_bucket: "bucket (egates e) = b \<Longrightarrow> bucket (egates (sched_loop q sn now e)) = b"
  by (induction q sn e rule: sched_loop_rule [where now = now]) (auto simp: arm_retry_timer_def)

lemma window_attempt: "window (snd (snd (stagger_try s req sn now))) = window s"
  by (simp add: stagger_try_eq)

lemma window_try: "window (stag (snd (snd (try_all_gates g req sn now)))) = window (stag g)"
proof (cases "stagger_try (stag g) req sn now")
  case (fields ok d s)
  with window_attempt [of "stag g" req sn now] have "window s = window (stag g)" by simp
  then show ?thesis unfolding try_all_gates_eq fields by auto
qed

lemma window_chain [simp]:
  "try_all_gates g req sn now = (ok, d, g') \<Longrightarrow> window (stag g') = window (stag g)"
  "window (stag (acquire_all_gates g req now)) = window (stag g)"
  using window_try [of g req sn now] by (simp_all add: acquire_all_gates_eq stagger_acquire_def)

lemma sched_loop_window: "window (stag (egates e)) = b \<Longrightarrow> window (stag (egates (sched_loop q sn now e))) = b"
  by (induction q sn e rule: sched_loop_rule [where now = now]) (auto simp: arm_retry_timer_def)

lemma schedule_settings [simp]:
  "bucket (egates (schedule sn now e)) = bucket (egates e)"
  "window (stag (egates (schedule sn now e))) = window (stag (egates e))"
  by (simp_all add: schedule_def sched_loop_bucket [OF refl] sched_loop_window [OF refl])

lemma schedule_admits_head:
  assumes "core_inv e" "\<not> paused e" "\<not> draining e" "queue e = p # ps" "queued_w e p"
    "try_all_gates (egates e) (w_req (waiters e p)) (sn\<lparr>snap_recent := recently_admitted e\<rparr>) now = (True, d, g)"
  shows "answered (schedule sn now e) p \<and> admitted_w (schedule sn now e) p"
proof -
  let ?e' = "admit_head p g now e"
  let ?sn = "snap_admitted (w_req (waiters e p)) (recently_admitted ?e') now (sn\<lparr>snap_recent := recently_admitted e\<rparr>)"
  from assms(1,4) have ok: "waiters_ok (p # ps) e" by (simp add: core_inv_def)
  have run: "schedule sn now e = sched_loop ps ?sn now ?e'"
    using assms(2-6) by (simp add: schedule_def Let_def)
  have w: "admitted_w ?e' p" "w_ch (waiters ?e' p) = Some Allow"
    using waiters_okD(5) [OF ok, of p] assms(5) by (simp_all add: admit_head_waiter)
  have "lookup_id ?e' (waiter_id e p) = Some p"
    using waiters_okD(4) [OF ok, of p] assms(5) by simp
  with sched_loop_settled [OF waiters_ok_admit [OF ok assms(5)], where p = p] w
  show ?thesis by (simp add: run answered_def)
qed

text \<open>
  C10: a freed slot goes to the head of the queue.  After any whole operations, one after the other, in an
  engine that is neither paused nor draining, releasing a held id admits the waiter at the head within the same call and puts ALLOW in its
  buffer, if the load and the stagger gate let it pass.
\<close>

theorem release_admits_head:
  assumes "served pol e" and "\<not> paused e" and "\<not> draining e"
    and "queue e = p # ps" and "queued_w e p" and "i \<in> held (sem (egates e))"
    and "fst (bucket_try (bucket (egates e)) (w_req (waiters e p)) (sn\<lparr>snap_recent := recently_admitted e\<rparr>) now)"
    and "fst (stagger_try (stag (egates e)) (w_req (waiters e p)) (sn\<lparr>snap_recent := recently_admitted e\<rparr>) now)"
  shows "admitted_w (release i sn now e) p \<and> w_ch (waiters (release i sn now e) p) = Some Allow"
proof -
  let ?e1 = "release_gates i (release_locked i e)"
  from served_inv [OF assms(1)] have inv: "core_inv e" "slots_ok e" "chain.bounded (egates e)"
    by (auto simp: eng_inv_def core_inv_def)
  then have ok: "waiters_ok (queue e) e" by (simp add: core_inv_def)
  from inv(2) assms(6) obtain r where r: "lookup_id e i = Some r" "admitted_w e r"
    by (auto simp: slots_ok_def holders_def)
  with assms(5) have "r \<noteq> p" by auto
  then have w: "waiters ?e1 p = waiters e p"
    by (simp add: release_gates_def release_locked_def r upd_waiter_def)
  have same: "queue ?e1 = queue e" "draining ?e1 = draining e" "recently_admitted ?e1 = recently_admitted e"
    by (simp_all add: release_gates_def release_locked_def r upd_waiter_def)
  have g: "egates ?e1 = (egates e)\<lparr>sem := sem_release (sem (egates e)) i\<rparr>"
    by (simp add: release_gates_def release_all_gates_eq)
  have fin: "finite (held (sem (egates e)))"
    using inv(3) by (simp add: chain.bounded_def gates_wf_def sem_wf_def)
  with assms(6) inv(3) have "int (card (held (sem (egates e)) - {i})) < sem_max (sem (egates e))"
    using card_Diff1_less [of "held (sem (egates e))" i]
    by (auto simp: chain.bounded_def holders_def capacity_def)
  with assms(7,8) have
    "fst (try_all_gates (egates ?e1) (w_req (waiters ?e1 p)) (sn\<lparr>snap_recent := recently_admitted ?e1\<rparr>) now)"
    unfolding g w same by (intro try_all_gates_admits) (simp_all add: sem_try_def sem_release_def)
  then obtain d g' where t:
    "try_all_gates (egates ?e1) (w_req (waiters ?e1 p)) (sn\<lparr>snap_recent := recently_admitted ?e1\<rparr>) now = (True, d, g')"
    by (metis prod.collapse)
  have c: "core_inv ?e1" using inv(1) by (intro core_release_gates core_release_locked)
  have "\<not> paused ?e1" "\<not> draining ?e1" "queue ?e1 = p # ps" "queued_w ?e1 p"
    using assms(2-5) w same by simp_all
  from schedule_admits_head [OF c this t] show ?thesis
    unfolding release_def answered_def by auto
qed

theorem release_admits_head_witness:
  "\<exists>e. serve [OpAttach (ask ''a'') no_builds 5, OpAttach (ask ''b'') no_builds 6] (new_engine one_slot) = Some e \<and>
     admitted_w (release ''a'' no_builds 7 e) 1 \<and> w_ch (waiters (release ''a'' no_builds 7 e) 1) = Some Allow"
proof -
  let ?r = "serve [OpAttach (ask ''a'') no_builds 5, OpAttach (ask ''b'') no_builds 6] (new_engine one_slot)"
  have "map_option (\<lambda>e. (paused e, draining e, queue e)) ?r = Some (False, False, [1])"
    "map_option (\<lambda>e. w_state (waiters e 1)) ?r = Some WsQueued"
    "map_option (\<lambda>e. held (sem (egates e))) ?r = Some {''a''}"
    by (simp_all add: run_simps attach_def)
  moreover have "map_option (\<lambda>e. bucket (egates e)) ?r = Some (new_token_bucket 0 0)"
    "map_option (\<lambda>e. window (stag (egates e))) ?r = Some 0"
    by (simp_all add: attach_eq, simp_all add: new_engine_def one_slot_def new_stagger_def)
  ultimately obtain e where e: "?r = Some e" "\<not> paused e" "\<not> draining e" "queue e = [1]" "queued_w e 1"
    "''a'' \<in> held (sem (egates e))" "bucket (egates e) = new_token_bucket 0 0" "window (stag (egates e)) = 0"
    by auto
  from release_admits_head [OF serve_served [OF e(1) served.new] e(2-6), of no_builds 7] e(1,7,8)
  show ?thesis by (simp add: bucket_try_def stagger_try_def new_token_bucket_def)
qed

section \<open>The ramp between load samples\<close>

definition ramp_ok :: "engine \<Rightarrow> bool" where
  "ramp_ok e \<longleftrightarrow> cpu_hi (bucket (egates e)) = fl64 (85 / 100) \<and> 0 \<le> cpu_now (bucket (egates e)) \<and>
     recently_admitted e \<le> 9"

lemma fl64_pos: "0 < x \<Longrightarrow> 0 < fl64 x"
  by (simp add: fl64_def fl_pos_pos)

lemma ramp_schedule: "ramp_ok e \<Longrightarrow> ramp_ok (schedule sn now e)"
  using sched_loop_ramp [of "bucket (egates e)" 9 e] eff_cpu_nine [of "cpu_now (bucket (egates e))"] fl64_pos [of "85 / 100"]
  by (auto simp: ramp_ok_def) (auto simp: schedule_def)

lemma gc_loop_recent: "recently_admitted (snd (gc_loop q now e)) = recently_admitted e"
  by (induction q arbitrary: e) (auto simp: upd_waiter_def split_beta)

lemma recent_steps [simp]:
  "recently_admitted (snd (attach_locked req e)) = recently_admitted e" "recently_admitted (detach p now e) = recently_admitted e"
  "recently_admitted (release_locked i e) = recently_admitted e" "recently_admitted (release_gates i e) = recently_admitted e"
  "recently_admitted (timer_locked i e) = recently_admitted e" "recently_admitted (stagger_tick now e) = recently_admitted e"
  "recently_admitted (set_sample cpu ram e) = recently_admitted e" "recently_admitted (upd_waiter p f e) = recently_admitted e"
  "recently_admitted (drain_locked b e) = recently_admitted e" "recently_admitted (pause_locked b e) = recently_admitted e"
  "recently_admitted (resume_locked e) = recently_admitted e" "recently_admitted (gc_queued now e) = recently_admitted e"
  using gc_loop_recent [of "queue e" now e]
  by (auto simp: eng_defs attach_locked_def gc_queued_def split: option.splits prod.splits)

fun sample_nonneg :: "atomic \<Rightarrow> bool" where
  "sample_nonneg (SetSample cpu ram) \<longleftrightarrow> 0 \<le> cpu"
| "sample_nonneg _ \<longleftrightarrow> True"

lemma ramp_return: "admit_return k p now e = Some (v, e') \<Longrightarrow> recently_admitted e' = recently_admitted e"
  by (cases k) (auto split: option.splits)

lemma ramp_step:
  "world_step a w = Some w' \<Longrightarrow> sample_nonneg a \<Longrightarrow> ramp_ok (eng w) \<Longrightarrow> ramp_ok (eng w')"
  by (cases a)
     (auto simp: ramp_schedule split: option.splits if_splits dest: gates_admit_return ramp_return,
      auto simp: ramp_ok_def release_gates_def release_all_gates_eq stagger_tick_def set_sample_def
        bucket_set_sample_def reset_recent_def dest: gates_admit_return ramp_return)



end
