(* ===== verification/Engine_Life.thy ===== *)
theory Engine_Life
  imports Engine_Delivery
begin

text \<open>
  The life of a waiter: its states in the order the code takes them, and the one verdict it gets.
\<close>

section \<open>The order of the states\<close>

fun stage :: "waiter_state \<Rightarrow> nat" where
  "stage WsQueued = 0"
| "stage WsAdmitted = 1"
| "stage WsDone = 2"

lemma stage_inj: "stage a = stage b \<Longrightarrow> a = b"
  by (cases a; cases b) auto

instantiation waiter_state :: linorder
begin

definition less_eq_waiter_state :: "waiter_state \<Rightarrow> waiter_state \<Rightarrow> bool" where
  "less_eq_waiter_state a b \<longleftrightarrow> stage a \<le> stage b"

definition less_waiter_state :: "waiter_state \<Rightarrow> waiter_state \<Rightarrow> bool" where
  "less_waiter_state a b \<longleftrightarrow> stage a < stage b"

instance
  by standard (auto simp: less_eq_waiter_state_def less_waiter_state_def intro: stage_inj)

end

instantiation waiter_state :: order_bot
begin

definition bot_waiter_state :: waiter_state where "bot_waiter_state = WsQueued"

instance
  by standard (simp add: bot_waiter_state_def less_eq_waiter_state_def)

end

lemma queued_least [simp]: "WsQueued \<le> s"
  using bot_least [of s] by (simp add: bot_waiter_state_def)

lemma done_greatest [simp]: "s \<le> WsDone"
  by (cases s) (simp_all add: less_eq_waiter_state_def)

section \<open>What a step may do to a waiter\<close>

text \<open>A verdict that is still to come and one that is in the buffer count one each.\<close>

definition pending :: "waiter \<Rightarrow> nat" where
  "pending w = (if w_state w = WsQueued then 1 else 0) + (if w_ch w = None then 0 else 1)"

definition moves_on :: "waiter \<Rightarrow> waiter \<Rightarrow> bool" where
  "moves_on w w' \<longleftrightarrow> w_state w \<le> w_state w' \<and> pending w' \<le> pending w"

lemma moves_refl [simp]: "moves_on w w"
  by (simp add: moves_on_def)

lemma moves_on_trans: "moves_on a b \<Longrightarrow> moves_on b c \<Longrightarrow> moves_on a c"
  by (auto simp: moves_on_def)

lemma moves_same: "w_state w' = w_state w \<Longrightarrow> w_ch w' = w_ch w \<Longrightarrow> moves_on w w'"
  by (simp add: moves_on_def pending_def)

lemma moves_done: "w_state w' = WsDone \<Longrightarrow> w_ch w' = w_ch w \<Longrightarrow> moves_on w w'"
  by (simp add: moves_on_def pending_def)

lemma deny_moves: "queued_w e q \<Longrightarrow> moves_on (waiters e p) (waiters (deny_head q e) p)"
  by (auto simp: deny_head_def deliver_def upd_waiter_def moves_on_def pending_def Let_def split: option.split)

lemma admit_moves: "queued_w e q \<Longrightarrow> moves_on (waiters e p) (waiters (admit_head q g now e) p)"
  by (auto simp: admit_head_def deliver_def upd_waiter_def moves_on_def pending_def Let_def split: option.split)

lemma sched_loop_moves: "moves_on (waiters e p) (waiters (sched_loop ps sn now e) p)"
proof -
  let ?M = "\<lambda>e'. moves_on (waiters e p) (waiters e' p)"
  have "?M (deny_head q e')" "?M (admit_head q g now e')" if "?M e'" "queued_w e' q" for q g e'
    using that by (blast intro: moves_on_trans deny_moves admit_moves)+
  then show ?thesis
    by (intro sched_loop_rule [where P = "\<lambda>_ _. ?M" and Q = ?M]) (simp_all add: arm_retry_timer_def)
qed

lemma schedule_moves: "moves_on (waiters e p) (waiters (schedule sn now e) p)"
  by (simp add: schedule_def sched_loop_moves)

lemma gc_loop_moves: "gc_loop ps now e = (kept, e') \<Longrightarrow> moves_on (waiters e p) (waiters e' p)"
proof (induction ps arbitrary: e kept)
  case (Cons q ps)
  show ?case
  proof (cases "gc_stale now (queued_gc_grace e) (waiters e q)")
    case True
    let ?e = "upd_waiter q (\<lambda>w. w\<lparr>w_state := WsDone\<rparr>) (e\<lparr>by_id := AList.delete (waiter_id e q) (by_id e)\<rparr>)"
    have "moves_on (waiters e p) (waiters ?e p)" by (simp add: upd_waiter_def moves_done)
    moreover have "moves_on (waiters ?e p) (waiters e' p)" using Cons True by simp
    ultimately show ?thesis by (rule moves_on_trans)
  qed (use Cons in \<open>auto split: prod.splits\<close>)
qed simp

lemma gc_moves: "moves_on (waiters e p) (waiters (gc_queued now e) p)"
  by (cases "gc_loop (queue e) now e") (simp add: gc_queued_def gc_loop_moves)

lemma release_moves: "moves_on (waiters e p) (waiters (release_locked i e) p)"
  by (auto simp: release_locked_def upd_waiter_def moves_done split: option.split)

lemma attach_moves: "p < next_waiter e \<Longrightarrow> moves_on (waiters e p) (waiters (snd (attach_locked req e)) p)"
  by (auto simp: attach_locked_def upd_waiter_def intro!: moves_same split: option.split)

lemma return_moves:
  assumes "admit_return k q now e = Some (v, e')"
  shows "moves_on (waiters e p) (waiters e' p)"
  using assms by (cases k; cases "p = q") (auto simp: detach_def upd_waiter_def moves_on_def pending_def split: option.splits)

lemma return_takes:
  "admit_return WakeVerdict q now e = Some (v, e') \<Longrightarrow> pending (waiters e' q) + 1 = pending (waiters e q)"
  by (auto simp: detach_def upd_waiter_def pending_def split: option.splits)

lemma step_moves:
  assumes "world_step a w = Some w'" and "p < next_waiter (eng w)"
  shows "moves_on (waiters (eng w) p) (waiters (eng w') p)"
    and "takes_verdict a p \<Longrightarrow> pending (waiters (eng w') p) + 1 = pending (waiters (eng w) p)"
proof -
  show "moves_on (waiters (eng w) p) (waiters (eng w') p)"
  proof (cases a)
    case (AdmitReturn k q now)
    with assms(1) return_moves show ?thesis by (auto split: option.splits)
  qed (use assms in \<open>auto simp: schedule_moves gc_moves release_moves attach_moves release_gates_def timer_locked_def stagger_tick_def set_sample_def
      reset_recent_def pause_locked_def drain_locked_def resume_locked_def split: if_splits\<close>)
  show "pending (waiters (eng w') p) + 1 = pending (waiters (eng w) p)" if "takes_verdict a p"
    using that assms(1) return_takes by (cases "(a, p)" rule: takes_verdict.cases) (auto split: option.splits)
qed

lemma next_schedule: "next_waiter (schedule sn now e) = next_waiter e"
proof -
  have "next_waiter (sched_loop qs sn now e) = next_waiter e" for qs sn
    by (intro sched_loop_rule [where P = "\<lambda>_ _ e'. next_waiter e' = next_waiter e" and Q = "\<lambda>e'. next_waiter e' = next_waiter e"])
      (auto simp: deny_head_def admit_head_def deliver_def upd_waiter_def arm_retry_timer_def Let_def)
  then show ?thesis by (simp add: schedule_def)
qed

lemma next_gc: "next_waiter (gc_queued now e) = next_waiter e"
proof -
  have "gc_loop ps now e = (kept, e') \<Longrightarrow> next_waiter e' = next_waiter e" for ps kept e'
    by (induction ps arbitrary: e kept) (auto simp: upd_waiter_def split: if_splits prod.splits)
  then show ?thesis by (cases "gc_loop (queue e) now e") (simp add: gc_queued_def)
qed

lemma next_grows: "world_step a w = Some w' \<Longrightarrow> next_waiter (eng w) \<le> next_waiter (eng w')"
proof (cases a)
  case (AdmitReturn k q now)
  then show "world_step a w = Some w' \<Longrightarrow> next_waiter (eng w) \<le> next_waiter (eng w')"
    by (cases k) (auto simp: detach_def upd_waiter_def split: option.splits)
next
  case (AttachLocked req)
  then show "world_step a w = Some w' \<Longrightarrow> next_waiter (eng w) \<le> next_waiter (eng w')"
    by (auto simp: attach_locked_def upd_waiter_def split: option.splits)
qed (auto simp: next_schedule next_gc eng_defs upd_waiter_def Let_def split: if_splits option.splits)

text \<open>
  C4: a waiter never goes back.  Whatever is interleaved, the state of a waiter only rises in the order queued,
  admitted, done: an admitted build is never put back into the queue and one that is done is never revived.
\<close>

theorem waiter_never_goes_back:
  assumes "run as w = Some w'" and "p < next_waiter (eng w)"
  shows "w_state (waiters (eng w) p) \<le> w_state (waiters (eng w') p)"
  using assms
proof (induction "as" arbitrary: w)
  case (Cons a "as")
  then obtain w1 where 1: "world_step a w = Some w1" "run as w1 = Some w'" by (auto split: option.splits)
  with next_grows [OF 1(1)] Cons have "w_state (waiters (eng w1) p) \<le> w_state (waiters (eng w') p)" by simp
  with step_moves(1) [OF 1(1) Cons.prems(2)] show ?case by (auto simp: moves_on_def)
qed simp

section \<open>Waiters that do not exist yet\<close>

lemma schedule_untouched: "p \<notin> set (queue e) \<Longrightarrow> waiters (schedule sn now e) p = waiters e p"
proof -
  let ?P = "\<lambda>qs sn e'. p \<notin> set qs \<and> waiters e' p = waiters e p"
  have "p \<notin> set qs \<Longrightarrow> waiters (sched_loop qs sn now e) p = waiters e p" for qs sn
    by (intro sched_loop_rule [where P = ?P and Q = "\<lambda>e'. waiters e' p = waiters e p"])
      (auto simp: deny_head_def admit_head_def deliver_def upd_waiter_def arm_retry_timer_def Let_def)
  then show "p \<notin> set (queue e) \<Longrightarrow> waiters (schedule sn now e) p = waiters e p" by (simp add: schedule_def)
qed

definition unborn :: "engine \<Rightarrow> bool" where
  "unborn e \<longleftrightarrow> (\<forall>p\<ge>next_waiter e. w_ch (waiters e p) = None)"

lemma unborn_step:
  assumes "world_step a w = Some w'" and "core_inv (eng w)" and "unborn (eng w)"
  shows "unborn (eng w')"
  unfolding unborn_def
proof (intro allI impI)
  fix p assume p: "next_waiter (eng w') \<le> p"
  with next_grows [OF assms(1)] have p0: "next_waiter (eng w) \<le> p" by simp
  with assms(3) have ch: "w_ch (waiters (eng w) p) = None" by (simp add: unborn_def)
  have ok: "waiters_ok (queue (eng w)) (eng w)" using assms(2) by (simp add: core_inv_def)
  from waiters_okD(3) [OF ok, of p] p0 have q: "p \<notin> set (queue (eng w))" by auto
  from waiters_okD(7) [OF ok, of _ p] p0 have i: "lookup_id (eng w) j \<noteq> Some p" for j by fastforce
  show "w_ch (waiters (eng w') p) = None"
  proof (cases a)
    case (AttachLocked req)
    with assms(1) p ch i show ?thesis by (auto simp: attach_locked_def upd_waiter_def split: option.splits)
  next
    case (AdmitReturn k r now)
    with assms(1) ch show ?thesis by (cases k) (auto simp: detach_def upd_waiter_def split: option.splits)
  next
    case (ReleaseLocked j)
    with assms(1) ch show ?thesis by (auto simp: release_locked_def upd_waiter_def Let_def split: option.splits)
  next
    case (GcQueued now)
    with assms(1,2) ch q gc_queued_result(2) [of "eng w" now] show ?thesis by auto
  qed (use assms(1) ch q in \<open>auto simp: schedule_untouched release_gates_def timer_locked_def stagger_tick_def set_sample_def
      reset_recent_def pause_locked_def drain_locked_def resume_locked_def split: if_splits\<close>)
qed

definition budget :: "engine \<Rightarrow> nat \<Rightarrow> nat" where
  "budget e p = (if p < next_waiter e then pending (waiters e p) else 1)"

lemma budget_step:
  assumes "world_step a w = Some w'" and "unborn (eng w)"
  shows "(if takes_verdict a p then 1 else 0) + budget (eng w') p \<le> budget (eng w) p"
proof (cases "p < next_waiter (eng w)")
  case True
  with next_grows [OF assms(1)] step_moves [OF assms(1) True] show ?thesis by (auto simp: budget_def moves_on_def)
next
  case False
  with assms(2) have ch: "w_ch (waiters (eng w) p) = None" by (simp add: unborn_def)
  have "\<not> takes_verdict a p"
    using ch assms(1) by (cases "(a, p)" rule: takes_verdict.cases) auto
  moreover have "budget (eng w') p \<le> 1"
  proof (cases "p < next_waiter (eng w')")
    case True
    then obtain req where a: "a = AttachLocked req"
      using False assms(1) next_schedule next_gc
      by (cases a) (auto simp: detach_def upd_waiter_def eng_defs Let_def split: option.splits if_splits elim!: admit_return.elims)
    with True False assms(1) show ?thesis
      by (auto simp: budget_def attach_locked_def upd_waiter_def pending_def new_waiter_def split: option.splits)
  qed (simp add: budget_def)
  ultimately show ?thesis using False by (simp add: budget_def)
qed

lemma budget_run:
  assumes "run as w = Some w'" and "reachable pol w" and "unborn (eng w)"
  shows "length (filter (\<lambda>a. takes_verdict a p) as) + budget (eng w') p \<le> budget (eng w) p"
  using assms
proof (induction "as" arbitrary: w)
  case (Cons a "as")
  then obtain w1 where 1: "world_step a w = Some w1" "run as w1 = Some w'" by (auto split: option.splits)
  from Cons.IH [OF 1(2) reachable.step [OF Cons.prems(2) 1(1)] unborn_step [OF 1(1) reachable_core [OF Cons.prems(2)] Cons.prems(3)]]
  show ?case using budget_step [OF 1(1) Cons.prems(3), of p] by (auto split: if_splits)
qed simp

text \<open>
  C3: nobody is answered twice.  In every interleaving, the handlers of one waiter take at most one verdict out
  of its channel, ALLOW or DENY, however often the client polls, disconnects and comes back.
\<close>

theorem one_verdict_per_waiter:
  assumes "run as \<lparr>eng = new_engine pol, releasing = []\<rparr> = Some w"
  shows "length (filter (\<lambda>a. takes_verdict a p) as) \<le> 1"
proof -
  have "unborn (new_engine pol)" by (simp add: unborn_def new_engine_def new_waiter_def)
  with budget_run [OF assms reachable.start, of p] show ?thesis by (auto simp: budget_def new_engine_def split: if_splits)
qed

theorem one_verdict_per_waiter_witness:
  "\<exists>w. run_new one_slot [AttachLocked (ask ''a''), ScheduleLocked no_builds 5, AdmitReturn WakeVerdict 0 6] = Some w \<and>
     length (filter (\<lambda>a. takes_verdict a 0)
       [AttachLocked (ask ''a''), ScheduleLocked no_builds 5, AdmitReturn WakeVerdict 0 6]) \<le> 1"
proof -
  obtain w where "run_new one_slot [AttachLocked (ask ''a''), ScheduleLocked no_builds 5, AdmitReturn WakeVerdict 0 6] = Some w"
    by (simp add: run_simps)
  with one_verdict_per_waiter [OF this, of 0] show ?thesis by blast
qed

theorem waiter_never_goes_back_witness:
  "\<exists>w w'. started = Some w \<and> run [ReleaseLocked ''a'', ReleaseGates ''a''] w = Some w' \<and>
     WsAdmitted \<le> w_state (waiters (eng w') 0)"
proof -
  from started_state obtain w where w: "started = Some w" "admitted_w (eng w) 0" by blast
  have "map_option (\<lambda>w. next_waiter (eng w)) started = Some 1" by (simp add: run_simps)
  with w(1) have n: "0 < next_waiter (eng w)" by simp
  obtain w' where r: "run [ReleaseLocked ''a'', ReleaseGates ''a''] w = Some w'" by simp
  from waiter_never_goes_back [OF r n] w r show ?thesis by auto
qed

end
