(* ===== verification/Go_Path.thy ===== *)
theory Go_Path
  imports Go_Strings
begin

text \<open>
  The functions of Go's \<open>path/filepath\<close> the code uses (Unix paths): \<open>Clean\<close>, \<open>Join\<close>, \<open>Base\<close> and
  \<open>Dir\<close>.  \<open>Clean\<close> works on the components between slashes with a stack, which gives the path of
  the library's byte-wise rewriting.
\<close>

section \<open>Components\<close>

fun split_slash :: "string \<Rightarrow> string list" where
  "split_slash [] = [[]]"
| "split_slash (c # cs) =
     (if c = CHR ''/'' then [] # split_slash cs
      else case split_slash cs of [] \<Rightarrow> [[c]] | w # ws \<Rightarrow> (c # w) # ws)"

fun join_slash :: "string list \<Rightarrow> string" where
  "join_slash [] = []"
| "join_slash [c] = c"
| "join_slash (c # d # cs) = c @ CHR ''/'' # join_slash (d # cs)"

definition clean_step :: "bool \<Rightarrow> string list \<Rightarrow> string \<Rightarrow> string list" where
  "clean_step rooted acc c =
     (if c = [] \<or> c = ''.'' then acc
      else if c = ''..'' then
        (case acc of
           [] \<Rightarrow> if rooted then [] else [''..'']
         | d # ds \<Rightarrow> if d = ''..'' then ''..'' # acc else ds)
      else c # acc)"

definition path_clean :: "string \<Rightarrow> string" where
  "path_clean s =
     (let rooted = (s \<noteq> [] \<and> hd s = CHR ''/'');
          cs = rev (foldl (clean_step rooted) [] (split_slash s))
      in if rooted then CHR ''/'' # join_slash cs else if cs = [] then ''.'' else join_slash cs)"

definition path_join :: "string list \<Rightarrow> string" where
  "path_join es =
     (case dropWhile (\<lambda>e. e = []) es of [] \<Rightarrow> [] | fs \<Rightarrow> path_clean (join_slash fs))"

definition path_base :: "string \<Rightarrow> string" where
  "path_base s =
     (if s = [] then ''.''
      else let t = takeWhile (\<lambda>c. c \<noteq> CHR ''/'') (dropWhile (\<lambda>c. c = CHR ''/'') (rev s))
           in if t = [] then ''/'' else rev t)"

definition path_dir :: "string \<Rightarrow> string" where
  "path_dir s = path_clean (rev (dropWhile (\<lambda>c. c \<noteq> CHR ''/'') (rev s)))"

section \<open>Lengths\<close>

lemma split_slash_nonempty [simp]: "split_slash s \<noteq> []"
  by (induction s) (auto split: list.splits)

definition weight :: "string list \<Rightarrow> nat" where
  "weight cs = sum_list (map (\<lambda>c. Suc (length c)) cs)"

lemma weight_simps [simp]:
  "weight [] = 0" "weight (c # cs) = Suc (length c) + weight cs" "weight (xs @ ys) = weight xs + weight ys"
  "weight (rev xs) = weight xs"
  by (simp_all add: weight_def rev_map [symmetric] sum_list_rev)

lemma weight_split: "weight (split_slash s) = Suc (length s)"
  by (induction s) (auto split: list.splits)

lemma length_join: "cs \<noteq> [] \<Longrightarrow> Suc (length (join_slash cs)) = weight cs"
  by (induction cs rule: join_slash.induct) auto

lemma weight_clean_step: "weight (clean_step r acc c) \<le> weight acc + (if c = [] then 0 else Suc (length c))"
  by (auto simp: clean_step_def split: list.splits)

lemma weight_clean_fold:
  "weight (foldl (clean_step r) acc cs) \<le> weight acc + weight (filter (\<lambda>c. c \<noteq> []) cs)"
proof (induction cs arbitrary: acc)
  case (Cons c cs)
  from Cons [of "clean_step r acc c"] weight_clean_step [of r acc c] show ?case by auto
qed simp

lemma weight_filter: "weight cs = weight (filter (\<lambda>c. c \<noteq> []) cs) + length (filter (\<lambda>c. c = []) cs)"
  by (induction cs) auto

lemma split_slash_append: "split_slash (s @ CHR ''/'' # t) = split_slash s @ split_slash t"
  by (induction s) (auto split: list.splits)

lemma clean_shorter:
  assumes "path_clean s \<noteq> ''.''" shows "length (path_clean s) \<le> length s"
    and "s = u @ ''/'' \<Longrightarrow> s \<noteq> ''/'' \<Longrightarrow> length (path_clean s) < length s"
proof -
  define r where "r \<longleftrightarrow> s \<noteq> [] \<and> hd s = CHR ''/''"
  define cs where "cs = rev (foldl (clean_step r) [] (split_slash s))"
  define e where "e = length (filter (\<lambda>c. c = []) (split_slash s))"
  have w: "weight cs + e \<le> Suc (length s)"
    using weight_clean_fold [of r "[]" "split_slash s"] weight_filter [of "split_slash s"] weight_split [of s]
    by (simp add: cs_def e_def)
  have p: "path_clean s = (if r then CHR ''/'' # join_slash cs else if cs = [] then ''.'' else join_slash cs)"
    unfolding path_clean_def r_def [symmetric] cs_def by (simp add: Let_def)
  have e1: "0 < e \<and> 0 < length s" if r using that by (cases s) (auto simp: r_def e_def)
  show "length (path_clean s) \<le> length s"
    using assms w e1 length_join [of cs] by (cases "cs = []") (auto simp: p Suc_le_eq split: if_splits)
  assume s: "s = u @ ''/''" "s \<noteq> ''/''"
  have e: "e = Suc (length (filter (\<lambda>c. c = []) (split_slash u)))"
    unfolding e_def by (simp add: s(1) split_slash_append)
  from s have u: "u \<noteq> []" by auto
  have e2: "Suc 0 < e" if r
  proof -
    from u that s(1) have "hd u = CHR ''/''" by (cases u) (auto simp: r_def)
    with u show ?thesis unfolding e by (cases u) auto
  qed
  have ls: "Suc 0 < length s" using u s(1) by (cases u) auto
  have ge: "0 < e" using e by simp
  show "length (path_clean s) < length s"
    using assms w e1 e2 ge ls length_join [of cs] by (cases "cs = []") (auto simp: p split: if_splits)
qed

text \<open>Going to the parent gets shorter until it stays where it is; \<open>depth\<close> is the measure.\<close>

definition depth :: "string \<Rightarrow> nat" where
  "depth s = (if s = ''.'' then 0 else Suc (length s))"

lemma depth_dir: "path_dir s \<noteq> s \<Longrightarrow> depth (path_dir s) < depth s"
proof -
  let ?t = "rev (dropWhile (\<lambda>c. c \<noteq> CHR ''/'') (rev s))"
  assume n: "path_dir s \<noteq> s"
  have len: "length ?t \<le> length s" using length_dropWhile_le [of _ "rev s"] by simp
  show ?thesis
  proof (cases "path_dir s = ''.''")
    case True
    with n show ?thesis by (simp add: depth_def)
  next
    case False
    then have c: "path_clean ?t \<noteq> ''.''" by (simp add: path_dir_def)
    have "length (path_dir s) < length s"
    proof (cases "length ?t = length s")
      case True
      then have t: "?t = s"
        by (metis dropWhile_eq_drop length_drop length_rev diff_diff_cancel length_takeWhile_le drop0 rev_rev_ident
            diff_is_0_eq' le_refl)
      then have d: "path_dir s = path_clean s" by (simp add: path_dir_def)
      have "s \<noteq> []" using c t by (auto simp: path_clean_def clean_step_def)
      with t have "dropWhile (\<lambda>c. c \<noteq> CHR ''/'') (rev s) = rev s" "rev s \<noteq> []" by (metis rev_rev_ident, simp)
      then have "hd (rev s) = CHR ''/''" by (metis (full_types) hd_dropWhile)
      with \<open>s \<noteq> []\<close> obtain u where u: "s = u @ ''/''" by (metis append_butlast_last_id hd_rev)
      have "s \<noteq> ''/''" using n d by (auto simp: path_clean_def clean_step_def)
      with clean_shorter(2) [OF c [unfolded t] u] d show ?thesis by simp
    next
      case False
      with len clean_shorter(1) [OF c] show ?thesis by (simp add: path_dir_def)
    qed
    moreover have "path_dir ''.'' = ''.''" by (simp add: path_dir_def path_clean_def clean_step_def)
    ultimately show ?thesis using False n by (auto simp: depth_def)
  qed
qed

section \<open>Absolute paths\<close>

definition comp_ok :: "string \<Rightarrow> bool" where
  "comp_ok c \<longleftrightarrow> c \<notin> {[], ''.'', ''..''} \<and> CHR ''/'' \<notin> set c"

definition abs_path :: "string list \<Rightarrow> string" where
  "abs_path cs = CHR ''/'' # join_slash cs"

lemma abs_path_Nil [simp]: "abs_path [] = ''/''"
  by (simp add: abs_path_def)

lemma abs_path_single [simp]: "abs_path [c] = CHR ''/'' # c"
  by (simp add: abs_path_def)

lemma split_slash_plain: "CHR ''/'' \<notin> set c \<Longrightarrow> split_slash c = [c]"
  by (induction c) auto

lemma split_join: "cs \<noteq> [] \<Longrightarrow> \<forall>c\<in>set cs. CHR ''/'' \<notin> set c \<Longrightarrow> split_slash (join_slash cs) = cs"
  by (induction cs rule: join_slash.induct) (auto simp: split_slash_append split_slash_plain)

lemma clean_fold_ok: "\<forall>c\<in>set cs. comp_ok c \<Longrightarrow> foldl (clean_step r) acc cs = rev cs @ acc"
  by (induction cs arbitrary: acc) (auto simp: clean_step_def comp_ok_def)

lemma split_abs: "\<forall>c\<in>set cs. comp_ok c \<Longrightarrow> split_slash (abs_path cs) = [] # (if cs = [] then [[]] else cs)"
  by (auto simp: abs_path_def split_join comp_ok_def)

lemma clean_abs: "\<forall>c\<in>set cs. comp_ok c \<Longrightarrow> path_clean (abs_path cs) = abs_path cs"
  by (simp add: path_clean_def split_abs clean_fold_ok clean_step_def) (simp add: abs_path_def)

lemma join_slash_snoc: "cs \<noteq> [] \<Longrightarrow> join_slash (cs @ [c]) = join_slash cs @ CHR ''/'' # c"
  by (induction cs rule: join_slash.induct) auto

lemma abs_path_snoc:
  "abs_path (cs @ [c]) = (if cs = [] then ''/'' else abs_path cs @ ''/'') @ c"
  by (simp add: abs_path_def join_slash_snoc)

lemma dropWhile_no_slash: "CHR ''/'' \<notin> set c \<Longrightarrow> dropWhile (\<lambda>x. x \<noteq> CHR ''/'') (c @ CHR ''/'' # s) = CHR ''/'' # s"
  by (induction c) auto

lemma clean_trailing:
  "\<forall>c\<in>set cs. comp_ok c \<Longrightarrow> cs \<noteq> [] \<Longrightarrow> path_clean (abs_path cs @ ''/'') = abs_path cs"
  by (simp add: path_clean_def split_slash_append split_abs clean_fold_ok clean_step_def) (simp add: abs_path_def)

lemma dir_abs:
  assumes "\<forall>c\<in>set (cs @ [c]). comp_ok c" shows "path_dir (abs_path (cs @ [c])) = abs_path cs"
proof -
  from assms have c: "CHR ''/'' \<notin> set (rev c)" by (simp add: comp_ok_def)
  show ?thesis
  proof (cases "cs = []")
    case True
    with dropWhile_no_slash [OF c, of "[]"] show ?thesis
      by (simp add: path_dir_def abs_path_def) (simp add: path_clean_def clean_step_def)
  next
    case False
    with dropWhile_no_slash [OF c, of "rev (abs_path cs)"] clean_trailing [of cs] assms show ?thesis
      by (simp add: path_dir_def abs_path_snoc)
  qed
qed

lemma dir_root: "path_dir (abs_path []) = abs_path []"
  by (simp add: path_dir_def abs_path_def path_clean_def clean_step_def)

lemma takeWhile_no_slash: "CHR ''/'' \<notin> set c \<Longrightarrow> takeWhile (\<lambda>x. x \<noteq> CHR ''/'') (c @ CHR ''/'' # s) = c"
  by (induction c) auto

lemma base_abs:
  assumes "comp_ok c" shows "path_base (abs_path (cs @ [c])) = c"
proof -
  from assms have c: "CHR ''/'' \<notin> set (rev c)" "c \<noteq> []" by (auto simp: comp_ok_def)
  then obtain x xs where x: "rev c = x # xs" "x \<noteq> CHR ''/''" by (cases "rev c") auto
  define s where "s = (if cs = [] then [] else abs_path cs)"
  have s: "abs_path (cs @ [c]) = s @ CHR ''/'' # c" by (simp add: s_def abs_path_snoc)
  have "dropWhile (\<lambda>c. c = CHR ''/'') (rev c @ CHR ''/'' # rev s) = rev c @ CHR ''/'' # rev s"
    using x by simp
  with takeWhile_no_slash [OF c(1), of "rev s"] c(2) show ?thesis by (simp add: path_base_def s)
qed

lemma join_abs:
  assumes "\<forall>c\<in>set (cs @ [c]). comp_ok c" shows "path_join [abs_path cs, c] = abs_path (cs @ [c])"
proof (cases "cs = []")
  case True
  with assms have "split_slash c = [c]" by (simp add: comp_ok_def split_slash_plain)
  with True assms show ?thesis
    by (simp add: path_join_def abs_path_def) (simp add: path_clean_def clean_fold_ok clean_step_def comp_ok_def)
next
  case False
  have "join_slash [abs_path cs, c] = abs_path (cs @ [c])" using False by (simp add: abs_path_snoc)
  then show ?thesis using assms clean_abs [of "cs @ [c]"] by (simp add: path_join_def abs_path_def)
qed

end
