(* ===== verification/Hub.thy ===== *)
theory Hub
  imports Broker_Prelude
begin

text \<open>
  The fan-out of events to subscribers (\<open>internal/registry/hub.go\<close>).  A subscriber is an address; its
  channel has room for 64 events, and a subscriber whose channel is full is dropped and its channel
  closed.  \<open>subs\<close> lists the attached subscribers in the order one iteration of the map visits them.
\<close>

record 'e subscriber =
  sb_buf :: "'e list"
  sb_closed :: bool

record 'e hub =
  subs :: "nat list"
  chans :: "nat \<Rightarrow> 'e subscriber"
  next_sub :: nat

definition sub_buffer_size :: nat where "sub_buffer_size = 64"

definition new_hub :: "'e hub" where
  "new_hub = \<lparr>subs = [], chans = (\<lambda>_. \<lparr>sb_buf = [], sb_closed = False\<rparr>), next_sub = 0\<rparr>"

definition subscribe :: "'e hub \<Rightarrow> nat \<times> 'e hub" where
  "subscribe h =
     (next_sub h,
      h\<lparr>subs := next_sub h # subs h,
        chans := (chans h)(next_sub h := \<lparr>sb_buf = [], sb_closed = False\<rparr>),
        next_sub := Suc (next_sub h)\<rparr>)"

definition drop_sub :: "nat \<Rightarrow> 'e hub \<Rightarrow> 'e hub" where
  "drop_sub s h =
     (if s \<notin> set (subs h) then h
      else h\<lparr>subs := remove1 s (subs h), chans := (chans h)(s := (chans h s)\<lparr>sb_closed := True\<rparr>)\<rparr>)"

text \<open>The loop of \<open>Broadcast\<close> over the subscribers.\<close>

fun broadcast_loop :: "'e \<Rightarrow> nat list \<Rightarrow> 'e hub \<Rightarrow> 'e hub" where
  "broadcast_loop ev [] h = h"
| "broadcast_loop ev (s # ss) h =
     broadcast_loop ev ss
       (if length (sb_buf (chans h s)) < sub_buffer_size
        then h\<lparr>chans := (chans h)(s := (chans h s)\<lparr>sb_buf := sb_buf (chans h s) @ [ev]\<rparr>)\<rparr>
        else drop_sub s h)"

definition broadcast :: "'e \<Rightarrow> 'e hub \<Rightarrow> 'e hub" where
  "broadcast ev h = broadcast_loop ev (subs h) h"

text \<open>A receive: the oldest event of the buffer, which a closed channel still hands out.\<close>

definition receive :: "nat \<Rightarrow> 'e hub \<Rightarrow> ('e \<times> 'e hub) option" where
  "receive s h =
     (case sb_buf (chans h s) of
        [] \<Rightarrow> None
      | ev # evs \<Rightarrow> Some (ev, h\<lparr>chans := (chans h)(s := (chans h s)\<lparr>sb_buf := evs\<rparr>)\<rparr>))"

definition subscriber_count :: "'e hub \<Rightarrow> nat" where
  "subscriber_count h = length (subs h)"

definition hub_wf :: "'e hub \<Rightarrow> bool" where
  "hub_wf h \<longleftrightarrow> distinct (subs h) \<and> (\<forall>s\<in>set (subs h). s < next_sub h \<and> \<not> sb_closed (chans h s)) \<and>
     (\<forall>s. length (sb_buf (chans h s)) \<le> sub_buffer_size)"

lemmas hub_defs = new_hub_def subscribe_def drop_sub_def receive_def

lemma hub_wf_new: "hub_wf new_hub"
  by (simp add: hub_wf_def new_hub_def)

lemma hub_wf_subscribe: "hub_wf h \<Longrightarrow> hub_wf (snd (subscribe h))"
  by (auto simp: hub_wf_def subscribe_def sub_buffer_size_def less_Suc_eq)

lemma hub_wf_drop: "hub_wf h \<Longrightarrow> hub_wf (drop_sub s h)"
  by (auto simp: hub_wf_def drop_sub_def dest: notin_set_remove1)

lemma hub_wf_receive:
  assumes "hub_wf h" "receive s h = Some (ev, h')" shows "hub_wf h'"
proof -
  from assms(2) obtain evs where e: "sb_buf (chans h s) = ev # evs"
    "h' = h\<lparr>chans := (chans h)(s := (chans h s)\<lparr>sb_buf := evs\<rparr>)\<rparr>"
    by (auto simp: receive_def split: list.splits)
  moreover have "length evs \<le> sub_buffer_size"
    using assms(1) e(1) by (metis Suc_leD hub_wf_def length_Cons)
  ultimately show ?thesis using assms(1) by (simp add: hub_wf_def)
qed

lemma drop_sub_other: "r \<noteq> s \<Longrightarrow> chans (drop_sub s h) r = chans h r"
  by (simp add: drop_sub_def)

lemma broadcast_loop_other: "r \<notin> set ss \<Longrightarrow> chans (broadcast_loop ev ss h) r = chans h r"
  by (induction ev ss h rule: broadcast_loop.induct) (auto simp: drop_sub_other)

definition has_room :: "'e hub \<Rightarrow> nat \<Rightarrow> bool" where
  "has_room h s \<longleftrightarrow> length (sb_buf (chans h s)) < sub_buffer_size"

lemma broadcast_loop_result:
  assumes "distinct ss" "distinct (subs h)" "set ss \<subseteq> set (subs h)"
  shows "subs (broadcast_loop ev ss h) = filter (\<lambda>s. s \<in> set ss \<longrightarrow> has_room h s) (subs h) \<and>
     next_sub (broadcast_loop ev ss h) = next_sub h \<and>
     chans (broadcast_loop ev ss h) = (\<lambda>s. if s \<notin> set ss then chans h s
        else if has_room h s then (chans h s)\<lparr>sb_buf := sb_buf (chans h s) @ [ev]\<rparr>
        else (chans h s)\<lparr>sb_closed := True\<rparr>)"
  using assms
proof (induction ev ss h rule: broadcast_loop.induct)
  case (2 ev s ss h)
  show ?case
  proof (cases "has_room h s")
    case True
    let ?h = "h\<lparr>chans := (chans h)(s := (chans h s)\<lparr>sb_buf := sb_buf (chans h s) @ [ev]\<rparr>)\<rparr>"
    have r: "r \<noteq> s \<Longrightarrow> has_room ?h r = has_room h r" for r by (simp add: has_room_def)
    from True 2 show ?thesis
      by (auto simp: has_room_def fun_eq_iff intro!: filter_cong)
  next
    case False
    let ?h = "drop_sub s h"
    have r: "has_room ?h r = has_room h r" for r by (simp add: has_room_def drop_sub_def)
    have nx: "next_sub ?h = next_sub h" by (simp add: drop_sub_def)
    have d: "subs ?h = filter (\<lambda>r. r \<noteq> s) (subs h)" using 2(4) 2(3)
      by (auto simp: drop_sub_def distinct_remove1_removeAll removeAll_filter_not_eq intro: filter_cong)
    have eq: "(if length (sb_buf (chans h s)) < sub_buffer_size
        then h\<lparr>chans := (chans h)(s := (chans h s)\<lparr>sb_buf := sb_buf (chans h s) @ [ev]\<rparr>)\<rparr> else ?h) = ?h"
      using False by (simp add: has_room_def)
    have s: "s \<in> set (subs h)" "s \<notin> set ss" "distinct ss" using 2(2,4) by auto
    have sub: "set ss \<subseteq> set (subs ?h)" "distinct (subs ?h)" using 2(2-4) by (auto simp: d)
    from 2(1) [unfolded eq, OF s(3) sub(2,1)]
    have f: "subs (broadcast_loop ev ss ?h) = filter (\<lambda>r. r \<in> set ss \<longrightarrow> has_room h r) (subs ?h)"
      "next_sub (broadcast_loop ev ss ?h) = next_sub h"
      and c: "chans (broadcast_loop ev ss ?h) = (\<lambda>r. if r \<notin> set ss then chans ?h r
        else if has_room h r then (chans ?h r)\<lparr>sb_buf := sb_buf (chans ?h r) @ [ev]\<rparr>
        else (chans ?h r)\<lparr>sb_closed := True\<rparr>)"
      unfolding r by (simp_all add: nx)
    have k: "chans ?h q = (if q = s then (chans h s)\<lparr>sb_closed := True\<rparr> else chans h q)" for q
      using s by (simp add: drop_sub_def)
    have "broadcast_loop ev (s # ss) h = broadcast_loop ev ss ?h" using eq by simp
    then show ?thesis
      using f False s by (auto simp: c k d fun_eq_iff intro!: filter_cong)
  qed
qed simp

lemma hub_wf_broadcast: assumes "hub_wf h" shows "hub_wf (broadcast ev h)"
proof -
  have "distinct (subs h)" using assms by (simp add: hub_wf_def)
  from broadcast_loop_result [OF this this order_refl, of ev] assms show ?thesis
    by (auto simp: hub_wf_def broadcast_def has_room_def)
qed

lemma broadcast_attached:
  assumes "hub_wf h" "s \<in> set (subs (broadcast ev h))"
  shows "s \<in> set (subs h)" "sb_buf (chans (broadcast ev h) s) = sb_buf (chans h s) @ [ev]"
proof -
  have "distinct (subs h)" using assms by (simp add: hub_wf_def)
  from broadcast_loop_result [OF this this order_refl, of ev] assms(2)
  show "s \<in> set (subs h)" "sb_buf (chans (broadcast ev h) s) = sb_buf (chans h s) @ [ev]"
    by (auto simp: broadcast_def)
qed

text \<open>
  A broadcast reaches every attached subscriber that has room, at the end of its buffer and once;
  exactly the subscribers without room are dropped and their channels closed; channels of others stay
  as they are.  It is total: no subscriber can make it wait.
\<close>

theorem broadcast_exact:
  assumes "hub_wf h"
  shows "subs (broadcast ev h) = filter (has_room h) (subs h) \<and>
    chans (broadcast ev h) = (\<lambda>s. if s \<notin> set (subs h) then chans h s
        else if has_room h s then (chans h s)\<lparr>sb_buf := sb_buf (chans h s) @ [ev]\<rparr>
        else (chans h s)\<lparr>sb_closed := True\<rparr>)"
proof -
  have "distinct (subs h)" using assms by (simp add: hub_wf_def)
  from broadcast_loop_result [OF this this order_refl, of ev] show ?thesis
    by (auto simp: broadcast_def intro!: filter_cong)
qed

theorem broadcast_exact_witness:
  "let h = snd (subscribe new_hub) in
     subs (broadcast ''x'' h) = filter (has_room h) (subs h) \<and> sb_buf (chans (broadcast ''x'' h) 0) = [''x'']"
  using broadcast_exact [OF hub_wf_subscribe [OF hub_wf_new], of "''x''"]
  by (auto simp: Let_def hub_defs has_room_def sub_buffer_size_def)

end
