(* ===== verification/Go_Time.thy ===== *)
theory Go_Time
  imports Go_Strings "HOL-Library.List_Lexorder" "HOL-Library.Char_ord"
begin

text \<open>
  Wire timestamps: \<open>api.FormatTime\<close>, RFC 3339 in UTC, with the proleptic Gregorian calendar of Go's
  \<open>time\<close> package, and the proof that the strings order as the times do.  Go compares strings by
  their bytes, which is the lexicographic order of \<open>List_Lexorder\<close> on \<open>Char_ord\<close>.
\<close>

section \<open>Fixed-width fields\<close>

fun pad :: "nat \<Rightarrow> nat \<Rightarrow> string" where
  "pad 0 n = []"
| "pad (Suc w) n = pad w (n div 10) @ [char_of (48 + n mod 10)]"

lemma length_pad [simp]: "length (pad w n) = w"
  by (induction w n rule: pad.induct) auto

lemma list_less_cons [simp]: "x # xs < y # ys \<longleftrightarrow> x < y \<or> (x = y \<and> xs < (ys :: 'a::linorder list))"
  by (simp add: list_less_def)

lemma list_not_less_Nil [simp]: "\<not> xs < ([] :: 'a::linorder list)" "[] < x # (xs :: 'a::linorder list)"
  by (simp_all add: list_less_def)

lemma list_less_append:
  fixes a b c d :: "'a::linorder list"
  assumes "length a = length b"
  shows "a @ c < b @ d \<longleftrightarrow> a < b \<or> (a = b \<and> c < d)"
  using assms by (induction a b rule: list_induct2) auto

lemma digit_less: "m < 10 \<Longrightarrow> n < 10 \<Longrightarrow> (char_of (48 + m) :: char) < char_of (48 + n) \<longleftrightarrow> m < (n :: nat)"
  by (simp add: less_char_def of_char_of)

lemma digit_eq: "m < 10 \<Longrightarrow> n < 10 \<Longrightarrow> (char_of (48 + m) :: char) = char_of (48 + n) \<longleftrightarrow> m = (n :: nat)"
  by (metis digit_less less_irrefl linorder_neqE_nat)

lemma pad_inject: "m < 10 ^ w \<Longrightarrow> n < 10 ^ w \<Longrightarrow> pad w m = pad w n \<longleftrightarrow> m = n"
proof (induction w arbitrary: m n)
  case (Suc w)
  have "m div 10 < 10 ^ w" "n div 10 < 10 ^ w" using Suc.prems by (auto simp: less_mult_imp_div_less)
  with Suc.IH have "pad (Suc w) m = pad (Suc w) n \<longleftrightarrow> m div 10 = n div 10 \<and> m mod 10 = n mod 10"
    by (simp add: digit_eq)
  then show ?case by (metis div_mult_mod_eq)
qed simp

lemma less_div_mod:
  fixes m n k :: nat assumes "0 < k"
  shows "m < n \<longleftrightarrow> m div k < n div k \<or> (m div k = n div k \<and> m mod k < n mod k)"
proof -
  have le: "m < n" if "m div k < n div k" for m n
    using that by (meson div_le_mono not_le)
  have "m < n \<longleftrightarrow> m mod k < n mod k" if "m div k = n div k"
    using div_mult_mod_eq [of m k] div_mult_mod_eq [of n k] that by (metis nat_add_left_cancel_less)
  with le [of m n] le [of n m] show ?thesis by (metis linorder_neqE_nat less_asym)
qed

lemma pad_less: "m < 10 ^ w \<Longrightarrow> n < 10 ^ w \<Longrightarrow> pad w m < pad w n \<longleftrightarrow> m < n"
proof (induction w arbitrary: m n)
  case (Suc w)
  have b: "m div 10 < 10 ^ w" "n div 10 < 10 ^ w" using Suc.prems by (auto simp: less_mult_imp_div_less)
  have "pad (Suc w) m < pad (Suc w) n \<longleftrightarrow>
      m div 10 < n div 10 \<or> (m div 10 = n div 10 \<and> m mod 10 < n mod 10)"
    using Suc.IH [OF b] pad_inject [OF b] by (simp add: list_less_append digit_less)
  then show ?case using less_div_mod [of 10 m n] by simp
qed simp

section \<open>The calendar\<close>

definition leap :: "nat \<Rightarrow> bool" where
  "leap y \<longleftrightarrow> y mod 4 = 0 \<and> (y mod 100 \<noteq> 0 \<or> y mod 400 = 0)"

text \<open>Days from 1 January of year 1 to 1 January of year \<open>y\<close>.\<close>

definition days_before :: "nat \<Rightarrow> nat" where
  "days_before y = 365 * (y - 1) + (y - 1) div 4 - (y - 1) div 100 + (y - 1) div 400"

lemma days_before_Suc:
  assumes "1 \<le> y" shows "days_before (Suc y) = days_before y + (if leap y then 366 else 365)"
proof -
  obtain x where y: "y = Suc x" using assms by (cases y) auto
  have le: "x div 100 \<le> x div 4" by (simp add: div_le_mono2)
  have d: "Suc x div 4 = x div 4 + (if 4 dvd Suc x then 1 else 0)"
    "Suc x div 100 = x div 100 + (if 100 dvd Suc x then 1 else 0)"
    "Suc x div 400 = x div 400 + (if 400 dvd Suc x then 1 else 0)"
    by (simp_all add: div_Suc dvd_eq_mod_eq_0)
  have i: "100 dvd Suc x \<Longrightarrow> 4 dvd Suc x" "400 dvd Suc x \<Longrightarrow> 100 dvd Suc x"
    by (erule dvd_trans [rotated], simp)+
  have l: "leap y \<longleftrightarrow> 4 dvd Suc x \<and> (\<not> 100 dvd Suc x \<or> 400 dvd Suc x)"
    by (simp add: leap_def y dvd_eq_mod_eq_0)
  have s: "days_before (Suc y) = 365 * Suc x + Suc x div 4 - Suc x div 100 + Suc x div 400"
    "days_before y = 365 * x + x div 4 - x div 100 + x div 400"
    by (simp_all add: days_before_def y)
  have count: "b \<le> a \<Longrightarrow> (B \<Longrightarrow> A) \<Longrightarrow> (C \<Longrightarrow> B) \<Longrightarrow>
      365 * Suc n + (a + (if A then 1 else 0)) - (b + (if B then 1 else 0)) + (c + (if C then 1 else 0)) =
      365 * n + a - b + c + (if A \<and> (\<not> B \<or> C) then 366 else 365)" for a b c n :: nat and A B C
  proof -
    assume "b \<le> a" and i: "B \<Longrightarrow> A" "C \<Longrightarrow> B"
    then obtain k where k: "a = b + k" using le_Suc_ex by blast
    show "365 * Suc n + (a + (if A then 1 else 0)) - (b + (if B then 1 else 0)) + (c + (if C then 1 else 0)) =
      365 * n + a - b + c + (if A \<and> (\<not> B \<or> C) then 366 else 365)"
      using i by (cases A; cases B; cases C) (simp_all add: k)
  qed
  show ?thesis
    unfolding s l d by (rule count [OF le i])
qed

lemma days_before_mono: "y \<le> z \<Longrightarrow> 1 \<le> y \<Longrightarrow> days_before y \<le> days_before z"
  by (induction rule: dec_induct) (auto simp: days_before_Suc)

lemma days_before_ge: "1 \<le> y \<Longrightarrow> y \<le> Suc (days_before y)"
  by (induction rule: dec_induct) (auto simp: days_before_def [of 1] days_before_Suc)

text \<open>The year of a day, counted up from a year that is not too late.\<close>

function year_from :: "nat \<Rightarrow> nat \<Rightarrow> nat" where
  "year_from y d = (if 1 \<le> y \<and> days_before (Suc y) \<le> d then year_from (Suc y) d else y)"
  by auto
termination
proof (relation "measure (\<lambda>(y, d). Suc d - y)")
  show "((Suc y, d), y, d) \<in> measure (\<lambda>(y, d). Suc d - y)" if "1 \<le> y \<and> days_before (Suc y) \<le> d" for y d
    using that days_before_ge [of "Suc y"] by auto
qed simp

declare year_from.simps [simp del]

definition year_of :: "nat \<Rightarrow> nat" where
  "year_of d = year_from (Suc (d div 366)) d"

lemma year_from_bounds:
  "1 \<le> y \<Longrightarrow> days_before y \<le> d \<Longrightarrow>
     1 \<le> year_from y d \<and> days_before (year_from y d) \<le> d \<and> d < days_before (Suc (year_from y d))"
  by (induction y d rule: year_from.induct) (subst (1 2 3) year_from.simps, auto)

lemma days_before_le: "days_before (Suc k) \<le> 366 * k"
proof (induction k)
  case (Suc k)
  then show ?case using days_before_Suc [of "Suc k"] by simp
qed (simp add: days_before_def)

lemma year_of_bounds: "1 \<le> year_of d" "days_before (year_of d) \<le> d" "d < days_before (Suc (year_of d))"
proof -
  have "days_before (Suc (d div 366)) \<le> d"
    using days_before_le [of "d div 366"] by (meson order_trans times_div_less_eq_dividend)
  with year_from_bounds [of "Suc (d div 366)" d]
  show "1 \<le> year_of d" "days_before (year_of d) \<le> d" "d < days_before (Suc (year_of d))"
    by (simp_all add: year_of_def)
qed

lemma year_of_mono: assumes "d \<le> d'" shows "year_of d \<le> year_of d'"
proof (rule ccontr)
  assume "\<not> ?thesis"
  then have "days_before (Suc (year_of d')) \<le> days_before (year_of d)"
    by (intro days_before_mono) auto
  with year_of_bounds(3) [of d'] year_of_bounds(2) [of d] assms show False by linarith
qed

text \<open>First day of each month, counted from the first day of the year.\<close>

definition month_starts :: "bool \<Rightarrow> nat list" where
  "month_starts l = (if l then [0, 31, 60, 91, 121, 152, 182, 213, 244, 274, 305, 335]
                     else [0, 31, 59, 90, 120, 151, 181, 212, 243, 273, 304, 334])"

definition month_of :: "bool \<Rightarrow> nat \<Rightarrow> nat" where
  "month_of l yd = length (filter (\<lambda>s. s \<le> yd) (month_starts l))"

definition mday_of :: "bool \<Rightarrow> nat \<Rightarrow> nat" where
  "mday_of l yd = Suc (yd - month_starts l ! (month_of l yd - 1))"

lemma month_of_mono: "yd \<le> yd' \<Longrightarrow> month_of l yd \<le> month_of l yd'"
  by (simp add: month_of_def month_starts_def)

lemma nth_filter_le:
  fixes xs :: "nat list"
  assumes "sorted xs" "k < length xs"
  shows "xs ! k \<le> x \<longleftrightarrow> k < length (filter (\<lambda>s. s \<le> x) xs)"
  using assms
proof (induction xs arbitrary: k)
  case (Cons a xs)
  show ?case
  proof (cases "a \<le> x")
    case True
    with Cons show ?thesis by (cases k) auto
  next
    case False
    then have "filter (\<lambda>s. s \<le> x) (a # xs) = []" using Cons.prems(1) by (auto simp: filter_empty_conv)
    moreover have "a \<le> (a # xs) ! k" using Cons.prems by (cases k) auto
    then have "x < (a # xs) ! k" using False by simp
    ultimately show ?thesis by simp
  qed
qed simp

lemma month_starts_facts: "sorted (month_starts l)" "length (month_starts l) = 12" "month_starts l ! 0 = 0"
  by (simp_all add: month_starts_def)

lemma month_bounds: "1 \<le> month_of l yd" "month_of l yd \<le> 12"
proof -
  have "0 < month_of l yd"
    unfolding month_of_def by (subst nth_filter_le [symmetric]) (simp_all add: month_starts_facts)
  then show "1 \<le> month_of l yd" by simp
  show "month_of l yd \<le> 12"
    using length_filter_le [of "\<lambda>s. s \<le> yd" "month_starts l"] by (simp add: month_of_def month_starts_facts)
qed

lemma month_start_le: "month_starts l ! (month_of l yd - 1) \<le> yd"
  using month_bounds [of l yd] nth_filter_le [of "month_starts l" "month_of l yd - 1" yd]
  by (auto simp: month_starts_facts month_of_def)

lemma month_length: "k < 11 \<Longrightarrow> month_starts l ! Suc k \<le> month_starts l ! k + 31"
  by (auto simp: month_starts_def less_Suc_eq numeral_eq_Suc)

lemma mday_less: assumes "yd < 366" shows "mday_of l yd < 100"
proof (cases "month_of l yd = 12")
  case True
  have "334 \<le> month_starts l ! 11" by (simp add: month_starts_def)
  with True assms show ?thesis by (simp add: mday_of_def)
next
  case False
  with month_bounds [of l yd] obtain k where k: "month_of l yd = Suc k" "k < 11"
    by (cases "month_of l yd") auto
  then have "yd < month_starts l ! Suc k"
    using nth_filter_le [of "month_starts l" "Suc k" yd] by (auto simp: month_starts_facts month_of_def)
  with month_length [OF k(2), of l] show ?thesis by (simp add: mday_of_def k)
qed

lemma month_day_less:
  "yd < yd' \<Longrightarrow> month_of l yd < month_of l yd' \<or> (month_of l yd = month_of l yd' \<and> mday_of l yd < mday_of l yd')"
  using month_of_mono [of yd yd' l] month_start_le [of l yd] by (auto simp: mday_of_def)

section \<open>FormatTime\<close>

definition year_string :: "nat \<Rightarrow> string" where
  "year_string y = (if y < 10000 then pad 4 y else nat_digits y)"

text \<open>\<open>t.UTC().Format(time.RFC3339)\<close> of a time \<open>s\<close> seconds after the start of year 1.\<close>

definition rfc3339 :: "nat \<Rightarrow> string" where
  "rfc3339 s =
     (let d = s div 86400; r = s mod 86400; y = year_of d; yd = d - days_before y
      in year_string y @ ''-'' @ pad 2 (month_of (leap y) yd) @ ''-'' @ pad 2 (mday_of (leap y) yd) @ ''T'' @
         pad 2 (r div 3600) @ '':'' @ pad 2 (r mod 3600 div 60) @ '':'' @ pad 2 (r mod 60) @ ''Z'')"

definition format_time :: "gotime \<Rightarrow> string" where
  "format_time t = (if is_zero t then [] else rfc3339 (nat (t div second)))"

text \<open>A day of a year before 10000.\<close>

definition last_day :: nat where "last_day = days_before 10000"

lemma year_less: "d < last_day \<Longrightarrow> year_of d < 10000"
  using year_of_bounds(2) [of d] days_before_mono [of 10000 "year_of d"]
  by (auto simp: last_day_def not_less [symmetric])

lemma year_day: "d - days_before (year_of d) < 366"
  using year_of_bounds [of d] days_before_Suc [of "year_of d"] by (auto split: if_splits)

lemma clock_less:
  fixes r r' :: nat
  assumes "r < r'"
  shows "r div 3600 < r' div 3600 \<or> (r div 3600 = r' div 3600 \<and>
    (r mod 3600 div 60 < r' mod 3600 div 60 \<or> (r mod 3600 div 60 = r' mod 3600 div 60 \<and> r mod 60 < r' mod 60)))"
proof -
  have m: "(r mod 3600) mod 60 = r mod 60" for r :: nat by (simp add: mod_mod_cancel)
  from assms less_div_mod [of 3600 r r'] less_div_mod [of 60 "r mod 3600" "r' mod 3600"]
  show ?thesis by (auto simp: m)
qed

lemma rfc3339_mono:
  assumes "s < s'" "s' div 86400 < last_day"
  shows "rfc3339 s < rfc3339 s'"
proof -
  define d d' where "d = s div 86400" and "d' = s' div 86400"
  define r r' where "r = s mod 86400" and "r' = s' mod 86400"
  define y y' where "y = year_of d" and "y' = year_of d'"
  define yd yd' where "yd = d - days_before y" and "yd' = d' - days_before y'"
  have le: "d \<le> d'" using assms(1) by (simp add: d_def d'_def div_le_mono)
  have Y: "y < 10000" "y' < 10000"
    using year_less [of d] year_less [of d'] le assms(2) by (simp_all add: y_def y'_def d'_def)
  have days: "days_before y \<le> d" "days_before y' \<le> d'"
    using year_of_bounds(2) by (simp_all add: y_def y'_def)
  have less: "y < y' \<or> (y = y' \<and> (yd < yd' \<or> (yd = yd' \<and> r < r')))"
  proof (cases "d = d'")
    case True
    then have "r < r'" using less_div_mod [of 86400 s s'] assms(1) by (simp add: d_def d'_def r_def r'_def)
    with True show ?thesis by (simp add: y_def y'_def yd_def yd'_def)
  next
    case False
    with le have "d < d'" by simp
    with year_of_mono [OF le] days show ?thesis by (auto simp: y_def y'_def yd_def yd'_def)
  qed
  have b: "yd < 366" "yd' < 366" using year_day by (simp_all add: yd_def yd'_def y_def y'_def)
  have R: "r < 86400" "r' < 86400" by (simp_all add: r_def r'_def)
  have small: "month_of l x < 10 ^ 2" "r div 3600 < 10 ^ 2" "r' div 3600 < 10 ^ 2"
    "x mod 3600 div 60 < 10 ^ 2" "x mod 60 < 10 ^ 2" for l and x :: nat
    using month_bounds [of l x] R by (auto simp: div_less_iff_less_mult)
  have dayb: "mday_of l yd < 10 ^ 2" "mday_of l yd' < 10 ^ 2" for l
    using mday_less [OF b(1)] mday_less [OF b(2)] by simp_all
  have str: "rfc3339 s = pad 4 y @ ''-'' @ pad 2 (month_of (leap y) yd) @ ''-'' @ pad 2 (mday_of (leap y) yd) @ ''T'' @
         pad 2 (r div 3600) @ '':'' @ pad 2 (r mod 3600 div 60) @ '':'' @ pad 2 (r mod 60) @ ''Z''"
    "rfc3339 s' = pad 4 y' @ ''-'' @ pad 2 (month_of (leap y') yd') @ ''-'' @ pad 2 (mday_of (leap y') yd') @ ''T'' @
         pad 2 (r' div 3600) @ '':'' @ pad 2 (r' mod 3600 div 60) @ '':'' @ pad 2 (r' mod 60) @ ''Z''"
    using Y by (simp_all add: rfc3339_def year_string_def Let_def d_def d'_def r_def r'_def y_def y'_def yd_def yd'_def)
  have cmp: "pad 2 m < pad 2 n \<longleftrightarrow> m < n" "pad 2 m = pad 2 n \<longleftrightarrow> m = n" if "m < 10 ^ 2" "n < 10 ^ 2" for m n :: nat
    using that pad_less [of m 2 n] pad_inject [of m 2 n] by simp_all
  have cmp4: "pad 4 y < pad 4 y' \<longleftrightarrow> y < y'" "pad 4 y = pad 4 y' \<longleftrightarrow> y = y'"
    using Y pad_less [of y 4 y'] pad_inject [of y 4 y'] by simp_all
  from less clock_less [of r r'] month_day_less [of yd yd' "leap y"]
  show ?thesis unfolding str
    by (auto simp: list_less_append cmp4 cmp [OF small(1) small(1)] cmp [OF dayb] cmp [OF small(2,3)]
        cmp [OF small(4) small(4)] cmp [OF small(5) small(5)] simp del: pad.simps)
qed

text \<open>
  Wire timestamps sort as strings the way their times do, up to the second: the order that
  \<open>SnapshotAPI\<close> computes on the formatted \<open>StartTime\<close> is the order of the times, for times of the
  years 1 to 9999.
\<close>

theorem format_time_orders:
  assumes "second \<le> t" "second \<le> u" "t div (86400 * second) < int last_day" "u div (86400 * second) < int last_day"
  shows "format_time t < format_time u \<longleftrightarrow> t div second < u div second"
proof -
  define m n where "m = nat (t div second)" and "n = nat (u div second)"
  have day: "nat (x div second) div 86400 < last_day" if "second \<le> x" "x div (86400 * second) < int last_day" for x
  proof -
    have "x div second div 86400 = x div (86400 * second)"
      by (simp add: zdiv_zmult2_eq [symmetric] second_def)
    moreover have "0 \<le> x div second" using that(1) by (simp add: second_def pos_imp_zdiv_nonneg_iff)
    ultimately show ?thesis using that(2) by (simp add: nat_div_distrib [symmetric] nat_less_iff)
  qed
  have f: "format_time t = rfc3339 m" "format_time u = rfc3339 n"
    using assms(1,2) by (simp_all add: format_time_def is_zero_def time_zero_def second_def m_def n_def)
  have "0 \<le> t div second" "0 \<le> u div second"
    using assms(1,2) by (simp_all add: second_def pos_imp_zdiv_nonneg_iff)
  then have o: "t div second < u div second \<longleftrightarrow> m < n" by (auto simp: m_def n_def)
  have "rfc3339 m < rfc3339 n \<longleftrightarrow> m < n"
    using rfc3339_mono [of m n] rfc3339_mono [of n m] day [OF assms(1,3)] day [OF assms(2,4)]
    unfolding m_def [symmetric] n_def [symmetric] by (metis linorder_neqE_nat less_asym less_irrefl)
  then show ?thesis by (simp add: f o)
qed

theorem format_time_orders_witness:
  "format_time (3 * second) < format_time (90 * minute)"
proof -
  have "format_time (3 * second) < format_time (90 * minute) \<longleftrightarrow> 3 * second div second < 90 * minute div second"
    by (rule format_time_orders) (simp_all add: second_def minute_def last_day_def days_before_def)
  then show ?thesis by (simp add: second_def minute_def)
qed

end
