(* ===== verification/Build_Model.thy ===== *)
theory Build_Model
  imports Go_Time
begin

text \<open>
  The domain object of a build (\<open>internal/build/build.go\<close>) and its wire form
  (\<open>internal/api/api.go\<close>): life-cycle states, sources, elapsed time, the mapper \<open>ToAPI\<close> and the
  event envelope.

  \<open>State\<close> and \<open>Source\<close> are Go strings, and a client or a database row may carry any string, so they
  are strings here; the constants are those of the source.  A nil slice and an empty slice of targets
  are one value: the mapper and the store write both as \<open>[]\<close>.
\<close>

section \<open>States and sources\<close>

type_synonym build_state = string
type_synonym build_source = string

definition state_queued :: build_state where "state_queued = ''queued''"
definition state_running :: build_state where "state_running = ''running''"
definition state_finished :: build_state where "state_finished = ''finished''"
definition state_failed :: build_state where "state_failed = ''failed''"
definition state_killed :: build_state where "state_killed = ''killed''"
definition state_gone :: build_state where "state_gone = ''gone''"
definition state_unknown :: build_state where "state_unknown = ''unknown''"

definition is_terminal :: "build_state \<Rightarrow> bool" where
  "is_terminal s \<longleftrightarrow> s \<in> {state_finished, state_failed, state_killed, state_gone}"

definition source_registered :: build_source where "source_registered = ''registered''"
definition source_discovered :: build_source where "source_discovered = ''discovered''"

lemmas state_defs =
  state_queued_def state_running_def state_finished_def state_failed_def state_killed_def
  state_gone_def state_unknown_def source_registered_def source_discovered_def

lemma terminal_states [simp]:
  "is_terminal state_finished" "is_terminal state_failed" "is_terminal state_killed" "is_terminal state_gone"
  "\<not> is_terminal state_queued" "\<not> is_terminal state_running" "\<not> is_terminal state_unknown" "\<not> is_terminal []"
  by (simp_all add: is_terminal_def state_defs)

section \<open>The domain object\<close>

record build =
  b_id :: string
  b_worktree :: string
  b_worktree_name :: string
  b_command :: string
  b_targets :: "string list"
  b_pid :: int
  b_state :: build_state
  b_start :: gotime
  b_end :: gotime
  b_exit :: int
  b_source :: build_source
  b_exe :: string
  b_cwd :: string
  b_git_dir :: string
  b_seen :: gotime
  b_ratio :: "rat option"
  b_profile :: string

definition empty_build :: build where
  "empty_build = \<lparr>b_id = [], b_worktree = [], b_worktree_name = [], b_command = [], b_targets = [], b_pid = 0,
     b_state = [], b_start = time_zero, b_end = time_zero, b_exit = 0, b_source = [], b_exe = [], b_cwd = [],
     b_git_dir = [], b_seen = time_zero, b_ratio = None, b_profile = []\<rparr>"

definition elapsed :: "build \<Rightarrow> gotime \<Rightarrow> duration" where
  "elapsed b now = time_sub (if \<not> is_zero (b_end b) then b_end b else now) (b_start b)"

section \<open>The wire form\<close>

record api_build =
  a_id :: string
  a_worktree :: string
  a_worktree_name :: string
  a_command :: string
  a_targets :: "string list"
  a_pid :: int
  a_state :: string
  a_start :: string
  a_end :: string
  a_exit :: int
  a_source :: string
  a_elapsed :: int
  a_ratio :: "rat option"
  a_profile :: string

definition to_api :: "build \<Rightarrow> gotime \<Rightarrow> api_build" where
  "to_api b now =
     \<lparr>a_id = b_id b, a_worktree = b_worktree b, a_worktree_name = b_worktree_name b, a_command = b_command b,
      a_targets = b_targets b, a_pid = b_pid b, a_state = b_state b, a_start = format_time (b_start b),
      a_end = format_time (b_end b), a_exit = b_exit b, a_source = b_source b,
      a_elapsed = dur_milliseconds (elapsed b now), a_ratio = b_ratio b, a_profile = b_profile b\<rparr>"

datatype event_type = EventSnapshot | EventBuild | EventMetrics | EventAlert

record alert_event =
  al_id :: string
  al_worktree :: string
  al_alert :: string

text \<open>The metrics payload is any JSON value the sink passes; the envelope does not look into it.\<close>

record 'm event =
  ev_type :: event_type
  ev_seq :: nat
  ev_build :: "api_build option"
  ev_builds :: "api_build list"
  ev_ts :: string
  ev_metrics :: "'m option"
  ev_alert :: "alert_event option"

definition build_event :: "nat \<Rightarrow> build \<Rightarrow> gotime \<Rightarrow> 'm event" where
  "build_event n b now =
     \<lparr>ev_type = EventBuild, ev_seq = n, ev_build = Some (to_api b now), ev_builds = [],
      ev_ts = format_time now, ev_metrics = None, ev_alert = None\<rparr>"

lemma to_api_simps [simp]:
  "a_id (to_api b now) = b_id b" "a_state (to_api b now) = b_state b" "a_pid (to_api b now) = b_pid b"
  "a_start (to_api b now) = format_time (b_start b)" "a_end (to_api b now) = format_time (b_end b)"
  by (simp_all add: to_api_def)

lemma elapsed_frozen: "\<not> is_zero (b_end b) \<Longrightarrow> elapsed b t = elapsed b u"
  by (simp add: elapsed_def)

end
