(* ===== verification/Metrics.thy ===== *)
theory Metrics
  imports Go_Strings Go_Float
begin

text \<open>
  The metrics model of \<open>internal/metrics\<close>: extraction of a \<open>BuildMetrics\<close> message into a row, the
  binding definition of the disk-cache hit ratio, the cross-check against Bazel's summary line, and
  the low-hit alert.

  The generated message types are records of the fields the code reads, with \<open>None\<close> for an absent
  sub-message.  Counters are Go \<open>int64\<close>: every addition of the source is written with \<open>wrap64\<close>.
\<close>

section \<open>Rows and messages\<close>

record runner_count =
  rc_name :: string
  rc_kind :: string
  rc_count :: int

record mnemonic =
  mn_name :: string
  mn_created :: int
  mn_executed :: int
  mn_system_ms :: int
  mn_user_ms :: int

record mrow =
  m_id :: string
  m_worktree :: string
  m_bep_path :: string
  m_profile_path :: string
  m_started :: int
  m_finished :: int
  m_exit :: int
  m_success :: bool
  m_has_finish :: bool
  m_actions_created :: int
  m_actions_executed :: int
  m_disk_hits :: int
  m_remote_hits :: int
  m_executed :: int
  m_processes :: int
  m_runners :: "runner_count list"
  m_mnemonics :: "mnemonic list"
  m_summary :: string
  m_wall_ms :: int
  m_cpu_ms :: int
  m_analysis_ms :: int
  m_exec_ms :: int
  m_targets :: int
  m_packages :: int
  m_peak_heap :: int
  m_tests :: int
  m_tests_failed :: int
  m_alert :: string
  m_has_metrics :: bool

definition empty_row :: mrow where
  "empty_row = \<lparr>m_id = [], m_worktree = [], m_bep_path = [], m_profile_path = [], m_started = 0, m_finished = 0,
     m_exit = 0, m_success = False, m_has_finish = False, m_actions_created = 0, m_actions_executed = 0,
     m_disk_hits = 0, m_remote_hits = 0, m_executed = 0, m_processes = 0, m_runners = [], m_mnemonics = [],
     m_summary = [], m_wall_ms = 0, m_cpu_ms = 0, m_analysis_ms = 0, m_exec_ms = 0, m_targets = 0,
     m_packages = 0, m_peak_heap = 0, m_tests = 0, m_tests_failed = 0, m_alert = [], m_has_metrics = False\<rparr>"

record action_data =
  ad_mnemonic :: string
  ad_created :: int
  ad_executed :: int
  ad_system :: duration
  ad_user :: duration

record action_summary =
  as_created :: int
  as_executed :: int
  as_runners :: "runner_count list"
  as_data :: "action_data list"

record timing_metrics =
  tm_wall :: int
  tm_cpu :: int
  tm_analysis :: int
  tm_execution :: int

record build_metrics =
  bm_actions :: "action_summary option"
  bm_timing :: "timing_metrics option"
  bm_targets :: "int option"
  bm_packages :: "int option"
  bm_heap :: "int option"

section \<open>Extraction\<close>

definition runner_total :: string where "runner_total = ''total''"
definition runner_internal :: string where "runner_internal = ''internal''"
definition runner_disk :: string where "runner_disk = ''disk cache hit''"
definition runner_remote :: string where "runner_remote = ''remote cache hit''"

lemmas runner_names = runner_total_def runner_internal_def runner_disk_def runner_remote_def

record runner_sums =
  s_disk :: int
  s_remote :: int
  s_executed :: int
  s_total :: int
  s_all :: int

text \<open>One turn of the loop over \<open>runner_count\<close>.\<close>

definition add_runner :: "runner_count \<Rightarrow> runner_sums \<Rightarrow> runner_sums" where
  "add_runner rc s =
     (let n = rc_name rc; c = rc_count rc;
          s1 = (if n = runner_total then s\<lparr>s_total := c\<rparr>
                else if n = runner_internal then s
                else if n = runner_disk then s\<lparr>s_disk := wrap64 (s_disk s + c)\<rparr>
                else if n = runner_remote
                then s\<lparr>s_remote := wrap64 (s_remote s + c), s_executed := wrap64 (s_executed s + c)\<rparr>
                else s\<lparr>s_executed := wrap64 (s_executed s + c)\<rparr>)
      in if n \<noteq> runner_total then s1\<lparr>s_all := wrap64 (s_all s1 + c)\<rparr> else s1)"

definition sum_runners :: "runner_count list \<Rightarrow> runner_sums" where
  "sum_runners rcs = foldl (\<lambda>s rc. add_runner rc s) \<lparr>s_disk = 0, s_remote = 0, s_executed = 0, s_total = 0, s_all = 0\<rparr> rcs"

definition to_mnemonic :: "action_data \<Rightarrow> mnemonic" where
  "to_mnemonic a = \<lparr>mn_name = ad_mnemonic a, mn_created = ad_created a, mn_executed = ad_executed a,
     mn_system_ms = dur_milliseconds (ad_system a), mn_user_ms = dur_milliseconds (ad_user a)\<rparr>"

definition extract_actions :: "action_summary \<Rightarrow> mrow \<Rightarrow> mrow" where
  "extract_actions a r =
     (let s = sum_runners (as_runners a) in
      r\<lparr>m_actions_created := as_created a, m_actions_executed := as_executed a,
        m_runners := as_runners a,
        m_disk_hits := s_disk s, m_remote_hits := s_remote s, m_executed := s_executed s,
        m_processes := (if 0 < s_total s then s_total s else s_all s),
        m_mnemonics := map to_mnemonic (as_data a)\<rparr>)"

definition extract_metrics :: "build_metrics option \<Rightarrow> mrow \<Rightarrow> mrow" where
  "extract_metrics bm r =
     (case bm of
        None \<Rightarrow> r
      | Some m \<Rightarrow>
          let r1 = r\<lparr>m_has_metrics := True\<rparr>;
              r2 = (case bm_actions m of None \<Rightarrow> r1 | Some a \<Rightarrow> extract_actions a r1);
              r3 = (case bm_timing m of None \<Rightarrow> r2
                    | Some t \<Rightarrow> r2\<lparr>m_wall_ms := tm_wall t, m_cpu_ms := tm_cpu t,
                                   m_analysis_ms := tm_analysis t, m_exec_ms := tm_execution t\<rparr>);
              r4 = (case bm_targets m of None \<Rightarrow> r3 | Some n \<Rightarrow> r3\<lparr>m_targets := n\<rparr>);
              r5 = (case bm_packages m of None \<Rightarrow> r4 | Some n \<Rightarrow> r4\<lparr>m_packages := n\<rparr>)
          in (case bm_heap m of None \<Rightarrow> r5 | Some n \<Rightarrow> r5\<lparr>m_peak_heap := n\<rparr>))"

text \<open>The ratio is a float quotient of two converted integers.\<close>

definition cache_hit_ratio :: "mrow \<Rightarrow> rat option" where
  "cache_hit_ratio r =
     (let denom = wrap64 (m_disk_hits r + m_executed r) in
      if denom \<le> 0 then None
      else Some (fl64 (fl64 (of_int (m_disk_hits r)) / fl64 (of_int denom))))"

section \<open>The summary line\<close>

text \<open>The digits at the end of a string, walking back.\<close>

definition trailing_digits :: "string \<Rightarrow> string" where
  "trailing_digits s = rev (takeWhile is_digit (rev s))"

definition parse_digits :: "string \<Rightarrow> int" where
  "parse_digits ds = foldl (\<lambda>n c. wrap64 (n * 10 + int (digit_val c))) 0 ds"

definition parse_summary_disk_hits :: "string \<Rightarrow> int option" where
  "parse_summary_disk_hits line =
     (case str_index line ''disk cache hit'' of
        None \<Rightarrow> None
      | Some i \<Rightarrow>
          let digits = trailing_digits (trim_right_set '' '' (take i line))
          in if digits = [] then None else Some (parse_digits digits))"

section \<open>The alert\<close>

record alert_config =
  ac_floor :: rat
  ac_delta :: rat
  ac_min_procs :: int

definition alert_low :: string where "alert_low = ''low_cache_hit''"
definition alert_busting :: string where "alert_busting = ''cache_busting_suspected''"

definition with_defaults :: "alert_config \<Rightarrow> alert_config" where
  "with_defaults c =
     \<lparr>ac_floor = (if ac_floor c = 0 then 1 / 2 else ac_floor c),
      ac_delta = (if ac_delta c = 0 then fl64 (20 / 100) else ac_delta c),
      ac_min_procs = (if ac_min_procs c = 0 then 200 else ac_min_procs c)\<rparr>"

definition median :: "rat list \<Rightarrow> rat option" where
  "median xs =
     (if xs = [] then None
      else let cp = sort xs; n = length cp in
        if n mod 2 = 1 then Some (cp ! (n div 2))
        else Some (fl64 (fl64 (cp ! (n div 2 - 1) + cp ! (n div 2)) / 2)))"

definition evaluate_alert :: "rat \<Rightarrow> int \<Rightarrow> rat list \<Rightarrow> alert_config \<Rightarrow> string" where
  "evaluate_alert ratio procs history cfg0 =
     (let cfg = with_defaults cfg0 in
      if procs < ac_min_procs cfg then []
      else if (case median history of Some b \<Rightarrow> ratio < fl64 (b - ac_delta cfg) | None \<Rightarrow> False) then alert_busting
      else if ratio < ac_floor cfg then alert_low
      else [])"

section \<open>The binding formula\<close>

definition count_of :: "(string \<Rightarrow> bool) \<Rightarrow> runner_count list \<Rightarrow> int" where
  "count_of P rcs = sum_list (map rc_count (filter (\<lambda>rc. P (rc_name rc)) rcs))"

lemma wrap64_add: "wrap64 (wrap64 x + y) = wrap64 (x + y)"
proof -
  have "(wrap64 x + (y + 2 ^ 63)) mod 2 ^ 64 = (x + (y + 2 ^ 63)) mod 2 ^ 64"
    by (rule mod_add_cong [OF wrap64_mod refl])
  then show ?thesis unfolding wrap64_def [of "wrap64 x + y"] wrap64_def [of "x + y"] add.assoc by simp
qed

definition wrapped :: "runner_sums \<Rightarrow> bool" where
  "wrapped s \<longleftrightarrow> in64 (s_disk s) \<and> in64 (s_remote s) \<and> in64 (s_executed s) \<and> in64 (s_all s)"

lemma foldl_add_runner:
  "wrapped s \<Longrightarrow>
   s_disk (foldl (\<lambda>s rc. add_runner rc s) s rcs) = wrap64 (s_disk s + count_of (\<lambda>n. n = runner_disk) rcs) \<and>
   s_remote (foldl (\<lambda>s rc. add_runner rc s) s rcs) = wrap64 (s_remote s + count_of (\<lambda>n. n = runner_remote) rcs) \<and>
   s_executed (foldl (\<lambda>s rc. add_runner rc s) s rcs) =
     wrap64 (s_executed s + count_of (\<lambda>n. n \<notin> {runner_total, runner_internal, runner_disk}) rcs) \<and>
   s_all (foldl (\<lambda>s rc. add_runner rc s) s rcs) = wrap64 (s_all s + count_of (\<lambda>n. n \<noteq> runner_total) rcs)"
proof (induction rcs arbitrary: s)
  case Nil
  then show ?case by (simp add: count_of_def wrapped_def)
next
  case (Cons rc rcs)
  have distinct: "runner_total \<noteq> runner_internal" "runner_total \<noteq> runner_disk" "runner_total \<noteq> runner_remote"
    "runner_internal \<noteq> runner_disk" "runner_internal \<noteq> runner_remote" "runner_disk \<noteq> runner_remote"
    by (simp_all add: runner_names)
  from Cons.prems have "wrapped (add_runner rc s)" by (auto simp: wrapped_def add_runner_def Let_def)
  from Cons.IH [OF this] show ?case
    using distinct Cons.prems by (auto simp: add_runner_def Let_def count_of_def wrap64_add add.assoc wrapped_def)
qed

text \<open>
  The extracted counters follow the binding definition of the header of \<open>metrics.go\<close> in 64-bit
  arithmetic: disk hits are the counts named "disk cache hit", executed runners all counts but those
  named "total", "internal" and "disk cache hit", however the entries are ordered or repeated.
\<close>

theorem extract_binding_formula:
  "let r' = extract_actions a r in
     m_disk_hits r' = wrap64 (count_of (\<lambda>n. n = runner_disk) (as_runners a)) \<and>
     m_remote_hits r' = wrap64 (count_of (\<lambda>n. n = runner_remote) (as_runners a)) \<and>
     m_executed r' = wrap64 (count_of (\<lambda>n. n \<notin> {runner_total, runner_internal, runner_disk}) (as_runners a))"
  using foldl_add_runner [of "\<lparr>s_disk = 0, s_remote = 0, s_executed = 0, s_total = 0, s_all = 0\<rparr>" "as_runners a"]
  by (simp add: extract_actions_def sum_runners_def Let_def wrapped_def in64_def)

lemma count_of_nonneg: "\<forall>rc\<in>set rcs. 0 \<le> rc_count rc \<Longrightarrow> 0 \<le> count_of P rcs"
  by (auto simp: count_of_def intro!: sum_list_nonneg)

lemma count_of_le_all: "\<forall>rc\<in>set rcs. 0 \<le> rc_count rc \<Longrightarrow> (\<And>n. \<not> (P n \<and> Q n)) \<Longrightarrow>
    count_of P rcs + count_of Q rcs \<le> count_of (\<lambda>_. True) rcs"
  by (induction rcs) (auto simp: count_of_def)

text \<open>
  The hit ratio of an extracted row lies between 0 and 1, and it is absent exactly when no disk
  hit and no executed runner was counted, for counts that are not negative and do not overflow.
\<close>

theorem hit_ratio_unit_interval:
  assumes "\<forall>rc\<in>set (as_runners a). 0 \<le> rc_count rc" and "count_of (\<lambda>_. True) (as_runners a) < 2 ^ 63"
  shows "case cache_hit_ratio (extract_actions a r) of
      None \<Rightarrow> count_of (\<lambda>n. n \<notin> {runner_total, runner_internal}) (as_runners a) = 0
    | Some q \<Rightarrow> 0 \<le> q \<and> q \<le> 1"
proof -
  let ?n = "as_runners a" and ?r = "extract_actions a r"
  define D where "D = count_of (\<lambda>n. n = runner_disk) ?n"
  define E where "E = count_of (\<lambda>n. n \<notin> {runner_total, runner_internal, runner_disk}) ?n"
  have nn: "0 \<le> D" "0 \<le> E" using assms(1) by (simp_all add: D_def E_def count_of_nonneg)
  have "D + E \<le> count_of (\<lambda>_. True) ?n" unfolding D_def E_def using assms(1) by (rule count_of_le_all) auto
  with assms(2) have lt: "D + E < 2 ^ 63" by linarith
  have "m_disk_hits ?r = wrap64 D" "m_executed ?r = wrap64 E"
    using foldl_add_runner [of "\<lparr>s_disk = 0, s_remote = 0, s_executed = 0, s_total = 0, s_all = 0\<rparr>" ?n]
    by (simp_all add: extract_actions_def sum_runners_def Let_def wrapped_def in64_def D_def E_def)
  with nn lt have ex: "m_disk_hits ?r = D" "m_executed ?r = E" by (simp_all add: in64_def)
  have sum: "count_of (\<lambda>n. n \<notin> {runner_total, runner_internal}) rcs = count_of (\<lambda>n. n = runner_disk) rcs +
      count_of (\<lambda>n. n \<notin> {runner_total, runner_internal, runner_disk}) rcs" for rcs
    by (induction rcs) (auto simp: count_of_def runner_names)
  have w: "wrap64 (D + E) = D + E" using nn lt by (simp add: in64_def)
  have ratio: "cache_hit_ratio ?r = (if D + E \<le> 0 then None else Some (fl64 (fl64 (of_int D) / fl64 (of_int (D + E)))))"
    unfolding cache_hit_ratio_def ex w Let_def by simp
  show ?thesis
  proof (cases "D + E \<le> 0")
    case True
    with nn have "D + E = 0" by linarith
    with True show ?thesis unfolding ratio by (simp only: sum [of ?n] D_def E_def) simp
  next
    case False
    have "0 \<le> fl64 (of_int D)" "fl64 (of_int D) \<le> fl64 (of_int (D + E))"
      using nn by (auto intro: f64.rnd_nonneg fl64_mono)
    then have "0 \<le> fl64 (of_int D) / fl64 (of_int (D + E))" "fl64 (of_int D) / fl64 (of_int (D + E)) \<le> 1"
      by (auto simp: divide_le_eq_1)
    with False show ?thesis
      unfolding ratio by (simp add: f64.rnd_nonneg f64.rnd_le_1)
  qed
qed

definition demo_summary :: action_summary where
  "demo_summary = \<lparr>as_created = 90, as_executed = 80,
     as_runners = [\<lparr>rc_name = ''total'', rc_kind = [], rc_count = 80\<rparr>,
       \<lparr>rc_name = ''disk cache hit'', rc_kind = [], rc_count = 60\<rparr>,
       \<lparr>rc_name = ''worker'', rc_kind = ''Worker'', rc_count = 20\<rparr>], as_data = []\<rparr>"

theorem hit_ratio_unit_interval_witness:
  "\<exists>q. cache_hit_ratio (extract_actions demo_summary empty_row) = Some q \<and> 0 \<le> q \<and> q \<le> 1"
proof -
  have "cache_hit_ratio (extract_actions demo_summary empty_row) \<noteq> None"
    by (simp add: cache_hit_ratio_def extract_actions_def sum_runners_def add_runner_def demo_summary_def
        runner_names Let_def in64_def)
  moreover have "case cache_hit_ratio (extract_actions demo_summary empty_row) of
      None \<Rightarrow> count_of (\<lambda>n. n \<notin> {runner_total, runner_internal}) (as_runners demo_summary) = 0
    | Some q \<Rightarrow> 0 \<le> q \<and> q \<le> 1"
    by (rule hit_ratio_unit_interval) (simp_all add: demo_summary_def count_of_def)
  ultimately show ?thesis by (auto split: option.splits)
qed

section \<open>Reading the summary line\<close>

lemma index_from_skip:
  "p \<noteq> [] \<Longrightarrow> hd p \<notin> set xs \<Longrightarrow> index_from i (xs @ p @ rest) p = Some (i + length xs)"
proof (induction xs arbitrary: i)
  case Nil
  then show ?case by (cases p) (auto simp: has_prefix_def)
next
  case (Cons x xs)
  then have "\<not> has_prefix (x # xs @ p @ rest) p" by (cases p) (auto simp: has_prefix_def)
  with Cons show ?case by simp
qed

lemma parse_digits_small:
  assumes "\<forall>c\<in>set ds. is_digit c" "int (foldl (\<lambda>n c. n * 10 + digit_val c) k ds) < 2 ^ 63"
  shows "foldl (\<lambda>n c. wrap64 (n * 10 + int (digit_val c))) (int k) ds = int (foldl (\<lambda>n c. n * 10 + digit_val c) k ds)"
  using assms
proof (induction ds arbitrary: k)
  case (Cons d ds)
  have "m \<le> foldl (\<lambda>n c. n * 10 + digit_val c) m ds" for m
  proof (induction ds arbitrary: m)
    case (Cons c cs)
    from Cons.IH [of "m * 10 + digit_val c"] show ?case by simp
  qed simp
  from this [of "k * 10 + digit_val d"] have "int (k * 10 + digit_val d) < 2 ^ 63" using Cons.prems(2) by simp
  then have "wrap64 (int k * 10 + int (digit_val d)) = int (k * 10 + digit_val d)" by (simp add: in64_def)
  with Cons.IH [of "k * 10 + digit_val d"] Cons.prems show ?case by simp
qed simp

lemma trailing_digits_append:
  assumes "\<forall>c\<in>set ds. is_digit c" "pre = [] \<or> \<not> is_digit (last pre)"
  shows "trailing_digits (pre @ ds) = ds"
proof -
  have "takeWhile is_digit (rev ds @ rev pre) = rev ds @ takeWhile is_digit (rev pre)"
    using assms(1) by (intro takeWhile_append2) simp
  moreover have "takeWhile is_digit (rev pre) = []"
    using assms(2) by (cases pre rule: rev_cases) auto
  ultimately show ?thesis by (simp add: trailing_digits_def)
qed

text \<open>
  \<open>ParseSummaryDiskHits\<close> reads back the number that Bazel prints before the words "disk cache
  hit", for every line whose text before the number holds no letter d and does not end in a digit,
  and every number that fits in 63 bits.
\<close>

theorem parse_summary_roundtrip:
  assumes "CHR ''d'' \<notin> set pre" and "pre = [] \<or> \<not> is_digit (last pre)" and "int n < 2 ^ 63"
  shows "parse_summary_disk_hits (pre @ nat_digits n @ '' disk cache hit'' @ rest) = Some (int n)"
proof -
  let ?p = "''disk cache hit''"
  have dig: "\<forall>c\<in>set (nat_digits n). is_digit c" using nat_digits_digits by blast
  then have nd: "CHR ''d'' \<notin> set (nat_digits n)" by (auto simp: is_digit_def)
  have "hd ?p \<notin> set (pre @ nat_digits n @ '' '')" using assms(1) nd by auto
  from index_from_skip [OF _ this, of 0 rest]
  have ix: "str_index (pre @ nat_digits n @ '' disk cache hit'' @ rest) ?p = Some (length (pre @ nat_digits n @ '' ''))"
    by (simp add: str_index_def)
  have "last (nat_digits n) \<noteq> CHR '' ''"
    using bspec [OF dig last_in_set [OF nat_digits_nonempty]] by (auto simp: is_digit_def)
  moreover obtain ds c where "nat_digits n = ds @ [c]" by (metis nat_digits_nonempty rev_exhaust)
  ultimately have "trim_right_set '' '' (pre @ nat_digits n @ '' '') = pre @ nat_digits n"
    by (simp add: trim_right_set_def)
  moreover have "take (length (pre @ nat_digits n @ '' '')) (pre @ nat_digits n @ '' disk cache hit'' @ rest) =
      pre @ nat_digits n @ '' ''" by simp
  ultimately have "parse_summary_disk_hits (pre @ nat_digits n @ '' disk cache hit'' @ rest) =
      Some (parse_digits (nat_digits n))"
    unfolding parse_summary_disk_hits_def ix using trailing_digits_append [OF dig assms(2)] by (simp add: Let_def)
  also have "parse_digits (nat_digits n) = int n"
    using parse_digits_small [OF dig, of 0] dec_val_nat_digits [of n] assms(3) by (simp add: parse_digits_def dec_val_def)
  finally show ?thesis .
qed

theorem parse_summary_roundtrip_witness:
  "parse_summary_disk_hits (''INFO: 25 processes: '' @ nat_digits 17 @ '' disk cache hit'' @ '', 8 worker.'') = Some 17"
  using parse_summary_roundtrip [of "''INFO: 25 processes: ''" 17 "'', 8 worker.''"]
  by (simp add: is_digit_def)

section \<open>The alert\<close>

lemma median_mset: "mset xs = mset ys \<Longrightarrow> median xs = median ys"
  by (auto simp: median_def Let_def dest: mset_eq_length)
     (metis mset_eq_length sorted_list_of_multiset_mset)+

lemma alert_cut: "evaluate_alert ratio procs h cfg \<noteq> [] \<longleftrightarrow>
    ac_min_procs (with_defaults cfg) \<le> procs \<and>
    ((case median h of Some b \<Rightarrow> ratio < fl64 (b - ac_delta (with_defaults cfg)) | None \<Rightarrow> False) \<or>
     ratio < ac_floor (with_defaults cfg))"
  by (auto simp: evaluate_alert_def Let_def alert_low_def alert_busting_def)

text \<open>
  The alert depends on the history only through its multiset, and a lower ratio never silences it:
  if a build of some size is alerted at one ratio, it is alerted at every smaller one.
\<close>

theorem alert_monotone:
  assumes "mset h = mset h'" and "q \<le> p" and "evaluate_alert p procs h cfg \<noteq> []"
  shows "evaluate_alert q procs h' cfg \<noteq> []"
  using assms(2,3) median_mset [OF assms(1)] by (auto simp: alert_cut split: option.splits)

theorem alert_monotone_witness:
  "evaluate_alert (1 / 8) 500 [1 / 2, 1 / 4] \<lparr>ac_floor = 0, ac_delta = 0, ac_min_procs = 0\<rparr> \<noteq> []"
proof (rule alert_monotone)
  show "mset [1 / 4, 1 / 2 :: rat] = mset [1 / 2, 1 / 4]" by (simp add: add_mset_commute)
  show "(1 / 8 :: rat) \<le> 3 / 8" by simp
  show "evaluate_alert (3 / 8) 500 [1 / 4, 1 / 2] \<lparr>ac_floor = 0, ac_delta = 0, ac_min_procs = 0\<rparr> \<noteq> []"
    by (simp add: alert_cut with_defaults_def)
qed

end
