(* ===== verification/Store.thy ===== *)
theory Store
  imports Build_Model Metrics
begin

text \<open>
  The SQLite persistence layer of \<open>internal/store\<close> (\<open>store.go\<close>, \<open>metrics.go\<close>, \<open>schema.sql\<close>,
  \<open>schema_v2.sql\<close>).  A table is the list of its rows under distinct primary keys, in the order in
  which a query without a total order happens to see them; each statement of the source is translated
  to the operation on the rows that its SQL text describes.  Whether the driver executes a statement
  is not under the program's control: the argument \<open>ok\<close> is \<open>False\<close> where it reports an error.

  The \<open>targets\<close> column holds JSON text; it is the list the text decodes to, and \<open>None\<close> for a text that
  does not decode.
\<close>

section \<open>Columns\<close>

definition to_millis :: "gotime \<Rightarrow> int" where
  "to_millis t = (if is_zero t then 0 else unix_milli t)"

definition from_millis :: "int \<Rightarrow> gotime" where
  "from_millis ms = (if ms = 0 then time_zero else time_of_milli ms)"

definition null_str :: "string \<Rightarrow> string option" where
  "null_str s = (if s = [] then None else Some s)"

definition null_int :: "int \<Rightarrow> int option" where
  "null_int v = (if v = 0 then None else Some v)"

definition bool_to_int :: "bool \<Rightarrow> int" where
  "bool_to_int b = (if b then 1 else 0)"

text \<open>\<open>sql.NullString.String\<close> and \<open>sql.NullInt64.Int64\<close>.\<close>

fun of_null_str :: "string option \<Rightarrow> string" where
  "of_null_str None = []"
| "of_null_str (Some s) = s"

fun of_null_int :: "int option \<Rightarrow> int" where
  "of_null_int None = 0"
| "of_null_int (Some v) = v"

record build_row =
  br_worktree :: string
  br_targets :: "string list option"
  br_pid :: int
  br_state :: string
  br_start :: int
  br_end :: int
  br_exit :: int
  br_source :: string

text \<open>The columns of \<open>metrics\<close>; an option is a column that may hold NULL.\<close>

record metrics_row =
  mr_actions_total :: int
  mr_actions_cached :: int
  mr_ratio :: "rat option"
  mr_wall :: int
  mr_json :: "string option"
  mr_worktree :: "string option"
  mr_started :: "int option"
  mr_finished :: "int option"
  mr_exit :: int
  mr_success :: int
  mr_executed_actions :: int
  mr_disk_hits :: int
  mr_remote_hits :: int
  mr_executed :: int
  mr_processes :: int
  mr_cpu :: int
  mr_analysis :: int
  mr_execution :: int
  mr_targets :: int
  mr_packages :: int
  mr_heap :: int
  mr_tests :: int
  mr_tests_failed :: int
  mr_summary :: "string option"
  mr_profile :: "string option"
  mr_bep :: "string option"
  mr_alert :: "string option"

record disk_report =
  dr_taken :: int
  dr_dir :: string
  dr_bytes :: int
  dr_files :: int
  dr_oldest :: int
  dr_freed :: int

text \<open>The child tables are keyed by invocation id and name.\<close>

record store =
  t_builds :: "(string \<times> build_row) list"
  t_metrics :: "(string \<times> metrics_row) list"
  t_runners :: "((string \<times> string) \<times> (string option \<times> int)) list"
  t_mnemonics :: "((string \<times> string) \<times> mnemonic) list"
  t_reports :: "(int \<times> disk_report) list"

definition empty_store :: store where
  "empty_store = \<lparr>t_builds = [], t_metrics = [], t_runners = [], t_mnemonics = [], t_reports = []\<rparr>"

datatype store_error = SqlError | ForeignKey | UniqueKey | BadTargets string

section \<open>Builds\<close>

definition row_of_build :: "build \<Rightarrow> build_row" where
  "row_of_build b =
     \<lparr>br_worktree = b_worktree b, br_targets = Some (b_targets b), br_pid = b_pid b, br_state = b_state b,
      br_start = to_millis (b_start b), br_end = to_millis (b_end b), br_exit = b_exit b, br_source = b_source b\<rparr>"

definition upsert_build :: "bool \<Rightarrow> build \<Rightarrow> store \<Rightarrow> store_error + store" where
  "upsert_build ok b st =
     (if ok then Inr (st\<lparr>t_builds := AList.update (b_id b) (row_of_build b) (t_builds st)\<rparr>) else Inl SqlError)"

definition mark_terminal :: "bool \<Rightarrow> string \<Rightarrow> build_state \<Rightarrow> int \<Rightarrow> gotime \<Rightarrow> store \<Rightarrow> store_error + store" where
  "mark_terminal ok i s ex en st =
     (if \<not> ok then Inl SqlError
      else Inr (case map_of (t_builds st) i of
                  None \<Rightarrow> st
                | Some r \<Rightarrow> st\<lparr>t_builds := AList.update i (r\<lparr>br_state := s, br_exit := ex, br_end := to_millis en\<rparr>)
                                            (t_builds st)\<rparr>))"

definition scan_build :: "string \<Rightarrow> build_row \<Rightarrow> store_error + build" where
  "scan_build i r =
     (case br_targets r of
        None \<Rightarrow> Inl (BadTargets i)
      | Some ts \<Rightarrow> Inr (empty_build\<lparr>b_id := i, b_worktree := br_worktree r, b_targets := ts, b_pid := br_pid r,
                    b_state := br_state r, b_source := br_source r, b_start := from_millis (br_start r),
                    b_end := from_millis (br_end r), b_exit := br_exit r\<rparr>))"

text \<open>The loop over the rows returns at the first row that does not scan.\<close>

fun scan_builds_rows :: "(string \<times> build_row) list \<Rightarrow> store_error + build list" where
  "scan_builds_rows [] = Inr []"
| "scan_builds_rows ((i, r) # rs) =
     (case scan_build i r of
        Inl e \<Rightarrow> Inl e
      | Inr b \<Rightarrow> (case scan_builds_rows rs of Inl e \<Rightarrow> Inl e | Inr bs \<Rightarrow> Inr (b # bs)))"

definition recent_builds :: "bool \<Rightarrow> nat \<Rightarrow> store \<Rightarrow> store_error + build list" where
  "recent_builds ok limit st =
     (if \<not> ok then Inl SqlError
      else scan_builds_rows (take limit (sort_key (\<lambda>(i, r). - br_start r) (t_builds st))))"

definition store_get_build :: "bool \<Rightarrow> string \<Rightarrow> store \<Rightarrow> store_error + build option" where
  "store_get_build ok i st =
     (if \<not> ok then Inl SqlError
      else case map_of (t_builds st) i of
             None \<Rightarrow> Inr None
           | Some r \<Rightarrow> (case scan_build i r of Inl e \<Rightarrow> Inl e | Inr b \<Rightarrow> Inr (Some b)))"

section \<open>Metrics\<close>

definition row_of_metrics :: "mrow \<Rightarrow> string \<Rightarrow> metrics_row" where
  "row_of_metrics r raw =
     \<lparr>mr_actions_total = m_actions_created r, mr_actions_cached = m_disk_hits r, mr_ratio = cache_hit_ratio r,
      mr_wall = m_wall_ms r, mr_json = null_str raw, mr_worktree = null_str (m_worktree r),
      mr_started = null_int (m_started r), mr_finished = null_int (m_finished r), mr_exit = m_exit r,
      mr_success = bool_to_int (m_success r), mr_executed_actions = m_actions_executed r,
      mr_disk_hits = m_disk_hits r, mr_remote_hits = m_remote_hits r, mr_executed = m_executed r,
      mr_processes = m_processes r, mr_cpu = m_cpu_ms r, mr_analysis = m_analysis_ms r,
      mr_execution = m_exec_ms r, mr_targets = m_targets r, mr_packages = m_packages r,
      mr_heap = m_peak_heap r, mr_tests = m_tests r, mr_tests_failed = m_tests_failed r,
      mr_summary = null_str (m_summary r), mr_profile = null_str (m_profile_path r),
      mr_bep = null_str (m_bep_path r), mr_alert = null_str (m_alert r)\<rparr>"

text \<open>A child insert fails where its key is taken.\<close>

fun insert_children :: "string \<Rightarrow> ('a \<Rightarrow> string) \<Rightarrow> ('a \<Rightarrow> 'b) \<Rightarrow> 'a list \<Rightarrow> ((string \<times> string) \<times> 'b) list
    \<Rightarrow> store_error + ((string \<times> string) \<times> 'b) list" where
  "insert_children i name val [] t = Inr t"
| "insert_children i name val (x # xs) t =
     (if map_of t (i, name x) \<noteq> None then Inl UniqueKey
      else insert_children i name val xs (t @ [((i, name x), val x)]))"

definition delete_children :: "string \<Rightarrow> ((string \<times> string) \<times> 'b) list \<Rightarrow> ((string \<times> string) \<times> 'b) list" where
  "delete_children i t = filter (\<lambda>((j, n), v). j \<noteq> i) t"

text \<open>
  The transaction: on any error nothing of it stays.  The driver enforces foreign keys, so a row
  without its build is refused.
\<close>

definition upsert_metrics :: "bool \<Rightarrow> mrow \<Rightarrow> string \<Rightarrow> store \<Rightarrow> store_error + store" where
  "upsert_metrics ok r raw st =
     (if \<not> ok then Inl SqlError
      else if map_of (t_builds st) (m_id r) = None then Inl ForeignKey
      else case insert_children (m_id r) rc_name (\<lambda>rc. (null_str (rc_kind rc), rc_count rc)) (m_runners r)
                  (delete_children (m_id r) (t_runners st)) of
             Inl e \<Rightarrow> Inl e
           | Inr rs \<Rightarrow>
               (case insert_children (m_id r) mn_name id (m_mnemonics r) (delete_children (m_id r) (t_mnemonics st)) of
                  Inl e \<Rightarrow> Inl e
                | Inr ms \<Rightarrow> Inr (st\<lparr>t_metrics := AList.update (m_id r) (row_of_metrics r raw) (t_metrics st),
                                    t_runners := rs, t_mnemonics := ms\<rparr>)))"

definition runners_of :: "string \<Rightarrow> store \<Rightarrow> runner_count list" where
  "runners_of i st =
     map (\<lambda>((j, n), (k, c)). \<lparr>rc_name = n, rc_kind = of_null_str k, rc_count = c\<rparr>)
       (sort_key (\<lambda>((j, n), v). n) (filter (\<lambda>((j, n), v). j = i) (t_runners st)))"

definition mnemonics_of :: "string \<Rightarrow> store \<Rightarrow> mnemonic list" where
  "mnemonics_of i st =
     map snd (sort_key (\<lambda>((j, n), v). n) (filter (\<lambda>((j, n), v). j = i) (t_mnemonics st)))"

definition get_metrics :: "bool \<Rightarrow> string \<Rightarrow> store \<Rightarrow> store_error + (mrow \<times> string) option" where
  "get_metrics ok i st =
     (if \<not> ok then Inl SqlError
      else case map_of (t_metrics st) i of
        None \<Rightarrow> Inr None
      | Some m \<Rightarrow> Inr (Some (empty_row\<lparr>m_id := i, m_has_metrics := True,
          m_actions_created := mr_actions_total m, m_actions_executed := mr_executed_actions m,
          m_disk_hits := mr_disk_hits m, m_remote_hits := mr_remote_hits m, m_executed := mr_executed m,
          m_processes := mr_processes m, m_wall_ms := mr_wall m, m_cpu_ms := mr_cpu m,
          m_analysis_ms := mr_analysis m, m_exec_ms := mr_execution m, m_targets := mr_targets m,
          m_packages := mr_packages m, m_peak_heap := mr_heap m, m_tests := mr_tests m,
          m_tests_failed := mr_tests_failed m, m_worktree := of_null_str (mr_worktree m),
          m_started := of_null_int (mr_started m), m_finished := of_null_int (mr_finished m),
          m_exit := mr_exit m, m_success := (mr_success m = 1),
          m_has_finish := (mr_finished m \<noteq> None \<and> of_null_int (mr_finished m) \<noteq> 0),
          m_summary := of_null_str (mr_summary m), m_profile_path := of_null_str (mr_profile m),
          m_bep_path := of_null_str (mr_bep m), m_alert := of_null_str (mr_alert m),
          m_runners := runners_of i st, m_mnemonics := mnemonics_of i st\<rparr>, of_null_str (mr_json m))))"

text \<open>\<open>COALESCE(finished_at, started_at, 0)\<close>.\<close>

definition metrics_time :: "metrics_row \<Rightarrow> int" where
  "metrics_time m = (case mr_finished m of Some t \<Rightarrow> t | None \<Rightarrow> (case mr_started m of Some t \<Rightarrow> t | None \<Rightarrow> 0))"

definition newest_metrics :: "(string \<times> metrics_row) list \<Rightarrow> (string \<times> metrics_row) list" where
  "newest_metrics t = sort_key (\<lambda>(i, m). - metrics_time m) t"

definition summary_of :: "string \<Rightarrow> metrics_row \<Rightarrow> mrow" where
  "summary_of i m =
     empty_row\<lparr>m_id := i, m_has_metrics := True, m_actions_created := mr_actions_total m,
       m_actions_executed := mr_executed_actions m, m_disk_hits := mr_disk_hits m,
       m_remote_hits := mr_remote_hits m, m_executed := mr_executed m, m_processes := mr_processes m,
       m_wall_ms := mr_wall m, m_worktree := of_null_str (mr_worktree m),
       m_started := of_null_int (mr_started m), m_finished := of_null_int (mr_finished m), m_exit := mr_exit m,
       m_success := (mr_success m = 1),
       m_has_finish := (mr_finished m \<noteq> None \<and> of_null_int (mr_finished m) \<noteq> 0),
       m_summary := of_null_str (mr_summary m), m_alert := of_null_str (mr_alert m)\<rparr>"

definition list_metrics :: "bool \<Rightarrow> int \<Rightarrow> store \<Rightarrow> store_error + mrow list" where
  "list_metrics ok limit st =
     (if \<not> ok then Inl SqlError
      else Inr (map (\<lambda>(i, m). summary_of i m)
                 (take (nat (if limit \<le> 0 then 50 else limit)) (newest_metrics (t_metrics st)))))"

text \<open>A NULL worktree equals no string.\<close>

definition recent_ratios :: "bool \<Rightarrow> string \<Rightarrow> string \<Rightarrow> int \<Rightarrow> store \<Rightarrow> store_error + rat list" where
  "recent_ratios ok wt skip n st =
     (if \<not> ok then Inl SqlError
      else Inr (map (\<lambda>(i, m). the (mr_ratio m))
                 (take (nat (if n \<le> 0 then 10 else n))
                   (newest_metrics (filter (\<lambda>(i, m). mr_worktree m = Some wt \<and> i \<noteq> skip \<and> mr_ratio m \<noteq> None)
                                      (t_metrics st))))))"

section \<open>Disk-cache reports\<close>

definition insert_disk_report :: "bool \<Rightarrow> disk_report \<Rightarrow> store \<Rightarrow> store_error + store" where
  "insert_disk_report ok r st =
     (if ok then Inr (st\<lparr>t_reports := AList.update (dr_taken r) r (t_reports st)\<rparr>) else Inl SqlError)"

definition latest_disk_report :: "bool \<Rightarrow> store \<Rightarrow> store_error + disk_report option" where
  "latest_disk_report ok st =
     (if \<not> ok then Inl SqlError
      else Inr (case sort_key (\<lambda>(t, r). - t) (t_reports st) of [] \<Rightarrow> None | (t, r) # _ \<Rightarrow> Some r))"

section \<open>Keyed tables\<close>

text \<open>What the rest of the broker relies on when it writes a row under a key and looks it up again.\<close>

locale keyed_table =
  fixes lookup :: "'s \<Rightarrow> 'k \<Rightarrow> 'v option"
    and put :: "'k \<Rightarrow> 'v \<Rightarrow> 's \<Rightarrow> 's"
  assumes lookup_put: "lookup (put k v s) = (lookup s)(k \<mapsto> v)"
begin

definition put_all :: "('k \<times> 'v) list \<Rightarrow> 's \<Rightarrow> 's" where
  "put_all kvs s = foldl (\<lambda>s (k, v). put k v s) s kvs"

lemma lookup_put_all: "lookup (put_all kvs s) = lookup s ++ map_of (rev kvs)"
  by (induction kvs arbitrary: s) (auto simp: put_all_def lookup_put)

lemma put_twice: "lookup (put k v (put k u s)) = lookup (put k v s)"
  by (simp add: lookup_put)

end

definition build_at :: "store \<Rightarrow> string \<Rightarrow> build_row option" where
  "build_at st i = map_of (t_builds st) i"

definition put_build :: "string \<Rightarrow> build_row \<Rightarrow> store \<Rightarrow> store" where
  "put_build i r st = st\<lparr>t_builds := AList.update i r (t_builds st)\<rparr>"

interpretation builds_table: keyed_table build_at put_build
  by unfold_locales (simp add: build_at_def put_build_def fun_eq_iff update_conv')

interpretation reports_table: keyed_table "\<lambda>st t. map_of (t_reports st) t"
    "\<lambda>t r st. st\<lparr>t_reports := AList.update t r (t_reports st)\<rparr>"
  by unfold_locales (simp add: fun_eq_iff update_conv')

lemma upsert_build_put: "upsert_build True b st = Inr (put_build (b_id b) (row_of_build b) st)"
  by (simp add: upsert_build_def put_build_def)

section \<open>Round trips\<close>

text \<open>What a restart gives back of a build.\<close>

definition persisted :: "build \<Rightarrow> build" where
  "persisted b =
     empty_build\<lparr>b_id := b_id b, b_worktree := b_worktree b, b_targets := b_targets b, b_pid := b_pid b,
       b_state := b_state b, b_source := b_source b, b_start := from_millis (to_millis (b_start b)),
       b_end := from_millis (to_millis (b_end b)), b_exit := b_exit b\<rparr>"

lemma scan_row_of_build: "scan_build (b_id b) (row_of_build b) = Inr (persisted b)"
  by (simp add: scan_build_def row_of_build_def persisted_def)

lemma millis_roundtrip:
  "from_millis (to_millis t) =
     (if is_zero t \<or> unix_milli t = 0 then time_zero else t - (t - unix_epoch) mod 1000000)"
  by (auto simp: from_millis_def to_millis_def time_of_milli_def unix_milli_def minus_mod_eq_div_mult [symmetric])

text \<open>
  A build that was upserted is read back with its identity, worktree, targets, pid, state, exit code
  and source unchanged and its times cut to the millisecond.  The display name, command, paths and
  metrics are not persisted, and a time within the first millisecond of 1970 comes back as "not set".
\<close>

theorem build_roundtrip:
  "(case upsert_build True b st of
      Inl e \<Rightarrow> False
    | Inr st' \<Rightarrow> store_get_build True (b_id b) st' = Inr (Some (persisted b))) \<and>
   b_start (persisted b) =
     (if is_zero (b_start b) \<or> unix_milli (b_start b) = 0 then time_zero
      else b_start b - (b_start b - unix_epoch) mod 1000000)"
proof
  show "case upsert_build True b st of
      Inl e \<Rightarrow> False
    | Inr st' \<Rightarrow> store_get_build True (b_id b) st' = Inr (Some (persisted b))"
    by (simp add: upsert_build_def store_get_build_def update_conv' scan_row_of_build)
qed (simp add: persisted_def millis_roundtrip)

lemma scan_rows_ok:
  "\<forall>(i, r)\<in>set rs. br_targets r \<noteq> None \<Longrightarrow> \<exists>bs. scan_builds_rows rs = Inr bs \<and> map b_id bs = map fst rs"
  by (induction rs) (auto simp: scan_build_def split: option.splits)

text \<open>
  Boot hydration reads the newest builds.  \<open>RecentBuilds\<close> returns at most the limit, newest first,
  and every build it leaves out started no later than every build it returns.
\<close>

theorem recent_builds_newest:
  assumes "\<forall>(i, r)\<in>set (t_builds st). br_targets r \<noteq> None" and "distinct (map fst (t_builds st))"
  shows "\<exists>rs rest bs. recent_builds True n st = Inr bs \<and> map b_id bs = map fst rs \<and> length bs = min n (length (t_builds st)) \<and>
     mset (rs @ rest) = mset (t_builds st) \<and> sorted (map (\<lambda>(i, r). - br_start r) (rs @ rest))"
proof -
  let ?s = "sort_key (\<lambda>(i, r). - br_start r) (t_builds st)"
  have "\<forall>(i, r)\<in>set (take n ?s). br_targets r \<noteq> None"
    using assms(1) set_take_subset [of n ?s] by (auto simp del: set_take_subset)
  from scan_rows_ok [OF this] obtain bs where
    "scan_builds_rows (take n ?s) = Inr bs" and ids: "map b_id bs = map fst (take n ?s)" by blast
  then have "recent_builds True n st = Inr bs" by (simp add: recent_builds_def)
  moreover have "length bs = min n (length (t_builds st))" using ids by (metis length_map length_sort length_take min.commute)
  moreover have "mset (take n ?s @ drop n ?s) = mset (t_builds st)" by (simp only: append_take_drop_id mset_sort)
  moreover have "sorted (map (\<lambda>(i, r). - br_start r) (take n ?s @ drop n ?s))"
    by (simp only: append_take_drop_id sorted_sort_key)
  ultimately show ?thesis using ids by blast
qed

definition two_builds :: store where
  "two_builds = put_build ''a'' (row_of_build (empty_build\<lparr>b_id := ''a'', b_start := unix_epoch + 7 * second\<rparr>))
     (put_build ''b'' (row_of_build (empty_build\<lparr>b_id := ''b'', b_start := unix_epoch + 9 * second\<rparr>)) empty_store)"

theorem recent_builds_newest_witness: "\<exists>bs. recent_builds True 1 two_builds = Inr bs \<and> length bs = 1"
proof -
  have "\<forall>(i, r)\<in>set (t_builds two_builds). br_targets r \<noteq> None" "distinct (map fst (t_builds two_builds))"
    by (simp_all add: two_builds_def put_build_def empty_store_def row_of_build_def)
  from recent_builds_newest [OF this, of 1] show ?thesis
    by (auto simp: two_builds_def put_build_def empty_store_def)
qed

section \<open>Metrics\<close>

lemma insert_children_ok:
  assumes "distinct (map name xs)" "\<And>x. x \<in> set xs \<Longrightarrow> map_of t (i, name x) = None"
  shows "insert_children i name val xs t = Inr (t @ map (\<lambda>x. ((i, name x), val x)) xs)"
  using assms
proof (induction xs arbitrary: t)
  case (Cons x xs)
  have "map_of (t @ [((i, name x), val x)]) (i, name y) = None" if "y \<in> set xs" for y
    using that Cons.prems(1) Cons.prems(2) [of y] by (auto simp: map_add_def image_iff split: option.splits)
  with Cons show ?case by simp
qed simp

lemma insert_children_fail:
  "\<not> distinct (map name xs) \<Longrightarrow> insert_children i name val xs t = Inl UniqueKey"
proof (induction xs arbitrary: t)
  case (Cons x xs)
  have taken: "map_of t (i, name y) \<noteq> None \<Longrightarrow> y \<in> set xs \<Longrightarrow> insert_children i name val xs t = Inl UniqueKey" for t y xs
    by (induction xs arbitrary: t) (auto simp: map_add_def split: option.splits)
  show ?case
  proof (cases "name x \<in> name ` set xs")
    case True
    then obtain y where "y \<in> set xs" "name y = name x" by auto
    then show ?thesis
      using taken [of "t @ [((i, name x), val x)]" y xs] by (auto simp: map_add_def split: option.splits)
  qed (use Cons in auto)
qed simp

lemma map_of_deleted: "map_of (delete_children i t) (i, n) = None"
  by (auto simp: delete_children_def map_of_eq_None_iff)

lemma children_replaced:
  "insert_children i name val xs (delete_children i t) =
     (if distinct (map name xs) then Inr (delete_children i t @ map (\<lambda>x. ((i, name x), val x)) xs) else Inl UniqueKey)"
  by (simp add: insert_children_ok insert_children_fail map_of_deleted)

lemma delete_children_replaced:
  "delete_children i (delete_children i t @ map (\<lambda>x. ((i, name x), val x)) xs) = delete_children i t"
  by (auto simp: delete_children_def filter_empty_conv)

lemma upsert_metrics_eq:
  "upsert_metrics ok r raw st =
     (if \<not> ok then Inl SqlError
      else if map_of (t_builds st) (m_id r) = None then Inl ForeignKey
      else if \<not> distinct (map rc_name (m_runners r)) \<or> \<not> distinct (map mn_name (m_mnemonics r)) then Inl UniqueKey
      else Inr (st\<lparr>t_metrics := AList.update (m_id r) (row_of_metrics r raw) (t_metrics st),
        t_runners := delete_children (m_id r) (t_runners st) @
          map (\<lambda>rc. ((m_id r, rc_name rc), (null_str (rc_kind rc), rc_count rc))) (m_runners r),
        t_mnemonics := delete_children (m_id r) (t_mnemonics st) @
          map (\<lambda>m. ((m_id r, mn_name m), m)) (m_mnemonics r)\<rparr>))"
  by (simp add: upsert_metrics_def children_replaced)

text \<open>
  Saving metrics succeeds exactly when the driver works, the build is known and no runner or
  mnemonic name occurs twice; saving the same row again changes nothing.  A row with a repeated runner
  name, which the extraction accepts and adds up, is lost as a whole.
\<close>

theorem upsert_metrics_succeeds_iff:
  "(\<exists>st'. upsert_metrics ok r raw st = Inr st') \<longleftrightarrow>
     ok \<and> m_id r \<in> fst ` set (t_builds st) \<and> distinct (map rc_name (m_runners r)) \<and> distinct (map mn_name (m_mnemonics r))"
  by (auto simp: upsert_metrics_eq map_of_eq_None_iff)

lemma update_same: "map_of xs k = Some v \<Longrightarrow> AList.update k v xs = xs"
  by (induction xs) auto

text \<open>What \<open>GetMetrics\<close> gives back of a row.\<close>

definition stored_row :: "mrow \<Rightarrow> mrow" where
  "stored_row r =
     r\<lparr>m_has_metrics := True, m_has_finish := (m_finished r \<noteq> 0),
       m_runners := sort_key rc_name (m_runners r), m_mnemonics := sort_key mn_name (m_mnemonics r)\<rparr>"

lemma of_null [simp]: "of_null_str (null_str s) = s" "of_null_int (null_int v) = v"
  "null_int v = None \<longleftrightarrow> v = 0"
  by (simp_all add: null_str_def null_int_def)

lemma filter_children:
  "filter (\<lambda>((j, n), v). j = i) (delete_children i t @ map (\<lambda>x. ((i, name x), val x)) xs) =
     map (\<lambda>x. ((i, name x), val x)) xs"
  by (auto simp: delete_children_def filter_empty_conv)

lemma insort_key_map: "insort_key f (g x) (map g ys) = map g (insort_key (\<lambda>x. f (g x)) x ys)"
  by (induction ys) auto

lemma sort_key_map: "sort_key f (map g xs) = map g (sort_key (\<lambda>x. f (g x)) xs)"
  by (induction xs) (auto simp: insort_key_map)

lemma runner_eta [simp]: "\<lparr>rc_name = rc_name x, rc_kind = rc_kind x, rc_count = rc_count x\<rparr> = (x :: runner_count)"
  by (cases x) simp

lemma bool_to_int_1 [simp]: "bool_to_int b = 1 \<longleftrightarrow> b"
  by (simp add: bool_to_int_def)

lemma saved_metrics:
  assumes "upsert_metrics True r raw st = Inr st'"
  shows "get_metrics True (m_id r) st' = Inr (Some (stored_row r, raw)) \<and> upsert_metrics True r raw st' = Inr st'"
proof -
  let ?i = "m_id r"
  from assms have ok: "map_of (t_builds st) ?i \<noteq> None" "distinct (map rc_name (m_runners r))" "distinct (map mn_name (m_mnemonics r))"
    and st': "st' = st\<lparr>t_metrics := AList.update ?i (row_of_metrics r raw) (t_metrics st),
        t_runners := delete_children ?i (t_runners st) @
          map (\<lambda>rc. ((?i, rc_name rc), (null_str (rc_kind rc), rc_count rc))) (m_runners r),
        t_mnemonics := delete_children ?i (t_mnemonics st) @ map (\<lambda>m. ((?i, mn_name m), m)) (m_mnemonics r)\<rparr>"
    by (auto simp: upsert_metrics_eq split: if_splits)
  have "runners_of ?i st' = sort_key rc_name (m_runners r)"
    by (simp add: runners_of_def st' filter_children sort_key_map o_def del: filter_append)
  moreover have "mnemonics_of ?i st' = sort_key mn_name (m_mnemonics r)"
    by (simp add: mnemonics_of_def st' filter_children sort_key_map o_def del: filter_append)
  moreover have "map_of (t_metrics st') ?i = Some (row_of_metrics r raw)"
    by (simp add: st' update_conv')
  ultimately have "get_metrics True ?i st' = Inr (Some (stored_row r, raw))"
    by (simp add: get_metrics_def row_of_metrics_def stored_row_def empty_row_def)
  moreover have "upsert_metrics True r raw st' = Inr st'"
    unfolding upsert_metrics_eq using ok
    by (simp add: st' delete_children_replaced update_same update_conv')
  ultimately show ?thesis ..
qed

text \<open>
  Metrics that were saved are read back: every field of the row survives, empty strings and zero
  times included; only \<open>HasMetrics\<close> becomes true, \<open>HasFinish\<close> is recomputed from the finish time, and
  the runner counts and mnemonics come back sorted by name.  Saving the row again changes nothing.
\<close>

theorem metrics_roundtrip:
  assumes "upsert_metrics True r raw st = Inr st'"
  shows "get_metrics True (m_id r) st' = Inr (Some (stored_row r, raw)) \<and> upsert_metrics True r raw st' = Inr st'"
  using assms by (rule saved_metrics)

definition one_build :: store where
  "one_build = put_build ''a'' (row_of_build (empty_build\<lparr>b_id := ''a''\<rparr>)) empty_store"

theorem metrics_roundtrip_witness:
  "\<exists>st'. upsert_metrics True (empty_row\<lparr>m_id := ''a'', m_finished := 7\<rparr>) ''{}'' one_build = Inr st' \<and>
     get_metrics True ''a'' st' = Inr (Some (stored_row (empty_row\<lparr>m_id := ''a'', m_finished := 7\<rparr>), ''{}''))"
proof -
  let ?r = "empty_row\<lparr>m_id := ''a'', m_finished := 7\<rparr>"
  obtain st' where st': "upsert_metrics True ?r ''{}'' one_build = Inr st'"
    by (simp add: upsert_metrics_eq one_build_def put_build_def empty_store_def empty_row_def)
  from metrics_roundtrip [OF st'] st' show ?thesis by auto
qed

end
