(* ===== verification/Registry.thy ===== *)
theory Registry
  imports Hub Store
begin

text \<open>
  The build registry of \<open>internal/registry/registry.go\<close>: the map of builds with its operations, the
  write-through to the store and the broadcast of build events.

  Each operation changes the map under the write lock and publishes (persists and broadcasts) a copy
  of the changed build after it has released the lock.  The \<open>..._core\<close> functions are the locked parts;
  the operation itself is the core followed by the publication.  A range over the map takes the
  entries in the order of the list, which Go leaves open.
\<close>

section \<open>State\<close>

type_synonym builds = "(string \<times> build) list"

record 'm registry =
  rg_builds :: builds
  rg_store :: "store option"
  rg_hub :: "'m event hub option"
  rg_seq :: nat

record counts =
  c_building :: nat
  c_queued :: nat
  c_total :: nat

datatype registry_error = MissingId | MissingWorktree | MissingIdOrPid | StoreFailed store_error

definition new_registry :: "store option \<Rightarrow> 'm event hub option \<Rightarrow> 'm registry" where
  "new_registry st h = \<lparr>rg_builds = [], rg_store = st, rg_hub = h, rg_seq = 0\<rparr>"

section \<open>Publishing\<close>

definition persist :: "bool \<Rightarrow> build \<Rightarrow> 'm registry \<Rightarrow> 'm registry" where
  "persist ok b rg =
     (case rg_store rg of
        None \<Rightarrow> rg
      | Some st \<Rightarrow> (case upsert_build ok b st of Inl e \<Rightarrow> rg | Inr st' \<Rightarrow> rg\<lparr>rg_store := Some st'\<rparr>))"

definition broadcast_build :: "build \<Rightarrow> gotime \<Rightarrow> 'm registry \<Rightarrow> 'm registry" where
  "broadcast_build b now rg =
     (case rg_hub rg of
        None \<Rightarrow> rg
      | Some h \<Rightarrow> rg\<lparr>rg_seq := Suc (rg_seq rg), rg_hub := Some (broadcast (build_event (Suc (rg_seq rg)) b now) h)\<rparr>)"

definition rg_broadcast :: "'m event \<Rightarrow> gotime \<Rightarrow> 'm registry \<Rightarrow> 'm registry" where
  "rg_broadcast ev now rg =
     (case rg_hub rg of
        None \<Rightarrow> rg
      | Some h \<Rightarrow>
          let ev' = ev\<lparr>ev_seq := Suc (rg_seq rg), ev_ts := (if ev_ts ev = [] then format_time now else ev_ts ev)\<rparr>
          in rg\<lparr>rg_seq := Suc (rg_seq rg), rg_hub := Some (broadcast ev' h)\<rparr>)"

definition publish :: "bool \<Rightarrow> gotime \<Rightarrow> build \<Rightarrow> 'm registry \<Rightarrow> 'm registry" where
  "publish ok now b rg = broadcast_build b now (persist ok b rg)"

section \<open>Register and deregister\<close>

definition register_core :: "build \<Rightarrow> gotime \<Rightarrow> builds \<Rightarrow> registry_error + build \<times> builds" where
  "register_core b now bs =
     (if b_id b = [] then Inl MissingId
      else if b_worktree b = [] then Inl MissingWorktree
      else
        let s0 = (case map_of bs (b_id b) of None \<Rightarrow> empty_build\<lparr>b_id := b_id b, b_start := now\<rparr> | Some s \<Rightarrow> s);
            s1 = s0\<lparr>b_worktree := b_worktree b\<rparr>;
            s2 = (if b_targets b \<noteq> [] then s1\<lparr>b_targets := b_targets b\<rparr> else s1);
            s3 = (if b_pid b \<noteq> 0 then s2\<lparr>b_pid := b_pid b\<rparr> else s2);
            s4 = (if b_source b \<noteq> [] then s3\<lparr>b_source := b_source b\<rparr>
                  else if b_source s3 = [] then s3\<lparr>b_source := source_registered\<rparr> else s3);
            s5 = (if \<not> is_terminal (b_state s4) then s4\<lparr>b_state := state_running\<rparr> else s4)
        in Inr (s5, AList.update (b_id b) s5 bs))"

definition rg_register :: "bool \<Rightarrow> build \<Rightarrow> gotime \<Rightarrow> 'm registry \<Rightarrow> (registry_error + build) \<times> 'm registry" where
  "rg_register ok b now rg =
     (case register_core b now (rg_builds rg) of
        Inl e \<Rightarrow> (Inl e, rg)
      | Inr (s, bs) \<Rightarrow> (Inr s, publish ok now s (rg\<lparr>rg_builds := bs\<rparr>)))"

text \<open>The second component is \<open>False\<close> where the call is a no-op success and publishes nothing.\<close>

definition deregister_core :: "string \<Rightarrow> int \<Rightarrow> gotime \<Rightarrow> builds \<Rightarrow> registry_error + build option \<times> bool \<times> builds" where
  "deregister_core i ex now bs =
     (if i = [] then Inl MissingId
      else case map_of bs i of
        None \<Rightarrow> Inr (None, False, bs)
      | Some s \<Rightarrow>
          if is_terminal (b_state s) then Inr (Some s, False, bs)
          else let s' = s\<lparr>b_state := (if ex = 0 then state_finished else state_failed), b_exit := ex, b_end := now\<rparr>
               in Inr (Some s', True, AList.update i s' bs))"

definition rg_deregister :: "bool \<Rightarrow> string \<Rightarrow> int \<Rightarrow> gotime \<Rightarrow> 'm registry \<Rightarrow> (registry_error + build option) \<times> 'm registry" where
  "rg_deregister ok i ex now rg =
     (case deregister_core i ex now (rg_builds rg) of
        Inl e \<Rightarrow> (Inl e, rg)
      | Inr (s, changed, bs) \<Rightarrow>
          (Inr s, if changed then publish ok now (the s) (rg\<lparr>rg_builds := bs\<rparr>) else rg))"

section \<open>Discovery: upsert and reap\<close>

definition by_pid :: "int \<Rightarrow> builds \<Rightarrow> build option" where
  "by_pid pid bs = map_option snd (List.find (\<lambda>(i, b). b_pid b = pid) bs)"

definition upsert_match :: "build \<Rightarrow> builds \<Rightarrow> build option" where
  "upsert_match b bs =
     (case (if b_pid b \<noteq> 0 then by_pid (b_pid b) bs else None) of
        Some s \<Rightarrow> Some s
      | None \<Rightarrow> if b_id b \<noteq> [] then map_of bs (b_id b) else None)"

definition pid_id :: "int \<Rightarrow> string" where
  "pid_id pid = ''pid-'' @ itoa pid"

definition upsert_fresh :: "build \<Rightarrow> gotime \<Rightarrow> build" where
  "upsert_fresh b now =
     empty_build\<lparr>b_id := (if b_id b = [] then pid_id (b_pid b) else b_id b), b_start := now,
       b_source := source_discovered, b_state := state_running\<rparr>"

definition upsert_merge :: "build \<Rightarrow> build \<Rightarrow> build" where
  "upsert_merge b s =
     s\<lparr>b_worktree := (if b_worktree b \<noteq> [] then b_worktree b else b_worktree s),
       b_worktree_name := (if b_worktree_name b \<noteq> [] then b_worktree_name b else b_worktree_name s),
       b_command := (if b_command b \<noteq> [] then b_command b else b_command s),
       b_targets := (if b_targets b \<noteq> [] \<and> b_source s \<noteq> source_registered then b_targets b else b_targets s),
       b_pid := (if b_pid b \<noteq> 0 then b_pid b else b_pid s),
       b_exe := (if b_exe b \<noteq> [] then b_exe b else b_exe s),
       b_cwd := (if b_cwd b \<noteq> [] then b_cwd b else b_cwd s),
       b_git_dir := (if b_git_dir b \<noteq> [] then b_git_dir b else b_git_dir s),
       b_ratio := (if b_ratio b \<noteq> None then b_ratio b else b_ratio s),
       b_profile := (if b_profile b \<noteq> [] then b_profile b else b_profile s)\<rparr>"

definition upsert_lifecycle :: "build \<Rightarrow> gotime \<Rightarrow> build \<Rightarrow> build" where
  "upsert_lifecycle b now s =
     (if b_state b \<noteq> [] \<and> b_state b \<noteq> state_running \<and> \<not> is_terminal (b_state s)
      then s\<lparr>b_state := b_state b,
             b_exit := (if b_exit b \<noteq> 0 then b_exit b else b_exit s),
             b_end := (if \<not> is_zero (b_end b) then b_end b else if is_zero (b_end s) then now else b_end s)\<rparr>
      else s)"

definition upsert_core :: "build \<Rightarrow> gotime \<Rightarrow> builds \<Rightarrow> registry_error + build \<times> builds" where
  "upsert_core b now bs =
     (if b_id b = [] \<and> b_pid b = 0 then Inl MissingIdOrPid
      else
        let s0 = (case upsert_match b bs of None \<Rightarrow> upsert_fresh b now | Some s \<Rightarrow> s);
            s = (upsert_lifecycle b now (upsert_merge b s0))\<lparr>b_seen := now\<rparr>
        in Inr (s, AList.update (b_id s) s bs))"

definition rg_upsert :: "bool \<Rightarrow> build \<Rightarrow> gotime \<Rightarrow> 'm registry \<Rightarrow> (registry_error + build) \<times> 'm registry" where
  "rg_upsert ok b now rg =
     (case upsert_core b now (rg_builds rg) of
        Inl e \<Rightarrow> (Inl e, rg)
      | Inr (s, bs) \<Rightarrow> (Inr s, publish ok now s (rg\<lparr>rg_builds := bs\<rparr>)))"

definition reapable :: "int set \<Rightarrow> build \<Rightarrow> bool" where
  "reapable seen b \<longleftrightarrow>
     b_source b = source_discovered \<and> \<not> is_terminal (b_state b) \<and> b_pid b \<noteq> 0 \<and> b_pid b \<notin> seen"

definition mark_gone :: "gotime \<Rightarrow> build \<Rightarrow> build" where
  "mark_gone now b = b\<lparr>b_state := state_gone, b_end := now\<rparr>"

definition reap_core :: "int set \<Rightarrow> gotime \<Rightarrow> builds \<Rightarrow> build list \<times> builds" where
  "reap_core seen now bs =
     (map (mark_gone now) (filter (reapable seen) (map snd bs)),
      map (\<lambda>(i, b). (i, if reapable seen b then mark_gone now b else b)) bs)"

definition rg_reap :: "bool \<Rightarrow> int set \<Rightarrow> gotime \<Rightarrow> 'm registry \<Rightarrow> 'm registry" where
  "rg_reap ok seen now rg =
     (let (reaped, bs) = reap_core seen now (rg_builds rg)
      in foldl (\<lambda>rg b. publish ok now b rg) (rg\<lparr>rg_builds := bs\<rparr>) reaped)"

section \<open>Boot\<close>

definition hydrate_build :: "gotime \<Rightarrow> build \<Rightarrow> build" where
  "hydrate_build now b =
     (if is_terminal (b_state b) then b
      else b\<lparr>b_state := state_gone, b_end := (if is_zero (b_end b) then now else b_end b)\<rparr>)"

definition hydrate :: "bool \<Rightarrow> nat \<Rightarrow> gotime \<Rightarrow> 'm registry \<Rightarrow> (registry_error + unit) \<times> 'm registry" where
  "hydrate ok n now rg =
     (case rg_store rg of
        None \<Rightarrow> (Inr (), rg)
      | Some st \<Rightarrow>
          (case recent_builds ok n st of
             Inl e \<Rightarrow> (Inl (StoreFailed e), rg)
           | Inr bs \<Rightarrow>
               (Inr (), rg\<lparr>rg_builds := foldl (\<lambda>m b. AList.update (b_id b) (hydrate_build now b) m) (rg_builds rg) bs\<rparr>)))"

section \<open>Queries\<close>

definition rg_snapshot :: "'m registry \<Rightarrow> build list" where
  "rg_snapshot rg = sort_key (\<lambda>b. - b_start b) (map snd (rg_builds rg))"

definition snapshot_api :: "gotime \<Rightarrow> 'm registry \<Rightarrow> api_build list" where
  "snapshot_api now rg = rev (sort_key a_start (map (\<lambda>(i, b). to_api b now) (rg_builds rg)))"

definition rg_get :: "string \<Rightarrow> 'm registry \<Rightarrow> build option" where
  "rg_get i rg = map_of (rg_builds rg) i"

definition count_build :: "counts \<Rightarrow> build \<Rightarrow> counts" where
  "count_build c b =
     (let c1 = c\<lparr>c_total := c_total c + 1\<rparr> in
      if b_state b = state_queued then c1\<lparr>c_queued := c_queued c1 + 1\<rparr>
      else if \<not> is_terminal (b_state b) then c1\<lparr>c_building := c_building c1 + 1\<rparr> else c1)"

definition rg_counts :: "'m registry \<Rightarrow> counts" where
  "rg_counts rg =
     foldl count_build \<lparr>c_building = 0, c_queued = 0, c_total = 0\<rparr> (map snd (rg_builds rg))"

definition find_by_pid :: "int \<Rightarrow> 'm registry \<Rightarrow> build option" where
  "find_by_pid pid rg = by_pid pid (rg_builds rg)"

end
