(* ===== verification/Registry_Props.thy ===== *)
theory Registry_Props
  imports Registry
begin

text \<open>
  The properties of the registry: the keys of the map, finality of terminal states, what a restart recovers, and the
  store as a mirror of the map when operations overlap and writes fail.  The
  facts about every operation go through \<open>writes\<close>: the map after an operation is the map before it
  overwritten with the builds it publishes.
\<close>

section \<open>The map\<close>

definition keyed :: "builds \<Rightarrow> bool" where
  "keyed bs \<longleftrightarrow> distinct (map fst bs) \<and> (\<forall>(i, b)\<in>set bs. b_id b = i)"

lemma keyed_lookup: "keyed bs \<Longrightarrow> map_of bs i = Some b \<Longrightarrow> b_id b = i"
  by (auto simp: keyed_def dest: map_of_SomeD)

lemma keyedI: "distinct (map fst bs) \<Longrightarrow> (\<And>i b. map_of bs i = Some b \<Longrightarrow> b_id b = i) \<Longrightarrow> keyed bs"
  by (auto simp: keyed_def)

lemma keyed_update:
  assumes "keyed bs" "b_id b = i" shows "keyed (AList.update i b bs)"
proof (rule keyedI)
  show "distinct (map fst (AList.update i b bs))" using assms(1) by (simp add: keyed_def)
  show "b_id c = j" if "map_of (AList.update i b bs) j = Some c" for j c
    using that assms(2) keyed_lookup [OF assms(1), of j c] by (cases "j = i") (auto simp: update_conv')
qed

lemma find_in_set: "List.find P xs = Some x \<Longrightarrow> x \<in> set xs \<and> P x"
  by (auto simp: find_Some_iff)

lemma by_pid_lookup:
  assumes "keyed bs" "by_pid p bs = Some s" shows "map_of bs (b_id s) = Some s" "b_pid s = p"
proof -
  from assms(2) obtain i where "(i, s) \<in> set bs" "b_pid s = p"
    by (auto simp: by_pid_def dest!: find_in_set)
  with assms(1) show "map_of bs (b_id s) = Some s" "b_pid s = p"
    by (auto simp: keyed_def in_set_alist_iff [symmetric])
qed

text \<open>
  The code looks for the pid in a map, in an order of its own at each call; \<open>by_pid\<close> takes the first entry.  With one
  record for the pid the order does not matter.
\<close>

lemma by_pid_unique:
  assumes "map_of bs i = Some b" and "b_pid b = p" and "\<And>j c. (j, c) \<in> set bs \<Longrightarrow> b_pid c = p \<Longrightarrow> c = b"
  shows "by_pid p bs = Some b"
proof (cases "List.find (\<lambda>(i, b). b_pid b = p) bs")
  case None
  with map_of_SomeD [OF assms(1)] assms(2) show ?thesis by (auto simp: find_None_iff)
next
  case (Some e)
  with find_in_set [OF Some] assms(3) show ?thesis by (cases e) (auto simp: by_pid_def)
qed

text \<open>The published copies, as the entries they leave in the map.\<close>

definition writes :: "build list \<Rightarrow> builds" where
  "writes ws = map (\<lambda>b. (b_id b, b)) ws"

lemma register_writes:
  assumes "keyed bs" "register_core b now bs = Inr (s, bs')"
  shows "b_id s = b_id b" "bs' = AList.update (b_id s) s bs"
proof -
  have "b_id (case map_of bs (b_id b) of None \<Rightarrow> empty_build\<lparr>b_id := b_id b, b_start := now\<rparr> | Some s \<Rightarrow> s) = b_id b"
    using keyed_lookup [OF assms(1)] by (auto split: option.splits)
  with assms(2) show "b_id s = b_id b" "bs' = AList.update (b_id s) s bs"
    by (auto simp: register_core_def Let_def split: if_splits)
qed

lemma deregister_writes:
  assumes "keyed bs" "deregister_core i ex now bs = Inr (s, c, bs')"
  shows "if c then \<exists>b. s = Some b \<and> b_id b = i \<and> bs' = AList.update (b_id b) b bs else bs' = bs"
  using assms keyed_lookup [OF assms(1)] by (auto simp: deregister_core_def Let_def split: if_splits option.splits)

lemma upsert_writes:
  "upsert_core b now bs = Inr (s, bs') \<Longrightarrow> bs' = AList.update (b_id s) s bs"
  by (auto simp: upsert_core_def Let_def split: if_splits)

lemma reap_keyed: "keyed bs \<Longrightarrow> keyed (snd (reap_core seen now bs))"
  by (auto simp: keyed_def reap_core_def mark_gone_def o_def split_beta)

lemma reap_lookup:
  "map_of (snd (reap_core seen now bs)) i =
     map_option (\<lambda>b. if reapable seen b then mark_gone now b else b) (map_of bs i)"
  by (induction bs) (auto simp: reap_core_def)

lemma map_of_writes_filter:
  "keyed bs \<Longrightarrow> (\<And>b. b_id (f b) = b_id b) \<Longrightarrow>
     map_of (writes (map f (filter P (map snd bs)))) i =
       (case map_of bs i of None \<Rightarrow> None | Some b \<Rightarrow> if P b then Some (f b) else None)"
proof (induction bs)
  case (Cons e bs)
  obtain j b where e: "e = (j, b)" by (cases e)
  from Cons.prems have k: "keyed bs" "b_id b = j" "map_of bs j = None"
    by (auto simp: keyed_def e map_of_eq_None_iff)
  from Cons.IH [OF k(1) Cons.prems(2)] k show ?case
    by (auto simp: e writes_def Cons.prems(2) split: option.splits)
qed (simp add: writes_def)

lemma distinct_writes:
  "keyed bs \<Longrightarrow> (\<And>b. b_id (f b) = b_id b) \<Longrightarrow> distinct (map fst (writes (map f (filter P (map snd bs)))))"
proof (induction bs)
  case (Cons e bs)
  obtain j b where e: "e = (j, b)" by (cases e)
  from Cons.prems have k: "keyed bs" "b_id b = j" "j \<notin> fst ` set bs"
    by (auto simp: keyed_def e)
  have "b_id c \<noteq> j" if "(a, c) \<in> set bs" for a c
    using that k(1,3) by (force simp: keyed_def)
  with Cons.IH [OF k(1) Cons.prems(2)] Cons.prems(2) k(2) show ?case
    by (fastforce simp: e writes_def o_def)
qed (simp add: writes_def)

lemma map_of_rev_distinct: "distinct (map fst xs) \<Longrightarrow> map_of (rev xs) = map_of xs"
  using map_of_inject_set [of "rev xs" xs] by (simp add: rev_map [symmetric])

lemma reap_writes:
  assumes "keyed bs" "reap_core seen now bs = (ws, bs')"
  shows "map_of bs' = map_of bs ++ map_of (rev (writes ws))"
proof -
  have ws: "ws = map (mark_gone now) (filter (reapable seen) (map snd bs))" and bs': "bs' = snd (reap_core seen now bs)"
    using assms(2) by (auto simp: reap_core_def)
  have id: "b_id (mark_gone now b) = b_id b" for b by (simp add: mark_gone_def)
  have "distinct (map fst (writes ws))" unfolding ws by (rule distinct_writes [OF assms(1) id])
  then have "map_of (rev (writes ws)) i = (case map_of bs i of None \<Rightarrow> None
      | Some b \<Rightarrow> if reapable seen b then Some (mark_gone now b) else None)" for i
    using map_of_writes_filter [OF assms(1), of "mark_gone now" "reapable seen" i] id
    by (simp add: ws map_of_rev_distinct)
  then show ?thesis by (auto simp: fun_eq_iff bs' reap_lookup map_add_def split: option.splits)
qed

section \<open>Runs\<close>

datatype reg_op =
    RegisterOp build gotime
  | DeregisterOp string int gotime
  | UpsertOp build gotime
  | ReapOp "int set" gotime

fun reg_apply :: "bool \<Rightarrow> reg_op \<Rightarrow> 'm registry \<Rightarrow> 'm registry" where
  "reg_apply ok (RegisterOp b now) rg = snd (rg_register ok b now rg)"
| "reg_apply ok (DeregisterOp i ex now) rg = snd (rg_deregister ok i ex now rg)"
| "reg_apply ok (UpsertOp b now) rg = snd (rg_upsert ok b now rg)"
| "reg_apply ok (ReapOp seen now) rg = rg_reap ok seen now rg"

text \<open>
  Whole operations one after the other, each with the outcome of its writes.  The lock, the write and the
  broadcast of an operation are separate steps at the end of this theory.
\<close>

definition reg_run :: "(bool \<times> reg_op) list \<Rightarrow> 'm registry \<Rightarrow> 'm registry" where
  "reg_run ops rg = foldl (\<lambda>rg (ok, a). reg_apply ok a rg) rg ops"

text \<open>What an operation publishes, at which time, and the map it leaves.\<close>

fun op_time :: "reg_op \<Rightarrow> gotime" where
  "op_time (RegisterOp b now) = now"
| "op_time (DeregisterOp i ex now) = now"
| "op_time (UpsertOp b now) = now"
| "op_time (ReapOp seen now) = now"

fun op_core :: "reg_op \<Rightarrow> builds \<Rightarrow> build list \<times> builds" where
  "op_core (RegisterOp b now) bs = (case register_core b now bs of Inl e \<Rightarrow> ([], bs) | Inr (s, bs') \<Rightarrow> ([s], bs'))"
| "op_core (DeregisterOp i ex now) bs =
     (case deregister_core i ex now bs of
        Inl e \<Rightarrow> ([], bs) | Inr (s, c, bs') \<Rightarrow> if c then ([the s], bs') else ([], bs))"
| "op_core (UpsertOp b now) bs = (case upsert_core b now bs of Inl e \<Rightarrow> ([], bs) | Inr (s, bs') \<Rightarrow> ([s], bs'))"
| "op_core (ReapOp seen now) bs = reap_core seen now bs"

definition publish_all :: "bool \<Rightarrow> gotime \<Rightarrow> build list \<Rightarrow> 'm registry \<Rightarrow> 'm registry" where
  "publish_all ok now ws rg = foldl (\<lambda>rg b. publish ok now b rg) rg ws"

lemma reg_apply_core:
  "reg_apply ok a rg =
     (let (ws, bs) = op_core a (rg_builds rg) in publish_all ok (op_time a) ws (rg\<lparr>rg_builds := bs\<rparr>))"
  by (cases a)
     (auto simp: rg_register_def rg_deregister_def rg_upsert_def rg_reap_def publish_all_def deregister_core_def
        Let_def split: sum.splits option.splits)

lemma publish_builds [simp]: "rg_builds (publish ok now b rg) = rg_builds rg"
  by (auto simp: publish_def persist_def broadcast_build_def split: option.splits sum.splits)

lemma publish_all_builds [simp]: "rg_builds (publish_all ok now ws rg) = rg_builds rg"
  by (induction ws arbitrary: rg) (simp_all add: publish_all_def)

lemma apply_builds: "rg_builds (reg_apply ok a rg) = snd (op_core a (rg_builds rg))"
  by (simp add: reg_apply_core split_beta)

lemma update_writes: "map_of (AList.update (b_id b) b bs) = map_of bs ++ map_of (rev (writes [b]))"
  by (simp add: writes_def fun_eq_iff update_conv')

lemma core_writes:
  assumes "keyed bs" "op_core a bs = (ws, bs')"
  shows "map_of bs' = map_of bs ++ map_of (rev (writes ws)) \<and> keyed bs'"
proof (cases a)
  case (RegisterOp b now)
  show ?thesis
  proof (cases "register_core b now bs")
    case (Inr r)
    then obtain s c where r: "register_core b now bs = Inr (s, c)" by (cases r) auto
    from register_writes [OF assms(1) r] have "bs' = AList.update (b_id s) s bs" "ws = [s]"
      using assms(2) RegisterOp r by auto
    then show ?thesis by (simp add: update_writes keyed_update assms(1))
  qed (use assms RegisterOp in \<open>simp add: writes_def\<close>)
next
  case (DeregisterOp i ex now)
  show ?thesis
  proof (cases "deregister_core i ex now bs")
    case (Inr r)
    then obtain s c bs2 where r: "deregister_core i ex now bs = Inr (s, c, bs2)" by (cases r) auto
    with assms DeregisterOp deregister_writes [OF assms(1) r] show ?thesis
      by (cases c) (auto simp: update_writes keyed_update writes_def)
  qed (use assms DeregisterOp in \<open>simp add: writes_def\<close>)
next
  case (UpsertOp b now)
  show ?thesis
  proof (cases "upsert_core b now bs")
    case (Inr r)
    then obtain s c where r: "upsert_core b now bs = Inr (s, c)" by (cases r) auto
    from upsert_writes [OF r] have "bs' = AList.update (b_id s) s bs" "ws = [s]"
      using assms(2) UpsertOp r by auto
    then show ?thesis by (simp add: update_writes keyed_update assms(1))
  qed (use assms UpsertOp in \<open>simp add: writes_def\<close>)
next
  case (ReapOp seen now)
  with assms reap_writes [OF assms(1)] reap_keyed [OF assms(1), of seen now] show ?thesis by simp
qed

lemma keyed_apply: "keyed (rg_builds rg) \<Longrightarrow> keyed (rg_builds (reg_apply ok a rg))"
  using core_writes [of "rg_builds rg" a] by (simp add: apply_builds) (metis prod.collapse)

lemma keyed_run: "keyed (rg_builds rg) \<Longrightarrow> keyed (rg_builds (reg_run ops rg))"
  by (induction ops arbitrary: rg) (auto simp: reg_run_def keyed_apply)

section \<open>Terminal states are final\<close>

definition settled :: "build \<Rightarrow> build \<Rightarrow> bool" where
  "settled b b' \<longleftrightarrow> b_state b' = b_state b \<and> b_exit b' = b_exit b \<and> b_end b' = b_end b \<and> b_start b' = b_start b"

lemma settled_refl: "settled b b"
  by (simp add: settled_def)

lemma upsert_settled:
  "is_terminal (b_state s) \<Longrightarrow> settled s ((upsert_lifecycle b now (upsert_merge b s))\<lparr>b_seen := now\<rparr>)"
  by (simp add: settled_def upsert_lifecycle_def upsert_merge_def)

lemma upsert_id [simp]: "b_id ((upsert_lifecycle b now (upsert_merge b s))\<lparr>b_seen := now\<rparr>) = b_id s"
  by (simp add: upsert_lifecycle_def upsert_merge_def)

lemma upsert_match_lookup:
  assumes "keyed bs" "upsert_match b bs = Some s" shows "map_of bs (b_id s) = Some s"
proof (cases "b_pid b \<noteq> 0 \<and> by_pid (b_pid b) bs \<noteq> None")
  case True
  with assms(2) have "by_pid (b_pid b) bs = Some s" by (auto simp: upsert_match_def)
  then show ?thesis by (rule by_pid_lookup(1) [OF assms(1)])
next
  case False
  with assms(2) have "map_of bs (b_id b) = Some s" by (auto simp: upsert_match_def split: if_splits)
  with keyed_lookup [OF assms(1) this] show ?thesis by simp
qed

text \<open>
  Ids of the form \<open>pid-N\<close> are made up by \<open>Upsert\<close> for a process without an invocation id.  They belong
  to the process \<open>N\<close> as long as no client registers under such an id.
\<close>

definition pid_named :: "builds \<Rightarrow> bool" where
  "pid_named bs \<longleftrightarrow> (\<forall>i b. map_of bs i = Some b \<longrightarrow> (\<forall>p. i = pid_id p \<longrightarrow> b_pid b = p))"

fun plain_op :: "reg_op \<Rightarrow> bool" where
  "plain_op (RegisterOp b now) \<longleftrightarrow> \<not> has_prefix (b_id b) ''pid-''"
| "plain_op (UpsertOp b now) \<longleftrightarrow> \<not> has_prefix (b_id b) ''pid-''"
| "plain_op _ \<longleftrightarrow> True"

lemma pid_id_prefix [simp]: "has_prefix (pid_id p) ''pid-''"
  by (simp add: pid_id_def has_prefix_def)

lemma pid_id_inject [simp]: "pid_id p = pid_id q \<longleftrightarrow> p = q"
  by (simp add: pid_id_def)

lemma by_pid_None: "by_pid p bs = None \<Longrightarrow> map_of bs i = Some b \<Longrightarrow> b_pid b \<noteq> p"
  by (force simp: by_pid_def find_None_iff dest: map_of_SomeD)

lemma fresh_id_free:
  assumes "pid_named bs" "upsert_match b bs = None" "b_id b \<noteq> [] \<or> b_pid b \<noteq> 0"
  shows "map_of bs (b_id (upsert_fresh b now)) = None"
proof (cases "b_id b = []")
  case True
  with assms(2,3) have n: "by_pid (b_pid b) bs = None" "b_pid b \<noteq> 0"
    by (auto simp: upsert_match_def split: option.splits)
  show ?thesis
  proof (cases "map_of bs (pid_id (b_pid b))")
    case (Some c)
    with assms(1) have "b_pid c = b_pid b" by (auto simp: pid_named_def)
    with by_pid_None [OF n(1) Some] show ?thesis by simp
  qed (simp add: upsert_fresh_def True)
next
  case False
  with assms(2) show ?thesis by (auto simp: upsert_match_def upsert_fresh_def split: option.splits if_splits)
qed

lemma core_settled:
  assumes "keyed bs" "pid_named bs" "map_of bs i = Some b" "is_terminal (b_state b)"
  shows "\<exists>b'. map_of (snd (op_core a bs)) i = Some b' \<and> settled b b'"
proof (cases a)
  case (RegisterOp c now)
  show ?thesis
  proof (cases "b_id c = i")
    case True
    with assms RegisterOp show ?thesis
      by (auto simp: register_core_def Let_def update_conv' settled_def)
  next
    case False
    with assms(3) RegisterOp show ?thesis
      by (auto simp: register_core_def Let_def update_conv' settled_refl)
  qed
next
  case (DeregisterOp j ex now)
  with assms show ?thesis
    by (auto simp: deregister_core_def Let_def update_conv' settled_refl split: option.splits)
next
  case (UpsertOp c now)
  show ?thesis
  proof (cases "b_id c = [] \<and> b_pid c = 0")
    case True
    with assms(3) UpsertOp show ?thesis by (simp add: upsert_core_def settled_refl)
  next
    case False
    show ?thesis
    proof (cases "upsert_match c bs")
      case None
      with fresh_id_free [OF assms(2) None, of now] False assms(3) UpsertOp show ?thesis
        by (auto simp: upsert_core_def Let_def update_conv' settled_refl)
    next
      case (Some s)
      with upsert_match_lookup [OF assms(1) Some] assms UpsertOp False show ?thesis
        using upsert_settled [of s, where b = c and now = now]
        by (cases "b_id s = i") (auto simp: upsert_core_def Let_def update_conv' settled_refl)
    qed
  qed
next
  case (ReapOp seen now)
  with assms show ?thesis by (simp add: reap_lookup reapable_def settled_refl)
qed

lemma core_pid_named:
  assumes "keyed bs" "pid_named bs" "plain_op a" shows "pid_named (snd (op_core a bs))"
proof (cases a)
  case (RegisterOp c now)
  with assms(2,3) show ?thesis
    by (auto simp: pid_named_def register_core_def Let_def update_conv' split: if_splits)
next
  case (DeregisterOp j ex now)
  with assms(2) show ?thesis
    by (auto simp: pid_named_def deregister_core_def Let_def update_conv' split: option.splits if_splits)
next
  case (UpsertOp c now)
  have pid: "b_pid ((upsert_lifecycle c now (upsert_merge c s))\<lparr>b_seen := now\<rparr>) = (if b_pid c \<noteq> 0 then b_pid c else b_pid s)" for s
    by (simp add: upsert_lifecycle_def upsert_merge_def)
  show ?thesis
  proof (cases "b_id c = [] \<and> b_pid c = 0")
    case True
    with assms(2) UpsertOp show ?thesis by (simp add: upsert_core_def)
  next
    case False
    show ?thesis
    proof (cases "upsert_match c bs")
      case None
      with False assms(2,3) UpsertOp show ?thesis
        by (auto simp: pid_named_def upsert_core_def Let_def update_conv' upsert_fresh_def pid split: if_splits)
    next
      case (Some s)
      have "b_pid s = p \<and> (b_pid c \<noteq> 0 \<longrightarrow> b_pid c = p)" if "b_id s = pid_id p" for p
      proof -
        have l: "map_of bs (b_id s) = Some s" by (rule upsert_match_lookup [OF assms(1) Some])
        with that assms(2) have "b_pid s = p" by (simp add: pid_named_def)
        moreover have "b_pid c = b_pid s" if "b_pid c \<noteq> 0"
        proof (cases "by_pid (b_pid c) bs")
          case None
          with Some that have "map_of bs (b_id c) = Some s" by (auto simp: upsert_match_def split: if_splits)
          from keyed_lookup [OF assms(1) this] \<open>b_id s = pid_id p\<close> have "b_id c = pid_id p" by simp
          with pid_id_prefix [of p] assms(3) UpsertOp show ?thesis by simp
        next
          case (Some r)
          with \<open>upsert_match c bs = Some s\<close> that have "by_pid (b_pid c) bs = Some s" by (simp add: upsert_match_def)
          from by_pid_lookup(2) [OF assms(1) this] show ?thesis by simp
        qed
        ultimately show ?thesis by simp
      qed
      with Some False assms(2) UpsertOp show ?thesis
        by (auto simp: pid_named_def upsert_core_def Let_def update_conv' pid split: if_splits)
    qed
  qed
next
  case (ReapOp seen now)
  with assms(2) show ?thesis by (auto simp: pid_named_def reap_lookup mark_gone_def)
qed

text \<open>
  A terminal state is final.  Whatever registrations, deregistrations, discovery passes and reaps
  follow, a build that has finished, failed, been killed or gone keeps its state, exit code, start and
  end time, as long as no client uses an id of the form \<open>pid-N\<close>.
\<close>

theorem terminal_is_final:
  assumes "keyed (rg_builds rg)" and "pid_named (rg_builds rg)" and "\<forall>(ok, a)\<in>set ops. plain_op a"
    and "rg_get i rg = Some b" and "is_terminal (b_state b)"
  shows "\<exists>b'. rg_get i (reg_run ops rg) = Some b' \<and> b_state b' = b_state b \<and> b_exit b' = b_exit b \<and>
    b_end b' = b_end b \<and> b_start b' = b_start b"
  using assms
proof (induction ops arbitrary: rg b)
  case (Cons e ops)
  obtain ok a where e: "e = (ok, a)" by (cases e)
  let ?rg = "reg_apply ok a rg"
  from core_settled [OF Cons.prems(1,2), of i b a] Cons.prems(4,5)
  obtain c where c: "rg_get i ?rg = Some c" "settled b c" by (auto simp: rg_get_def apply_builds)
  moreover have "keyed (rg_builds ?rg)" "pid_named (rg_builds ?rg)"
    using Cons.prems keyed_apply core_pid_named e by (auto simp: apply_builds)
  ultimately show ?case
    using Cons.IH [of ?rg c] Cons.prems(3,5) e by (auto simp: reg_run_def settled_def)
qed (simp add: reg_run_def)

text \<open>
  An id of that form in the hands of a client breaks it.  A build registered as \<open>pid-7\<close> that has ended is replaced when
  discovery finds the process 7: no record has the pid, so a new one is stored under the made-up id.
\<close>

theorem client_pid_id_overwritten:
  "let rg0 = new_registry None None :: unit registry;
       rg1 = snd (rg_register True (empty_build\<lparr>b_id := ''pid-7'', b_worktree := ''/w''\<rparr>) 1 rg0);
       rg2 = snd (rg_deregister True ''pid-7'' 3 2 rg1);
       rg3 = snd (rg_upsert True (empty_build\<lparr>b_pid := 7, b_worktree := ''/v''\<rparr>) 4 rg2)
   in map_option (\<lambda>b. (b_state b, b_exit b, b_worktree b)) (rg_get ''pid-7'' rg2) = Some (state_failed, 3, ''/w'') \<and>
      map_option (\<lambda>b. (b_state b, b_exit b, b_worktree b)) (rg_get ''pid-7'' rg3) = Some (state_running, 0, ''/v'')"
proof -
  have p: "pid_id 7 = ''pid-7''" by code_simp
  let ?new = "new_registry None None :: unit registry"
  let ?rg = "\<lambda>b. ?new\<lparr>rg_builds := [(''pid-7'', b)]\<rparr>"
  let ?c = "empty_build\<lparr>b_id := ''pid-7'', b_worktree := ''/w''\<rparr>" and ?d = "empty_build\<lparr>b_pid := 7, b_worktree := ''/v''\<rparr>"
  let ?b = "?c\<lparr>b_start := 1, b_source := source_registered, b_state := state_running\<rparr>"
  let ?f = "?b\<lparr>b_state := state_failed, b_exit := 3, b_end := 2\<rparr>"
  let ?s = "?d\<lparr>b_id := ''pid-7'', b_start := 4, b_source := source_discovered, b_state := state_running, b_seen := 4\<rparr>"
  have "register_core ?c 1 [] = Inr (?b, [(''pid-7'', ?b)])"
    by (simp add: register_core_def Let_def empty_build_def)
  then have 1: "snd (rg_register True ?c 1 ?new) = ?rg ?b"
    by (simp add: rg_register_def publish_def persist_def broadcast_build_def new_registry_def)
  have "deregister_core ''pid-7'' 3 2 [(''pid-7'', ?b)] = Inr (Some ?f, True, [(''pid-7'', ?f)])"
    by (simp add: deregister_core_def Let_def state_defs is_terminal_def)
  then have 2: "snd (rg_deregister True ''pid-7'' 3 2 (?rg ?b)) = ?rg ?f"
    by (simp add: rg_deregister_def publish_def persist_def broadcast_build_def new_registry_def)
  have "upsert_core ?d 4 [(''pid-7'', ?f)] = Inr (?s, [(''pid-7'', ?s)])"
    by (simp add: upsert_core_def upsert_match_def by_pid_def upsert_fresh_def p upsert_merge_def upsert_lifecycle_def empty_build_def Let_def)
  then have 3: "snd (rg_upsert True ?d 4 (?rg ?f)) = ?rg ?s"
    by (simp add: rg_upsert_def publish_def persist_def broadcast_build_def new_registry_def)
  show ?thesis unfolding Let_def 1 2 3 rg_get_def by (simp, simp add: empty_build_def)
qed

definition finished_build :: build where
  "finished_build = empty_build\<lparr>b_id := ''a'', b_worktree := ''/w'', b_pid := 5, b_state := state_finished, b_exit := 0\<rparr>"

definition one_finished :: "unit registry" where
  "one_finished = \<lparr>rg_builds = [(''a'', finished_build)], rg_store = None, rg_hub = None, rg_seq = 0\<rparr>"

theorem terminal_is_final_witness:
  "\<exists>b'. rg_get ''a'' (reg_run [(True, UpsertOp (empty_build\<lparr>b_pid := 5, b_state := state_killed\<rparr>) 9), (False, DeregisterOp ''a'' 3 10),
       (True, RegisterOp finished_build 11)] one_finished) = Some b' \<and> b_state b' = state_finished"
proof -
  have "keyed (rg_builds one_finished)" by (simp add: one_finished_def keyed_def finished_build_def)
  moreover have "pid_named (rg_builds one_finished)"
    by (auto simp: one_finished_def pid_named_def pid_id_def)
  moreover have "rg_get ''a'' one_finished = Some finished_build" by (simp add: rg_get_def one_finished_def)
  moreover have "is_terminal (b_state finished_build)" by (simp add: finished_build_def)
  moreover have "\<forall>(ok, a)\<in>set [(True, UpsertOp (empty_build\<lparr>b_pid := 5, b_state := state_killed\<rparr>) 9), (False, DeregisterOp ''a'' 3 10),
       (True, RegisterOp finished_build 11)]. plain_op a"
    by (simp add: empty_build_def finished_build_def has_prefix_def)
  ultimately show ?thesis
    using terminal_is_final [of one_finished "[(True, UpsertOp (empty_build\<lparr>b_pid := 5, b_state := state_killed\<rparr>) 9),
       (False, DeregisterOp ''a'' 3 10), (True, RegisterOp finished_build 11)]" "''a''" finished_build]
    by (auto simp: finished_build_def)
qed

section \<open>The store mirrors the map\<close>

interpretation alist_table: keyed_table "\<lambda>xs. map_of xs" AList.update
  by unfold_locales (simp add: fun_eq_iff update_conv')

lemma publish_store:
  "rg_store rg = Some st \<Longrightarrow> rg_store (publish True now b rg) = Some (put_build (b_id b) (row_of_build b) st)"
  by (simp add: publish_def persist_def broadcast_build_def upsert_build_put split: option.splits)

definition row_writes :: "build list \<Rightarrow> (string \<times> build_row) list" where
  "row_writes ws = map (\<lambda>b. (b_id b, row_of_build b)) ws"

lemma publish_all_store:
  "rg_store rg = Some st \<Longrightarrow> rg_store (publish_all True now ws rg) = Some (builds_table.put_all (row_writes ws) st)"
  by (induction ws arbitrary: rg st)
     (simp_all add: publish_all_def publish_store builds_table.put_all_def row_writes_def)

definition mirrors :: "store \<Rightarrow> builds \<Rightarrow> bool" where
  "mirrors st bs \<longleftrightarrow> build_at st = (\<lambda>i. map_option row_of_build (map_of bs i)) \<and> distinct (map fst (t_builds st))"

lemma map_of_row_writes: "map_of (rev (row_writes ws)) i = map_option row_of_build (map_of (rev (writes ws)) i)"
proof -
  have "map_of (map (\<lambda>b. (b_id b, row_of_build b)) ws) i = map_option row_of_build (map_of (map (\<lambda>b. (b_id b, b)) ws) i)" for ws
    by (induction ws) auto
  from this [of "rev ws"] show ?thesis by (simp add: row_writes_def writes_def rev_map)
qed

lemma put_all_distinct:
  "distinct (map fst (t_builds st)) \<Longrightarrow> distinct (map fst (t_builds (builds_table.put_all kvs st)))"
  by (induction kvs arbitrary: st) (auto simp: builds_table.put_all_def put_build_def)

lemma mirrors_apply:
  assumes "keyed (rg_builds rg)" "rg_store rg = Some st" "mirrors st (rg_builds rg)"
  shows "\<exists>st'. rg_store (reg_apply True a rg) = Some st' \<and> mirrors st' (rg_builds (reg_apply True a rg))"
proof -
  obtain ws bs where c: "op_core a (rg_builds rg) = (ws, bs)" by fastforce
  let ?st = "builds_table.put_all (row_writes ws) st"
  from core_writes [OF assms(1) c] have m: "map_of bs = map_of (rg_builds rg) ++ map_of (rev (writes ws))" by simp
  have "rg_store (reg_apply True a rg) = Some ?st"
    using publish_all_store [of "rg\<lparr>rg_builds := bs\<rparr>" st "op_time a" ws] assms(2) by (simp add: reg_apply_core c)
  moreover have "mirrors ?st bs"
    using assms(3) put_all_distinct [of st "row_writes ws"]
    by (auto simp: mirrors_def builds_table.lookup_put_all m map_of_row_writes map_add_def fun_eq_iff split: option.splits)
  ultimately show ?thesis by (simp add: apply_builds c)
qed

lemma keyed_new [simp]: "keyed (rg_builds (new_registry st h))"
  by (simp add: new_registry_def keyed_def)

lemma mirrors_new: "mirrors empty_store (rg_builds (new_registry st h))"
  by (simp add: mirrors_def new_registry_def empty_store_def build_at_def fun_eq_iff)

section \<open>Restart\<close>

lemma scan_mirrored:
  assumes "\<forall>(i, r)\<in>set rs. \<exists>b. m i = Some b \<and> r = row_of_build b \<and> b_id b = i"
  shows "scan_builds_rows rs = Inr (map (\<lambda>(i, r). persisted (the (m i))) rs)"
  using assms
proof (induction rs)
  case (Cons e rs)
  obtain i r where e: "e = (i, r)" by (cases e)
  with Cons.prems obtain b where "m i = Some b" "r = row_of_build b" "b_id b = i" by auto
  with Cons scan_row_of_build [of b] show ?case by (simp add: e)
qed simp

lemma persisted_id [simp]: "b_id (persisted b) = b_id b"
  by (simp add: persisted_def)

lemma map_of_key_map: "map_of (map (\<lambda>(i, r). (i, g i)) rs) i = (if i \<in> fst ` set rs then Some (g i) else None)"
  by (induction rs) auto

definition newest :: "nat \<Rightarrow> store \<Rightarrow> (string \<times> build_row) list" where
  "newest n st = take n (sort_key (\<lambda>(i, r). - br_start r) (t_builds st))"

lemma newest_rows: "e \<in> set (newest n st) \<Longrightarrow> e \<in> set (t_builds st)"
  by (auto simp: newest_def dest: in_set_takeD)

lemma hydrate_rows:
  assumes "distinct (map fst (t_builds st))" and "\<forall>(i, r)\<in>set (t_builds st). b_id (g i) = i \<and> r = row_of_build (g i)"
  shows "rg_get i (snd (hydrate True n now (new_registry (Some st) h))) =
      (if i \<in> fst ` set (newest n st) then Some (hydrate_build now (persisted (g i))) else None)"
proof -
  have row: "b_id (g i) = i \<and> r = row_of_build (g i)" if "(i, r) \<in> set (newest n st)" for i r
    using newest_rows [OF that] assms(2) by auto
  then have "scan_builds_rows (newest n st) = Inr (map (\<lambda>(i, r). persisted (the (Some (g i)))) (newest n st))"
    by (intro scan_mirrored [where m = "\<lambda>i. Some (g i)"]) auto
  then have rec: "recent_builds True n st = Inr (map (\<lambda>(i, r). persisted (g i)) (newest n st))"
    by (simp add: recent_builds_def newest_def)
  let ?kvs = "map (\<lambda>(i, r). (i, hydrate_build now (persisted (g i)))) (newest n st)"
  have "foldl (\<lambda>m b. AList.update (b_id b) (hydrate_build now b) m) [] (map (\<lambda>(i, r). persisted (g i)) (newest n st)) =
      alist_table.put_all ?kvs []"
    unfolding alist_table.put_all_def foldl_map
    by (rule foldl_cong) (auto simp: row)
  then have "rg_get i (snd (hydrate True n now (new_registry (Some st) h))) = map_of (rev ?kvs) i"
    by (simp add: rg_get_def hydrate_def new_registry_def rec alist_table.lookup_put_all)
  also have "\<dots> = map_of ?kvs i"
  proof -
    have "map fst ?kvs = map fst (newest n st)" by (simp add: o_def split_beta)
    moreover have "distinct (map fst (sort_key (\<lambda>(i, r). - br_start r) (t_builds st)))"
      using assms(1) by (simp add: distinct_map)
    then have "distinct (map fst (newest n st))" by (simp add: newest_def distinct_take take_map [symmetric])
    ultimately show ?thesis by (simp only: map_of_rev_distinct)
  qed
  finally show ?thesis by (simp add: map_of_key_map)
qed

text \<open>A row that is left out has \<open>n\<close> others before it.\<close>

lemma left_out:
  assumes "distinct (map fst (t_builds st))" and "(i, r) \<in> set (t_builds st)" and "i \<notin> fst ` set (newest n st)"
  shows "\<exists>J. card J = n \<and> finite J \<and> i \<notin> J \<and> (\<forall>j\<in>J. \<exists>q. build_at st j = Some q \<and> br_start r \<le> br_start q)"
proof -
  let ?k = "\<lambda>(i, r). - br_start r"
  let ?s = "sort_key ?k (t_builds st)"
  have d: "distinct (map fst ?s)" using assms(1) by (simp add: distinct_map)
  have "(i, r) \<in> set ?s" "(i, r) \<notin> set (take n ?s)" using assms(2,3) by (force simp: newest_def)+
  then have drp: "(i, r) \<in> set (drop n ?s)" by (metis append_take_drop_id UnE set_append)
  then have len: "n < length ?s" by (metis drop_all empty_iff empty_set not_le)
  have srt: "sorted (map ?k (take n ?s) @ map ?k (drop n ?s))"
    by (simp only: append_take_drop_id sorted_sort_key map_append [symmetric])
  have le: "br_start r \<le> br_start q" if "(j, q) \<in> set (take n ?s)" for j q
  proof -
    from srt have "\<forall>x\<in>set (map ?k (take n ?s)). \<forall>y\<in>set (map ?k (drop n ?s)). x \<le> y"
      unfolding sorted_append by blast
    then have "?k (j, q) \<le> ?k (i, r)" using that drp by (metis (no_types, lifting) image_eqI set_map)
    then show ?thesis by simp
  qed
  let ?J = "fst ` set (take n ?s)"
  have "distinct (map fst (take n ?s))" using d by (simp add: distinct_take take_map [symmetric])
  then have "card ?J = length (take n ?s)" by (metis distinct_card length_map set_map)
  with len have "card ?J = n" by simp
  moreover have "\<exists>q. build_at st j = Some q \<and> br_start r \<le> br_start q" if "j \<in> ?J" for j
  proof -
    from that obtain q where q: "(j, q) \<in> set (take n ?s)" by auto
    then have "(j, q) \<in> set (t_builds st)" by (auto dest: in_set_takeD)
    with assms(1) le [OF q] show ?thesis by (auto simp: build_at_def intro: map_of_is_SomeI)
  qed
  moreover have "i \<notin> ?J" using assms(3) by (simp add: newest_def)
  ultimately show ?thesis by blast
qed

definition rows_written :: "store \<Rightarrow> bool" where
  "rows_written st \<longleftrightarrow> distinct (map fst (t_builds st)) \<and> (\<forall>(i, r)\<in>set (t_builds st). \<exists>b. b_id b = i \<and> r = row_of_build b)"

text \<open>
  C33: a restart recovers the newest builds.  Take a store whose rows were written by \<open>UpsertBuild\<close>, and a build whose row is
  the one of its record.  The registry that hydrates from it with the limit \<open>n\<close> (the daemon's is
  200) either has that build, or \<open>n\<close> other rows started no earlier and it is left out.  If it has it, then as
  the store keeps it, with the same worktree, targets, pid and source, in the same state with the same exit code if that was
  terminal, and otherwise marked gone.
\<close>

theorem restart_recovers_builds:
  assumes "rows_written st" and "b_id b = i" and "build_at st i = Some (row_of_build b)"
  shows "case rg_get i (snd (hydrate True n now (new_registry (Some st) h))) of
      None \<Rightarrow> \<exists>J. card J = n \<and> finite J \<and> i \<notin> J \<and> (\<forall>j\<in>J. \<exists>q. build_at st j = Some q \<and> to_millis (b_start b) \<le> br_start q)
    | Some c \<Rightarrow> b_id c = i \<and> b_worktree c = b_worktree b \<and> b_targets c = b_targets b \<and> b_pid c = b_pid b \<and> b_source c = b_source b \<and>
        b_start c = from_millis (to_millis (b_start b)) \<and> b_exit c = b_exit b \<and>
        (if is_terminal (b_state b) then b_state c = b_state b \<and> b_end c = from_millis (to_millis (b_end b)) else b_state c = state_gone)"
proof -
  let ?P = "\<lambda>j x. b_id x = j \<and> build_at st j = Some (row_of_build x)"
  define g where "g j = (if j = i then b else (SOME x. ?P j x))" for j
  have d: "distinct (map fst (t_builds st))" using assms(1) by (simp add: rows_written_def)
  have "b_id (g j) = j \<and> r = row_of_build (g j)" if "(j, r) \<in> set (t_builds st)" for j r
  proof -
    have at: "build_at st j = Some r" using d that by (simp add: build_at_def map_of_is_SomeI)
    from assms(1) that obtain x where "b_id x = j" "r = row_of_build x" by (auto simp: rows_written_def)
    with at have "?P j x" by simp
    then have "?P j (SOME x. ?P j x)" by (rule someI)
    with at assms(2,3) show ?thesis by (auto simp: g_def)
  qed
  then have g: "\<forall>(j, r)\<in>set (t_builds st). b_id (g j) = j \<and> r = row_of_build (g j)" by blast
  have l: "rg_get i (snd (hydrate True n now (new_registry (Some st) h))) =
      (if i \<in> fst ` set (newest n st) then Some (hydrate_build now (persisted b)) else None)"
    using hydrate_rows [OF d g, of i n now h] by (simp add: g_def)
  have m: "(i, row_of_build b) \<in> set (t_builds st)" using assms(3) by (simp add: build_at_def map_of_SomeD)
  show ?thesis
  proof (cases "i \<in> fst ` set (newest n st)")
    case True
    then show ?thesis unfolding l using assms(2) by (simp add: hydrate_build_def persisted_def)
  next
    case False
    from left_out [OF d m False] False show ?thesis unfolding l by (simp add: row_of_build_def)
  qed
qed

definition sample_build :: build where
  "sample_build = empty_build\<lparr>b_id := ''a'', b_worktree := ''/w'', b_pid := 5\<rparr>"

theorem restart_recovers_builds_witness:
  "\<exists>c. rg_get ''a'' (snd (hydrate True 200 9 (new_registry (Some (put_build ''a'' (row_of_build (sample_build\<lparr>b_state := state_failed\<rparr>)) empty_store))
     (None :: unit event hub option)))) = Some c \<and> b_state c = state_failed"
proof -
  let ?b = "sample_build\<lparr>b_state := state_failed\<rparr>"
  let ?st = "put_build ''a'' (row_of_build ?b) empty_store"
  let ?rg = "snd (hydrate True 200 9 (new_registry (Some ?st) (None :: unit event hub option)))"
  have i: "b_id ?b = ''a''" by (simp add: sample_build_def)
  have w: "rows_written ?st" using i by (auto simp: rows_written_def put_build_def empty_store_def intro: exI [of _ ?b])
  have r: "build_at ?st ''a'' = Some (row_of_build ?b)" by (simp add: build_at_def put_build_def empty_store_def)
  have one: "J = {} \<or> J = {''a''}" if "\<forall>j\<in>J. \<exists>q. build_at ?st j = Some q \<and> t \<le> br_start q" for J t
    using that by (auto simp: build_at_def put_build_def empty_store_def split: if_splits)
  note t = restart_recovers_builds [OF w i r, of 200 9 "None :: unit event hub option"]
  show ?thesis
  proof (cases "rg_get ''a'' ?rg")
    case None
    with t obtain J where "card J = 200" "\<forall>j\<in>J. \<exists>q. build_at ?st j = Some q \<and> to_millis (b_start ?b) \<le> br_start q" by auto
    with one [of J "to_millis (b_start ?b)"] show ?thesis by auto
  next
    case (Some c)
    with t show ?thesis by (auto simp: state_defs is_terminal_def)
  qed
qed

text \<open>
  A build that is still running when the broker restarts stays invisible.  Hydration marks it gone
  and promises that discovery adds any live build again, but \<open>Upsert\<close> finds the gone record by its pid
  and never leaves a terminal state: the discovered process is merged into the record, which stays
  gone.
\<close>

theorem restart_hides_live_build:
  assumes "b_pid b \<noteq> 0" and "\<not> is_terminal (b_state b)" and "b_pid d = b_pid b"
  shows "let st = put_build (b_id b) (row_of_build b) empty_store;
             rg = snd (hydrate True 200 now (new_registry (Some st) h));
             (res, rg') = rg_upsert True d t rg
         in \<exists>s. res = Inr s \<and> b_id s = b_id b \<and> b_state s = state_gone \<and>
              map fst (rg_builds rg') = [b_id b] \<and> filter (\<lambda>(i, c). \<not> is_terminal (b_state c)) (rg_builds rg') = []"
proof -
  let ?st = "put_build (b_id b) (row_of_build b) empty_store"
  let ?g = "hydrate_build now (persisted b)"
  have "recent_builds True 200 ?st = Inr [persisted b]"
    using scan_row_of_build [of b] by (simp add: recent_builds_def put_build_def empty_store_def)
  then have rg: "snd (hydrate True 200 now (new_registry (Some ?st) h)) =
      (new_registry (Some ?st) h)\<lparr>rg_builds := [(b_id b, ?g)]\<rparr>"
    by (simp add: hydrate_def new_registry_def)
  have g: "b_state ?g = state_gone" "b_pid ?g = b_pid b" "b_id ?g = b_id b"
    using assms(2) by (simp_all add: hydrate_build_def persisted_def)
  have m: "upsert_match d [(b_id b, ?g)] = Some ?g"
    using assms(1,3) g(2) by (simp add: upsert_match_def by_pid_def)
  let ?s = "(upsert_lifecycle d t (upsert_merge d ?g))\<lparr>b_seen := t\<rparr>"
  have s: "b_state ?s = state_gone" "b_id ?s = b_id b"
    using g by (simp_all add: upsert_lifecycle_def upsert_merge_def)
  have "upsert_core d t [(b_id b, ?g)] = Inr (?s, [(b_id b, ?s)])"
    using assms(1,3) s(2) by (simp add: upsert_core_def m Let_def)
  then show ?thesis using s by (simp add: Let_def rg rg_upsert_def)
qed

theorem restart_hides_live_build_witness:
  "let b = sample_build\<lparr>b_state := state_running\<rparr>; st = put_build (b_id b) (row_of_build b) empty_store;
       rg = snd (hydrate True 200 9 (new_registry (Some st) (None :: unit event hub option)))
   in \<exists>s. fst (rg_upsert True (empty_build\<lparr>b_pid := 5, b_state := state_running\<rparr>) 11 rg) = Inr s \<and> b_state s = state_gone"
  using restart_hides_live_build [of "sample_build\<lparr>b_state := state_running\<rparr>"
      "empty_build\<lparr>b_pid := 5, b_state := state_running\<rparr>" 9 None 11]
  by (auto simp: sample_build_def Let_def split_beta)

section \<open>Operations that overlap\<close>

text \<open>
  The locked part of an operation and its publications, as separate steps of concurrent requests.
  \<open>rw_pending\<close> holds the copies that are still to be published, with the time of their operation; the
  write of a publication may fail, which the code logs and ignores.
\<close>

record 'm reg_world =
  rw_reg :: "'m registry"
  rw_pending :: "(gotime \<times> build) list"

datatype reg_step = Mutate reg_op | Publish bool nat

fun reg_world_step :: "reg_step \<Rightarrow> 'm reg_world \<Rightarrow> 'm reg_world option" where
  "reg_world_step (Mutate a) w =
     (let (ws, bs) = op_core a (rg_builds (rw_reg w))
      in Some \<lparr>rw_reg = (rw_reg w)\<lparr>rg_builds := bs\<rparr>, rw_pending = rw_pending w @ map (Pair (op_time a)) ws\<rparr>)"
| "reg_world_step (Publish ok k) w =
     (if k < length (rw_pending w)
      then let (now, b) = rw_pending w ! k
           in Some \<lparr>rw_reg = publish ok now b (rw_reg w),
                    rw_pending = take k (rw_pending w) @ drop (Suc k) (rw_pending w)\<rparr>
      else None)"

inductive reg_reachable :: "'m registry \<Rightarrow> 'm reg_world \<Rightarrow> bool" for rg0 where
  start: "reg_reachable rg0 \<lparr>rw_reg = rg0, rw_pending = []\<rparr>"
| step: "reg_reachable rg0 w \<Longrightarrow> reg_world_step a w = Some w' \<Longrightarrow> reg_reachable rg0 w'"

inductive_cases reg_reachableE: "reg_reachable rg0 w"

text \<open>
  The steps under which the row of build \<open>i\<close> is looked after: operations on any builds, publications of other builds in any order,
  and those of \<open>i\<close> in the order in which the copies were taken.  The flag says whether the last of these was
  written; before the first, whether the row was that of the record to begin with.
\<close>

definition row_mirrors :: "string \<Rightarrow> 'm registry \<Rightarrow> bool" where
  "row_mirrors i rg \<longleftrightarrow> (\<exists>st. rg_store rg = Some st \<and> build_at st i = map_option row_of_build (rg_get i rg))"

abbreviation pending_id :: "'m reg_world \<Rightarrow> nat \<Rightarrow> string" where
  "pending_id w k \<equiv> b_id (snd (rw_pending w ! k))"

inductive ordered_for :: "string \<Rightarrow> 'm registry \<Rightarrow> 'm reg_world \<Rightarrow> bool \<Rightarrow> bool" for i rg0 where
  begins: "ordered_for i rg0 \<lparr>rw_reg = rg0, rw_pending = []\<rparr> (row_mirrors i rg0)"
| mutates: "ordered_for i rg0 w c \<Longrightarrow> reg_world_step (Mutate a) w = Some w' \<Longrightarrow> ordered_for i rg0 w' c"
| other: "ordered_for i rg0 w c \<Longrightarrow> k < length (rw_pending w) \<Longrightarrow> pending_id w k \<noteq> i \<Longrightarrow>
    reg_world_step (Publish ok k) w = Some w' \<Longrightarrow> ordered_for i rg0 w' c"
| own: "ordered_for i rg0 w c \<Longrightarrow> k < length (rw_pending w) \<Longrightarrow> pending_id w k = i \<Longrightarrow> (\<forall>j<k. pending_id w j \<noteq> i) \<Longrightarrow>
    reg_world_step (Publish ok k) w = Some w' \<Longrightarrow> ordered_for i rg0 w' ok"

text \<open>The last copy of a build that waits to be published.\<close>

definition last_copy :: "(gotime \<times> build) list \<Rightarrow> string \<Rightarrow> build option" where
  "last_copy ps = map_of (rev (writes (map snd ps)))"

lemma last_copy_append: "last_copy (ps @ qs) = last_copy ps ++ last_copy qs"
  by (simp add: last_copy_def writes_def)

lemma last_copy_none: "last_copy ps i = None \<longleftrightarrow> (\<forall>p\<in>set ps. b_id (snd p) \<noteq> i)"
  by (force simp: last_copy_def writes_def map_of_eq_None_iff)

lemma last_copy_one: "last_copy [p] = (\<lambda>i. if i = b_id (snd p) then Some (snd p) else None)"
  by (auto simp: last_copy_def writes_def)

lemma last_copy_take_drop:
  assumes "k < length ps"
  shows "last_copy ps = last_copy (take k ps) ++ last_copy [ps ! k] ++ last_copy (drop (Suc k) ps)"
  by (simp only: last_copy_append [symmetric] append_assoc) (use assms in \<open>simp add: id_take_nth_drop [symmetric]\<close>)

definition cared_for :: "string \<Rightarrow> 'm reg_world \<Rightarrow> bool \<Rightarrow> bool" where
  "cared_for i w c \<longleftrightarrow> keyed (rg_builds (rw_reg w)) \<and> rg_store (rw_reg w) \<noteq> None \<and>
     (case last_copy (rw_pending w) i of
        Some b \<Rightarrow> rg_get i (rw_reg w) = Some b
      | None \<Rightarrow> c \<longrightarrow> row_mirrors i (rw_reg w))"

lemma publish_row:
  assumes "rg_store rg = Some st"
  shows "\<exists>st'. rg_store (publish ok now b rg) = Some st' \<and>
    build_at st' i = (if ok \<and> b_id b = i then Some (row_of_build b) else build_at st i)"
  using assms
  by (auto simp: publish_def persist_def broadcast_build_def upsert_build_def build_at_def update_conv' split: option.splits)

lemma publish_get [simp]: "rg_get i (publish ok now b rg) = rg_get i rg"
  by (simp add: rg_get_def)

lemma ordered_cared:
  assumes "ordered_for i rg0 w c" and "keyed (rg_builds rg0)" and "rg_store rg0 \<noteq> None"
  shows "cared_for i w c"
  using assms(1)
proof induction
  case begins
  then show ?case using assms(2,3) by (simp add: cared_for_def last_copy_def writes_def)
next
  case (mutates w c a w')
  obtain ws bs where o: "op_core a (rg_builds (rw_reg w)) = (ws, bs)" by fastforce
  let ?n = "map (Pair (op_time a)) ws"
  from mutates(2) o have w': "w' = \<lparr>rw_reg = (rw_reg w)\<lparr>rg_builds := bs\<rparr>, rw_pending = rw_pending w @ ?n\<rparr>" by simp
  from mutates.IH core_writes [OF _ o] have b: "map_of bs = map_of (rg_builds (rw_reg w)) ++ map_of (rev (writes ws))" "keyed bs"
    by (simp_all add: cared_for_def)
  have l: "last_copy ?n = map_of (rev (writes ws))" by (simp add: last_copy_def o_def)
  from mutates.IH show ?case unfolding w'
    by (auto simp: cared_for_def last_copy_append l b rg_get_def row_mirrors_def map_add_def split: option.splits)
next
  case (other w c k ok w')
  obtain t b where p: "rw_pending w ! k = (t, b)" by (cases "rw_pending w ! k")
  with other have w': "w' = \<lparr>rw_reg = publish ok t b (rw_reg w), rw_pending = take k (rw_pending w) @ drop (Suc k) (rw_pending w)\<rparr>"
    and n: "b_id b \<noteq> i" by simp_all
  have l: "last_copy (take k (rw_pending w) @ drop (Suc k) (rw_pending w)) i = last_copy (rw_pending w) i"
    unfolding last_copy_take_drop [OF other(2)] p using n by (simp add: last_copy_append last_copy_one map_add_def split: option.split)
  from other.IH obtain st where st: "rg_store (rw_reg w) = Some st" by (auto simp: cared_for_def)
  from publish_row [OF st, of ok t b i] n obtain st' where
    st': "rg_store (publish ok t b (rw_reg w)) = Some st'" "build_at st' i = build_at st i" by auto
  from other.IH st st' show ?case unfolding w'
    by (auto simp: cared_for_def l row_mirrors_def split: option.splits)
next
  case (own w c k ok w')
  obtain t b where p: "rw_pending w ! k = (t, b)" by (cases "rw_pending w ! k")
  with own have w': "w' = \<lparr>rw_reg = publish ok t b (rw_reg w), rw_pending = take k (rw_pending w) @ drop (Suc k) (rw_pending w)\<rparr>"
    and n: "b_id b = i" by simp_all
  have before: "last_copy (take k (rw_pending w)) i = None"
    unfolding last_copy_none using own(2,4) by (force simp: in_set_conv_nth)
  have all: "last_copy (rw_pending w) i = (case last_copy (drop (Suc k) (rw_pending w)) i of None \<Rightarrow> Some b | Some x \<Rightarrow> Some x)"
    unfolding last_copy_take_drop [OF own(2)] p using n by (simp add: last_copy_one map_add_def split: option.split)
  have rest: "last_copy (take k (rw_pending w) @ drop (Suc k) (rw_pending w)) i = last_copy (drop (Suc k) (rw_pending w)) i"
    by (simp add: last_copy_append before map_add_def split: option.split)
  from own.IH obtain st where st: "rg_store (rw_reg w) = Some st" by (auto simp: cared_for_def)
  from publish_row [OF st, of ok t b i] n obtain st' where
    st': "rg_store (publish ok t b (rw_reg w)) = Some st'" "ok \<Longrightarrow> build_at st' i = Some (row_of_build b)" by auto
  from own.IH have k: "keyed (rg_builds (rw_reg w))" and get: "last_copy (rw_pending w) i = Some x \<Longrightarrow> rg_get i (rw_reg w) = Some x" for x
    by (auto simp: cared_for_def)
  show ?case
  proof (cases "last_copy (drop (Suc k) (rw_pending w)) i")
    case None
    with all get have "rg_get i (rw_reg w) = Some b" by simp
    with None st' k show ?thesis unfolding w' by (auto simp: cared_for_def rest row_mirrors_def)
  next
    case (Some x)
    with all get have "rg_get i (rw_reg w) = Some x" by simp
    with Some st' k show ?thesis unfolding w' by (simp add: cared_for_def rest)
  qed
qed

text \<open>
  C31: the store mirrors the registry.  From any registry with a store, let requests overlap: each operation changes the
  map under the lock and its row is written, or fails to be written, and its event is sent, at some later step.  If the copies of
  a build were published in the order in which they were taken, the last of them was written (or there was none and the row was right to
  begin with) and none is waiting, then the row of the build is that of its record.  Without the order
  this is false, as the next theorem shows.
\<close>

theorem store_mirrors_registry:
  assumes "keyed (rg_builds rg0)" and "rg_store rg0 \<noteq> None" and "ordered_for i rg0 w True"
    and "\<forall>p\<in>set (rw_pending w). b_id (snd p) \<noteq> i"
  shows "\<exists>st. rg_store (rw_reg w) = Some st \<and> build_at st i = map_option row_of_build (rg_get i (rw_reg w))"
proof -
  from assms(4) have "last_copy (rw_pending w) i = None" by (simp add: last_copy_none)
  with ordered_cared [OF assms(3,1,2)] show ?thesis by (simp add: cared_for_def row_mirrors_def)
qed

text \<open>A registration whose write fails, and the end of the build, which is written.\<close>

theorem store_mirrors_registry_witness:
  "\<exists>w. ordered_for ''a'' (new_registry (Some empty_store) (None :: unit event hub option)) w True \<and>
     (\<exists>st. rg_store (rw_reg w) = Some st \<and> build_at st ''a'' = map_option row_of_build (rg_get ''a'' (rw_reg w))) \<and>
     map_option b_state (rg_get ''a'' (rw_reg w)) = Some state_failed"
proof -
  let ?n = "new_registry (Some empty_store) (None :: unit event hub option)"
  define b where "b = (sample_build\<lparr>b_start := 7, b_source := source_registered, b_state := state_running\<rparr>)"
  define f where "f = b\<lparr>b_state := state_failed, b_exit := 1, b_end := 8\<rparr>"
  have c1: "op_core (RegisterOp sample_build 7) [] = ([b], [(''a'', b)])"
    by (simp add: register_core_def Let_def sample_build_def b_def empty_build_def)
  have c2: "op_core (DeregisterOp ''a'' 1 8) [(''a'', b)] = ([f], [(''a'', f)])"
    by (simp add: deregister_core_def Let_def f_def b_def sample_build_def empty_build_def state_defs is_terminal_def)
  have i: "b_id b = ''a''" "b_id f = ''a''" by (simp_all add: f_def b_def sample_build_def)
  let ?w0 = "\<lparr>rw_reg = ?n, rw_pending = []\<rparr>"
  let ?w1 = "\<lparr>rw_reg = ?n\<lparr>rg_builds := [(''a'', b)]\<rparr>, rw_pending = [(7, b)]\<rparr>"
  let ?w2 = "\<lparr>rw_reg = ?n\<lparr>rg_builds := [(''a'', b)]\<rparr>, rw_pending = []\<rparr>"
  let ?w3 = "\<lparr>rw_reg = ?n\<lparr>rg_builds := [(''a'', f)]\<rparr>, rw_pending = [(8, f)]\<rparr>"
  let ?w4 = "\<lparr>rw_reg = publish True 8 f (?n\<lparr>rg_builds := [(''a'', f)]\<rparr>), rw_pending = []\<rparr>"
  have s1: "reg_world_step (Mutate (RegisterOp sample_build 7)) ?w0 = Some ?w1" using c1 by (simp add: new_registry_def)
  have s2: "reg_world_step (Publish False 0) ?w1 = Some ?w2"
    by (simp add: publish_def persist_def broadcast_build_def upsert_build_def new_registry_def)
  have s3: "reg_world_step (Mutate (DeregisterOp ''a'' 1 8)) ?w2 = Some ?w3" using c2 by (simp add: new_registry_def)
  have s4: "reg_world_step (Publish True 0) ?w3 = Some ?w4" by simp
  note o1 = ordered_for.mutates [OF ordered_for.begins s1, of "''a''"]
  have o2: "ordered_for ''a'' ?n ?w2 False" by (rule ordered_for.own [OF o1 _ _ _ s2]) (simp_all add: i)
  note o3 = ordered_for.mutates [OF o2 s3]
  have o: "ordered_for ''a'' ?n ?w4 True" by (rule ordered_for.own [OF o3 _ _ _ s4]) (simp_all add: i)
  have "\<exists>st. rg_store (rw_reg ?w4) = Some st \<and> build_at st ''a'' = map_option row_of_build (rg_get ''a'' (rw_reg ?w4))"
    by (rule store_mirrors_registry [OF _ _ o]) (simp, simp add: new_registry_def, simp)
  moreover have "map_option b_state (rg_get ''a'' (rw_reg ?w4)) = Some state_failed" by (simp add: rg_get_def f_def)
  ultimately show ?thesis using o by blast
qed

text \<open>
  The mirror is lost when two requests for one build overlap.  The copies are published after the
  write lock is released, so the copy taken first may be written last: the map says that the build has
  finished, while its row, and the last event sent to a subscriber, say that it is running, and nothing
  is left to be published that would correct them.
\<close>

theorem publish_race_stale_row:
  "\<exists>w st h. reg_reachable (new_registry (Some empty_store) (Some (snd (subscribe (new_hub :: unit event hub))))) w \<and>
     rw_pending w = [] \<and> rg_store (rw_reg w) = Some st \<and> rg_hub (rw_reg w) = Some h \<and>
     map_option b_state (rg_get ''a'' (rw_reg w)) = Some state_finished \<and>
     map_option br_state (build_at st ''a'') = Some state_running \<and>
     map_option a_state (ev_build (last (sb_buf (chans h 0)))) = Some state_running"
proof -
  let ?h = "snd (subscribe (new_hub :: unit event hub))"
  let ?rg = "new_registry (Some empty_store) (Some ?h)"
  let ?w0 = "\<lparr>rw_reg = ?rg, rw_pending = []\<rparr>"
  define b where "b = (sample_build\<lparr>b_start := 7, b_source := source_registered, b_state := state_running\<rparr>)"
  define f where "f = b\<lparr>b_state := state_finished, b_end := 8\<rparr>"
  have c1: "op_core (RegisterOp sample_build 7) [] = ([b], [(''a'', b)])"
    by (simp add: register_core_def Let_def sample_build_def b_def empty_build_def)
  have c2: "op_core (DeregisterOp ''a'' 0 8) [(''a'', b)] = ([f], [(''a'', f)])"
    by (simp add: deregister_core_def Let_def f_def b_def sample_build_def empty_build_def state_defs is_terminal_def)
  let ?w1 = "\<lparr>rw_reg = ?rg\<lparr>rg_builds := [(''a'', b)]\<rparr>, rw_pending = [(7, b)]\<rparr>"
  let ?w2 = "\<lparr>rw_reg = ?rg\<lparr>rg_builds := [(''a'', f)]\<rparr>, rw_pending = [(7, b), (8, f)]\<rparr>"
  let ?w3 = "\<lparr>rw_reg = publish True 8 f (rw_reg ?w2), rw_pending = [(7, b)]\<rparr>"
  let ?w4 = "\<lparr>rw_reg = publish True 7 b (rw_reg ?w3), rw_pending = []\<rparr>"
  have "reg_world_step (Mutate (RegisterOp sample_build 7)) ?w0 = Some ?w1"
    using c1 by (simp add: new_registry_def)
  moreover have "reg_world_step (Mutate (DeregisterOp ''a'' 0 8)) ?w1 = Some ?w2"
    using c2 by simp
  moreover have "reg_world_step (Publish True 1) ?w2 = Some ?w3" by simp
  moreover have "reg_world_step (Publish True 0) ?w3 = Some ?w4" by simp
  ultimately have r: "reg_reachable ?rg ?w4" by (meson reg_reachable.intros)
  have ids: "b_id b = ''a''" "b_id f = ''a''" "b_state b = state_running" "b_state f = state_finished"
    by (simp_all add: b_def f_def sample_build_def empty_build_def)
  let ?h1 = "broadcast (build_event (Suc 0) f 8) ?h" and ?st = "put_build ''a'' (row_of_build b) (put_build ''a'' (row_of_build f) empty_store)"
  let ?h2 = "broadcast (build_event (Suc (Suc 0)) b 7) ?h1"
  have w: "rg_store (rw_reg ?w4) = Some ?st" "rg_hub (rw_reg ?w4) = Some ?h2" "rg_builds (rw_reg ?w4) = [(''a'', f)]"
    by (simp_all add: publish_def persist_def broadcast_build_def upsert_build_put new_registry_def ids)
  have "last (sb_buf (chans ?h2 0)) = build_event (Suc (Suc 0)) b 7"
    by (simp add: broadcast_def hub_defs sub_buffer_size_def)
  with r w ids show ?thesis
    by (auto simp: rg_get_def build_at_def put_build_def update_conv' row_of_build_def build_event_def
        intro!: exI [of _ ?w4])
qed

end
