(* ===== verification/Discovery.thy ===== *)
theory Discovery
  imports Go_Path Registry_Props
begin

text \<open>
  Passive discovery of builds (\<open>internal/discovery\<close>): the process scan, the resolution of a working
  directory to a git worktree, and the reconcile pass that folds the scan into the registry.

  The operating system is a parameter.  \<open>count_call\<close>, \<open>list_call\<close>, \<open>path_call\<close> and \<open>cwd_call\<close> are the calls of
  \<open>libproc\<close> (the return value, what is in the buffer and \<open>errno\<close>), a file system maps the path of a \<open>.git\<close> entry to
  what \<open>Lstat\<close> and \<open>ReadFile\<close> find there.
\<close>

section \<open>Processes\<close>

record proc_info =
  pi_pid :: int
  pi_exe :: string
  pi_cwd :: string

datatype proc_error = ProcUnavailable | ProcGone | Errno nat

definition esrch :: nat where "esrch = 3"
definition eperm :: nat where "eperm = 1"
definition eacces :: nat where "eacces = 13"

definition classify_errno :: "nat \<Rightarrow> proc_error" where
  "classify_errno e = (if e = esrch then ProcGone else if e = eperm \<or> e = eacces then ProcUnavailable else Errno e)"

definition einval :: nat where "einval = 22"

text \<open>The C shims of \<open>libproc_darwin.go\<close>: \<open>errno\<close> is passed on only after a failure.\<close>

definition bb_count_all_pids :: "int \<times> nat \<Rightarrow> int \<times> nat" where
  "bb_count_all_pids call = (let (n, e) = call in (n, if n \<le> 0 then e else 0))"

definition bb_list_all_pids :: "int \<times> int list \<times> nat \<Rightarrow> int \<times> int list \<times> nat" where
  "bb_list_all_pids call = (let (n, buf, e) = call in (n, buf, if n \<le> 0 then e else 0))"

definition bb_pid_path :: "int \<times> string \<times> nat \<Rightarrow> int \<times> string \<times> nat" where
  "bb_pid_path call = (let (n, buf, e) = call in (n, buf, if n \<le> 0 then e else 0))"

text \<open>\<open>strlcpy\<close> into a buffer of zeros: at most \<open>n - 1\<close> characters and a NUL.\<close>

definition strlcpy :: "nat \<Rightarrow> string \<Rightarrow> string" where
  "strlcpy n src = (let c = take (n - 1) (takeWhile (\<lambda>c. c \<noteq> CHR 0x00) src) in c @ replicate (n - length c) (CHR 0x00))"

text \<open>\<open>vpi\<close> is the size of the record \<open>proc_vnodepathinfo\<close>, the path is its \<open>vip_path\<close>.\<close>

definition bb_pid_cwd :: "int \<Rightarrow> nat \<Rightarrow> int \<times> string \<times> nat \<Rightarrow> int \<times> string \<times> nat" where
  "bb_pid_cwd vpi outsize call =
     (let (ret, path, e) = call in
      if ret \<noteq> vpi then (- 1, replicate outsize (CHR 0x00), if e = 0 then einval else e)
      else (0, strlcpy outsize path, 0))"

definition max_path_len :: nat where "max_path_len = 1024"
definition pid_path_max_size :: nat where "pid_path_max_size = 4096"

text \<open>
  \<open>count_call\<close> is the size probe, \<open>list_call cap\<close> the read into a buffer of \<open>cap\<close> pids; sizes are in
  bytes, four to a pid.
\<close>

definition list_pids :: "int \<times> nat \<Rightarrow> (nat \<Rightarrow> int \<times> int list \<times> nat) \<Rightarrow> proc_error + int list" where
  "list_pids count_call list_call =
     (let (nbytes, e) = bb_count_all_pids count_call in
      if nbytes \<le> 0 then Inl (classify_errno e)
      else
        let cap = nat (go_div nbytes 4) + 64;
            (written, buf, e2) = bb_list_all_pids (list_call cap)
        in if written \<le> 0 then Inl (classify_errno e2)
           else let n = min (nat (go_div written 4)) cap
                in Inr (filter (\<lambda>p. 0 < p) (take n buf)))"

definition pid_path :: "(int \<Rightarrow> nat \<Rightarrow> int \<times> string \<times> nat) \<Rightarrow> int \<Rightarrow> proc_error + string" where
  "pid_path path_call pid =
     (let (n, buf, e) = bb_pid_path (path_call pid pid_path_max_size)
      in if n \<le> 0 then Inl (classify_errno e) else Inr (take (nat n) buf))"

definition go_str :: "string \<Rightarrow> string" where
  "go_str b = takeWhile (\<lambda>c. c \<noteq> CHR 0x00) b"

definition pid_cwd :: "int \<Rightarrow> (int \<Rightarrow> int \<times> string \<times> nat) \<Rightarrow> int \<Rightarrow> proc_error + string" where
  "pid_cwd vpi cwd_call pid =
     (let (ret, buf, e) = bb_pid_cwd vpi max_path_len (cwd_call pid)
      in if ret \<noteq> 0 then Inl (classify_errno e) else Inr (go_str buf))"

lemma go_str_cut: "CHR 0x00 \<notin> set c \<Longrightarrow> go_str (c @ CHR 0x00 # r) = c"
  by (induction c) (auto simp: go_str_def)

lemma go_str_strlcpy:
  assumes "0 < n" shows "go_str (strlcpy n src) = take (n - 1) (go_str src)"
proof -
  define c where "c = take (n - 1) (go_str src)"
  have nz: "CHR 0x00 \<notin> set c" by (auto simp: c_def go_str_def dest!: in_set_takeD set_takeWhileD)
  have "length c \<le> n - 1" by (simp add: c_def)
  then have "length c < n" using assms by linarith
  then obtain k where "n - length c = Suc k" using Suc_diff_Suc by metis
  moreover have "strlcpy n src = c @ replicate (n - length c) (CHR 0x00)" by (simp only: strlcpy_def Let_def c_def go_str_def)
  ultimately have "strlcpy n src = c @ CHR 0x00 # replicate k (CHR 0x00)" by simp
  then show ?thesis using go_str_cut [OF nz] by (simp add: c_def)
qed

text \<open>The directory of a process is read up to 1023 characters, or fails with the class of its \<open>errno\<close>.\<close>

lemma pid_cwd_result:
  "pid_cwd vpi cwd_call pid =
     (case cwd_call pid of (ret, path, e) \<Rightarrow>
        if ret = vpi then Inr (take 1023 (go_str path)) else Inl (classify_errno (if e = 0 then einval else e)))"
proof -
  have "go_str (strlcpy max_path_len p) = take 1023 (go_str p)" for p
    using go_str_strlcpy [of max_path_len p] by (simp add: max_path_len_def)
  then show ?thesis by (simp add: pid_cwd_def bb_pid_cwd_def split_beta)
qed

text \<open>\<open>allow\<close> is the compiled \<open>BB_DISCOVERY_EXE_ALLOW\<close>, if it is set.\<close>

definition is_bazel_client :: "(string \<Rightarrow> bool) option \<Rightarrow> string \<Rightarrow> bool" where
  "is_bazel_client allow exe =
     (case allow of
        Some re \<Rightarrow> re exe
      | None \<Rightarrow> path_base exe \<in> {''bazel'', ''bazelisk'', ''bazel-real''})"

definition scan_one ::
  "(string \<Rightarrow> bool) option \<Rightarrow> (int \<Rightarrow> proc_error + string) \<Rightarrow> (int \<Rightarrow> proc_error + string) \<Rightarrow> int \<Rightarrow> proc_info option" where
  "scan_one allow path_of cwd_of pid =
     (case path_of pid of
        Inl _ \<Rightarrow> None
      | Inr path \<Rightarrow>
          if \<not> is_bazel_client allow path then None
          else case cwd_of pid of
                 Inl _ \<Rightarrow> None
               | Inr cwd \<Rightarrow> Some \<lparr>pi_pid = pid, pi_exe = path, pi_cwd = cwd\<rparr>)"

definition scan_snapshot ::
  "(string \<Rightarrow> bool) option \<Rightarrow> proc_error + int list \<Rightarrow> (int \<Rightarrow> proc_error + string) \<Rightarrow> (int \<Rightarrow> proc_error + string)
     \<Rightarrow> proc_error + proc_info list" where
  "scan_snapshot allow pids path_of cwd_of =
     (case pids of Inl e \<Rightarrow> Inl e | Inr ps \<Rightarrow> Inr (List.map_filter (scan_one allow path_of cwd_of) ps))"

section \<open>Worktrees\<close>

record worktree =
  wt_root :: string
  wt_name :: string
  wt_git :: string

text \<open>\<open>GitFile None\<close> is a \<open>.git\<close> file that cannot be read.\<close>

datatype dotgit = NoDotGit | GitDirectory | GitFile "string option"
datatype resolve_error = NotInWorktree | GitdirUnreadable

definition read_gitdir_file :: "string \<Rightarrow> string" where
  "read_gitdir_file content = trim_space (trim_prefix (trim_space content) ''gitdir:'')"

definition resolve_at :: "(string \<Rightarrow> dotgit) \<Rightarrow> string \<Rightarrow> (resolve_error + worktree) option" where
  "resolve_at fs cur =
     (let dotgit = path_join [cur, ''.git''] in
      case fs dotgit of
        NoDotGit \<Rightarrow> None
      | GitDirectory \<Rightarrow> Some (Inr \<lparr>wt_root = cur, wt_name = path_base cur, wt_git = dotgit\<rparr>)
      | GitFile None \<Rightarrow> Some (Inl GitdirUnreadable)
      | GitFile (Some c) \<Rightarrow> Some (Inr \<lparr>wt_root = cur, wt_name = path_base cur, wt_git = read_gitdir_file c\<rparr>))"

function resolve_loop :: "(string \<Rightarrow> dotgit) \<Rightarrow> string \<Rightarrow> resolve_error + worktree" where
  "resolve_loop fs cur =
     (case resolve_at fs cur of
        Some r \<Rightarrow> r
      | None \<Rightarrow> if path_dir cur = cur then Inl NotInWorktree else resolve_loop fs (path_dir cur))"
  by pat_completeness auto

termination resolve_loop
  by (relation "measure (\<lambda>(fs, cur). depth cur)") (simp_all add: depth_dir)

declare resolve_loop.simps [simp del]

definition resolve_from_cwd :: "(string \<Rightarrow> dotgit) \<Rightarrow> string \<Rightarrow> resolve_error + worktree" where
  "resolve_from_cwd fs dir =
     (if dir = [] then Inl NotInWorktree else resolve_loop fs (path_clean dir))"

section \<open>Reconcile\<close>

definition discovered :: "proc_info \<Rightarrow> worktree \<Rightarrow> build" where
  "discovered p wt =
     empty_build\<lparr>b_pid := pi_pid p, b_exe := pi_exe p, b_cwd := pi_cwd p, b_worktree := wt_root wt,
       b_worktree_name := wt_name wt, b_git_dir := wt_git wt, b_source := source_discovered, b_state := state_running\<rparr>"

text \<open>
  Each process comes with the time the registry reads during its upsert and whether the row is
  written.
\<close>

definition reconcile_one ::
  "(string \<Rightarrow> resolve_error + worktree) \<Rightarrow> proc_info \<times> bool \<times> gotime \<Rightarrow> 'm registry \<times> int set \<Rightarrow> 'm registry \<times> int set" where
  "reconcile_one resolve e s =
     (let (p, ok, t) = e; (rg, seen) = s in
      case resolve (pi_cwd p) of
        Inl _ \<Rightarrow> (rg, seen)
      | Inr wt \<Rightarrow> (snd (rg_upsert ok (discovered p wt) t rg), insert (pi_pid p) seen))"

definition reconcile_once ::
  "(string \<Rightarrow> resolve_error + worktree) \<Rightarrow> proc_error + (proc_info \<times> bool \<times> gotime) list \<Rightarrow> gotime \<Rightarrow> bool \<Rightarrow> 'm registry
     \<Rightarrow> (proc_error + unit) \<times> 'm registry" where
  "reconcile_once resolve scan now ok rg =
     (case scan of
        Inl e \<Rightarrow> (Inl e, rg)
      | Inr ps \<Rightarrow>
          let (rg', seen) = foldl (\<lambda>s e. reconcile_one resolve e s) (rg, {}) ps
          in (Inr (), rg_reap ok seen now rg'))"

section \<open>The nearest worktree\<close>

text \<open>What the walk promises: the longest prefix of the directory that has a \<open>.git\<close> entry decides.\<close>

fun nearest :: "(string \<Rightarrow> dotgit) \<Rightarrow> string list \<Rightarrow> resolve_error + worktree" where
  "nearest fs rev_cs =
     (case resolve_at fs (abs_path (rev rev_cs)) of
        Some r \<Rightarrow> r
      | None \<Rightarrow> (case rev_cs of [] \<Rightarrow> Inl NotInWorktree | _ # cs \<Rightarrow> nearest fs cs))"

declare nearest.simps [simp del]

text \<open>\<open>bare fs cs k n\<close>: no directory of the path deeper than \<open>k\<close>, up to \<open>n\<close>, has a \<open>.git\<close> entry.\<close>

definition git_of :: "(string \<Rightarrow> dotgit) \<Rightarrow> string list \<Rightarrow> nat \<Rightarrow> dotgit" where
  "git_of fs cs k = fs (path_join [abs_path (take k cs), ''.git''])"

definition bare_below :: "(string \<Rightarrow> dotgit) \<Rightarrow> string list \<Rightarrow> nat \<Rightarrow> bool" where
  "bare_below fs cs k \<longleftrightarrow> (\<forall>j. k < j \<longrightarrow> j \<le> length cs \<longrightarrow> git_of fs cs j = NoDotGit)"

lemma git_of_snoc: "k \<le> length cs \<Longrightarrow> git_of fs (cs @ [c]) k = git_of fs cs k"
  by (simp add: git_of_def)

lemma bare_snoc: "git_of fs (cs @ [c]) (Suc (length cs)) = NoDotGit \<Longrightarrow> bare_below fs (cs @ [c]) k = bare_below fs cs k"
  by (auto simp: bare_below_def git_of_snoc le_Suc_eq)

lemma nearest_exact:
  "case nearest fs (rev cs) of
     Inr wt \<Rightarrow> \<exists>k\<le>length cs. bare_below fs cs k \<and> resolve_at fs (abs_path (take k cs)) = Some (Inr wt)
   | Inl GitdirUnreadable \<Rightarrow> \<exists>k\<le>length cs. bare_below fs cs k \<and> resolve_at fs (abs_path (take k cs)) = Some (Inl GitdirUnreadable)
   | Inl NotInWorktree \<Rightarrow> \<forall>j\<le>length cs. git_of fs cs j = NoDotGit"
proof (induction cs rule: rev_induct)
  case Nil
  have n: "nearest fs (rev []) = (case resolve_at fs (abs_path []) of None \<Rightarrow> Inl NotInWorktree | Some r \<Rightarrow> r)"
    by (simp add: nearest.simps [of fs "[]"] split: option.split)
  show ?case unfolding n
    by (auto simp: resolve_at_def Let_def git_of_def bare_below_def split: dotgit.split option.split)
next
  case (snoc c cs)
  let ?r = "resolve_at fs (abs_path (cs @ [c]))"
  show ?case
  proof (cases ?r)
    case None
    then have e: "git_of fs (cs @ [c]) (Suc (length cs)) = NoDotGit"
      by (auto simp: resolve_at_def git_of_def Let_def split: dotgit.splits option.splits)
    from None have n: "nearest fs (rev (cs @ [c])) = nearest fs (rev cs)" by (simp add: nearest.simps [of fs "c # rev cs"])
    have up: "\<exists>k\<le>length (cs @ [c]). bare_below fs (cs @ [c]) k \<and> resolve_at fs (abs_path (take k (cs @ [c]))) = r"
      if "\<exists>k\<le>length cs. bare_below fs cs k \<and> resolve_at fs (abs_path (take k cs)) = r" for r
    proof -
      from that obtain k where "k \<le> length cs" "bare_below fs cs k" "resolve_at fs (abs_path (take k cs)) = r" by blast
      then show ?thesis by (intro exI [of _ k]) (simp add: bare_snoc [OF e])
    qed
    show ?thesis
    proof (cases "nearest fs (rev cs)")
      case (Inl x)
      with snoc up e n show ?thesis by (cases x) (auto simp: git_of_snoc le_Suc_eq)
    next
      case (Inr wt)
      with snoc up n show ?thesis by auto
    qed
  next
    case (Some r)
    then have n: "nearest fs (rev (cs @ [c])) = r" by (simp add: nearest.simps [of fs "c # rev cs"])
    have k: "length (cs @ [c]) \<le> length (cs @ [c]) \<and> bare_below fs (cs @ [c]) (length (cs @ [c])) \<and>
        resolve_at fs (abs_path (take (length (cs @ [c])) (cs @ [c]))) = Some r"
      using Some by (simp add: bare_below_def)
    have "r \<noteq> Inl NotInWorktree" using Some by (auto simp: resolve_at_def Let_def split: dotgit.splits option.splits)
    then consider wt where "r = Inr wt" | "r = Inl GitdirUnreadable" by (metis resolve_error.exhaust sum.exhaust)
    then show ?thesis
    proof cases
      case 1
      show ?thesis unfolding n 1 sum.case using k unfolding 1 by blast
    next
      case 2
      show ?thesis unfolding n 2 sum.case resolve_error.case using k unfolding 2 by blast
    qed
  qed
qed

lemma resolve_at_result:
  "resolve_at fs dir = Some (Inl x) \<longleftrightarrow> x = GitdirUnreadable \<and> fs (path_join [dir, ''.git'']) = GitFile None"
  "resolve_at fs dir = Some (Inr wt) \<longleftrightarrow> wt_root wt = dir \<and> wt_name wt = path_base dir \<and>
     (fs (path_join [dir, ''.git'']) = GitDirectory \<and> wt_git wt = path_join [dir, ''.git''] \<or>
      (\<exists>c. fs (path_join [dir, ''.git'']) = GitFile (Some c) \<and> wt_git wt = read_gitdir_file c))"
  by (cases wt; auto simp: resolve_at_def Let_def split: dotgit.split option.split)+

lemma resolve_loop_nearest: "\<forall>c\<in>set cs. comp_ok c \<Longrightarrow> resolve_loop fs (abs_path cs) = nearest fs (rev cs)"
proof (induction cs rule: rev_induct)
  case Nil
  show ?case
    using dir_root by (subst resolve_loop.simps, subst nearest.simps) (simp split: option.split)
next
  case (snoc c cs)
  have "length (abs_path cs) < length (abs_path (cs @ [c]))"
    using snoc.prems by (cases "cs = []") (simp_all add: abs_path_snoc comp_ok_def)
  then have "abs_path cs \<noteq> abs_path (cs @ [c])" by auto
  then have "resolve_loop fs (abs_path (cs @ [c])) =
      (case resolve_at fs (abs_path (cs @ [c])) of Some r \<Rightarrow> r | None \<Rightarrow> resolve_loop fs (abs_path cs))"
    using dir_abs [of cs c] snoc.prems by (subst resolve_loop.simps) (simp split: option.split)
  moreover have "nearest fs (rev (cs @ [c])) =
      (case resolve_at fs (abs_path (cs @ [c])) of Some r \<Rightarrow> r | None \<Rightarrow> nearest fs (rev cs))"
    by (subst nearest.simps) (simp split: option.split)
  ultimately show ?case using snoc by (simp split: option.split)
qed

text \<open>
  C30: discovery places a process in the innermost worktree around its working directory.  For an absolute directory
  the upward walk ends.  What it returns is a directory of the path that has a \<open>.git\<close> entry, itself for a directory and the
  contents of the gitdir line for a file, and no directory between it and the process has one; it fails with an
  unreadable file exactly where the innermost entry is one, and says that there is no worktree exactly where no directory up to the root has an
  entry.
\<close>

theorem resolve_finds_innermost:
  assumes "\<forall>c\<in>set cs. comp_ok c"
  shows "case resolve_from_cwd fs (abs_path cs) of
      Inr wt \<Rightarrow> (\<exists>k\<le>length cs. bare_below fs cs k \<and> wt_root wt = abs_path (take k cs) \<and> wt_name wt = path_base (wt_root wt) \<and>
        (git_of fs cs k = GitDirectory \<and> wt_git wt = path_join [wt_root wt, ''.git''] \<or>
         (\<exists>c. git_of fs cs k = GitFile (Some c) \<and> wt_git wt = read_gitdir_file c)))
    | Inl GitdirUnreadable \<Rightarrow> (\<exists>k\<le>length cs. bare_below fs cs k \<and> git_of fs cs k = GitFile None)
    | Inl NotInWorktree \<Rightarrow> (\<forall>j\<le>length cs. git_of fs cs j = NoDotGit)"
proof -
  have "abs_path cs \<noteq> []" by (simp add: abs_path_def)
  with assms have r: "resolve_from_cwd fs (abs_path cs) = nearest fs (rev cs)"
    by (simp add: resolve_from_cwd_def clean_abs resolve_loop_nearest)
  note ex = nearest_exact [where fs = fs and cs = cs]
  show ?thesis
  proof (cases "nearest fs (rev cs)")
    case (Inl x)
    with ex show ?thesis unfolding r by (cases x) (auto simp: resolve_at_result git_of_def)
  next
    case (Inr wt)
    with ex obtain k where "k \<le> length cs" "bare_below fs cs k" "resolve_at fs (abs_path (take k cs)) = Some (Inr wt)"
      by auto
    then show ?thesis unfolding r Inr sum.case by (intro exI [of _ k]) (auto simp: resolve_at_result git_of_def)
  qed
qed

definition demo_fs :: "string \<Rightarrow> dotgit" where
  "demo_fs p = (if p = ''/src/app/.git'' then GitFile (Some ''gitdir: /src/main/.git/worktrees/app'')
                else if p = ''/src/.git'' then GitDirectory else NoDotGit)"

theorem resolve_finds_innermost_witness:
  "\<exists>k\<le>3. ''/src/app'' = abs_path (take k [''src'', ''app'', ''lib'']) \<and>
     git_of demo_fs [''src'', ''app'', ''lib''] k \<noteq> NoDotGit \<and> bare_below demo_fs [''src'', ''app'', ''lib''] k"
proof -
  have ok: "\<forall>c\<in>set [''src'', ''app'', ''lib'']. comp_ok c" by (simp add: comp_ok_def)
  have "resolve_from_cwd demo_fs (abs_path [''src'', ''app'', ''lib'']) =
      Inr \<lparr>wt_root = ''/src/app'', wt_name = ''app'', wt_git = ''/src/main/.git/worktrees/app''\<rparr>"
    by (simp add: resolve_from_cwd_def abs_path_def path_clean_def clean_step_def resolve_loop.simps resolve_at_def
        path_join_def demo_fs_def path_dir_def path_base_def read_gitdir_file_def trim_space_def trim_left_def trim_right_def
        trim_prefix_def space_len_def space_len_rev_def has_prefix_def ascii_spaces_def wide_spaces_def)
  with resolve_finds_innermost [OF ok, of demo_fs]
  obtain k where "k \<le> length [''src'', ''app'', ''lib'']" "bare_below demo_fs [''src'', ''app'', ''lib''] k"
    "''/src/app'' = abs_path (take k [''src'', ''app'', ''lib''])" "git_of demo_fs [''src'', ''app'', ''lib''] k \<noteq> NoDotGit"
    by (simp only: sum.case worktree.simps) (metis dotgit.distinct(1) dotgit.distinct(3))
  then show ?thesis by (intro exI [of _ k]) simp
qed

section \<open>A pass against the set of processes\<close>

definition surfaced :: "(string \<Rightarrow> resolve_error + worktree) \<Rightarrow> (proc_info \<times> bool \<times> gotime) list \<Rightarrow> int set" where
  "surfaced resolve ps = {pi_pid p | p ok t wt. (p, ok, t) \<in> set ps \<and> resolve (pi_cwd p) = Inr wt}"

definition has_pid :: "int \<Rightarrow> builds \<Rightarrow> bool" where
  "has_pid q bs \<longleftrightarrow> (\<exists>i b. map_of bs i = Some b \<and> b_pid b = q)"

lemma discovered_simps [simp]:
  "b_id (discovered p wt) = []" "b_pid (discovered p wt) = pi_pid p"
  by (simp_all add: discovered_def empty_build_def)

lemma upsert_pid:
  "b_pid ((upsert_lifecycle b now (upsert_merge b s))\<lparr>b_seen := now\<rparr>) = (if b_pid b \<noteq> 0 then b_pid b else b_pid s)"
  "b_pid (upsert_lifecycle b now (upsert_merge b s)) = (if b_pid b \<noteq> 0 then b_pid b else b_pid s)"
  by (simp_all add: upsert_lifecycle_def upsert_merge_def)

lemma mark_gone_simps [simp]: "b_state (mark_gone now b) = state_gone" "b_pid (mark_gone now b) = b_pid b"
  by (simp_all add: mark_gone_def)

lemma mark_gone_terminal: "mark_gone now c = b \<Longrightarrow> is_terminal (b_state b)"
  by auto

lemma upsert_has_pid:
  assumes "b_pid b \<noteq> 0" "upsert_core b now bs = Inr (s, bs')" shows "has_pid (b_pid b) bs'"
proof -
  from assms have "b_pid s = b_pid b" "bs' = AList.update (b_id s) s bs"
    by (auto simp: upsert_core_def Let_def upsert_pid)
  then show ?thesis by (auto simp: has_pid_def update_conv')
qed

text \<open>
  What an upsert of discovery keeps of a record that was there: its pid, state and source, and its worktree unless
  the process with that pid was seen in another one (\<open>R\<close> relates pids to the roots they were seen in).
\<close>

definition kept :: "(int \<times> string) set \<Rightarrow> build \<Rightarrow> build \<Rightarrow> bool" where
  "kept R c d \<longleftrightarrow> b_pid d = b_pid c \<and> b_state d = b_state c \<and> b_source d = b_source c \<and>
     (b_worktree d = b_worktree c \<or> (b_pid c, b_worktree d) \<in> R)"

definition all_kept :: "(int \<times> string) set \<Rightarrow> builds \<Rightarrow> builds \<Rightarrow> bool" where
  "all_kept R bs bs' \<longleftrightarrow> (\<forall>i c. map_of bs i = Some c \<longrightarrow> (\<exists>d. map_of bs' i = Some d \<and> kept R c d))"

definition seen_roots :: "(string \<Rightarrow> resolve_error + worktree) \<Rightarrow> (proc_info \<times> bool \<times> gotime) list \<Rightarrow> (int \<times> string) set" where
  "seen_roots resolve ps = {(pi_pid p, wt_root wt) | p ok t wt. (p, ok, t) \<in> set ps \<and> resolve (pi_cwd p) = Inr wt}"

lemma kept_refl [simp]: "kept R c c"
  by (simp add: kept_def)

lemma build_kept_trans: "kept R c d \<Longrightarrow> kept S d e \<Longrightarrow> kept (R \<union> S) c e"
  by (auto simp: kept_def)

lemma all_kept_trans:
  assumes "all_kept R a b" and "all_kept S b c" shows "all_kept (R \<union> S) a c"
  unfolding all_kept_def
proof (intro allI impI)
  fix i x
  assume "map_of a i = Some x"
  with assms(1) obtain y where y: "map_of b i = Some y" "kept R x y" by (auto simp: all_kept_def)
  with assms(2) obtain z where "map_of c i = Some z" "kept S y z" by (auto simp: all_kept_def)
  with build_kept_trans [OF y(2)] show "\<exists>d. map_of c i = Some d \<and> kept (R \<union> S) x d" by blast
qed

lemma roots_Cons:
  "seen_roots resolve ((p, ok, t) # ps) =
     (case resolve (pi_cwd p) of Inl _ \<Rightarrow> {} | Inr wt \<Rightarrow> {(pi_pid p, wt_root wt)}) \<union> seen_roots resolve ps"
  by (auto simp: seen_roots_def split: sum.split)

text \<open>One upsert of a process: what was there is kept, and a pid that nobody had gets a live discovered record of its own.\<close>

definition fresh_record :: "(int \<times> string) set \<Rightarrow> int \<Rightarrow> builds \<Rightarrow> bool" where
  "fresh_record R q bs \<longleftrightarrow> (\<exists>b. map_of bs (pid_id q) = Some b \<and> b_pid b = q \<and> b_state b = state_running \<and>
     b_source b = source_discovered \<and> (q, b_worktree b) \<in> R)"

lemma fresh_kept: "fresh_record R q a \<Longrightarrow> all_kept S a b \<Longrightarrow> fresh_record (R \<union> S) q b"
  by (fastforce simp: fresh_record_def all_kept_def kept_def)

lemma discovered_merge:
  "b_state ((upsert_lifecycle (discovered p wt) t (upsert_merge (discovered p wt) c))\<lparr>b_seen := t\<rparr>) = b_state c"
  "b_source ((upsert_lifecycle (discovered p wt) t (upsert_merge (discovered p wt) c))\<lparr>b_seen := t\<rparr>) = b_source c"
  "b_worktree ((upsert_lifecycle (discovered p wt) t (upsert_merge (discovered p wt) c))\<lparr>b_seen := t\<rparr>) =
     (if wt_root wt \<noteq> [] then wt_root wt else b_worktree c)"
  by (simp_all add: upsert_lifecycle_def upsert_merge_def discovered_def)

lemma upsert_process:
  assumes "keyed bs" and "pid_named bs" and "pi_pid p \<noteq> 0" and "upsert_core (discovered p wt) t bs = Inr (s, bs')"
  shows "all_kept {(pi_pid p, wt_root wt)} bs bs' \<and>
    (\<not> has_pid (pi_pid p) bs \<longrightarrow> fresh_record {(pi_pid p, wt_root wt)} (pi_pid p) bs') \<and>
    dom (map_of bs') = dom (map_of bs) \<union> (if has_pid (pi_pid p) bs then {} else {pid_id (pi_pid p)})"
proof (cases "by_pid (pi_pid p) bs")
  case None
  then have no: "\<not> has_pid (pi_pid p) bs"
    using map_of_SomeD by (fastforce simp: has_pid_def by_pid_def find_None_iff)
  have m: "upsert_match (discovered p wt) bs = None" using None by (simp add: upsert_match_def)
  with assms(4,3) have s: "s = (upsert_lifecycle (discovered p wt) t (upsert_merge (discovered p wt) (upsert_fresh (discovered p wt) t)))\<lparr>b_seen := t\<rparr>"
    "bs' = AList.update (b_id s) s bs" by (auto simp: upsert_core_def Let_def)
  have i: "b_id s = pid_id (pi_pid p)" unfolding s(1)
    by (simp add: upsert_lifecycle_def upsert_merge_def upsert_fresh_def)
  have free: "map_of bs (pid_id (pi_pid p)) = None"
    using fresh_id_free [OF assms(2) m, of t] assms(3) by (simp add: upsert_fresh_def)
  have f: "b_pid s = pi_pid p" "b_state s = state_running" "b_source s = source_discovered" "b_worktree s = wt_root wt"
    unfolding s(1) discovered_merge upsert_pid using assms(3) by (simp_all add: upsert_fresh_def empty_build_def)
  from free have "all_kept {(pi_pid p, wt_root wt)} bs bs'" unfolding s(2) i by (auto simp: all_kept_def update_conv')
  moreover have "fresh_record {(pi_pid p, wt_root wt)} (pi_pid p) bs'"
    unfolding s(2) i using f by (simp add: fresh_record_def update_conv')
  moreover have "dom (map_of bs') = insert (pid_id (pi_pid p)) (dom (map_of bs))" unfolding s(2) i by (auto simp: update_conv')
  ultimately show ?thesis using no by simp
next
  case (Some c)
  from by_pid_lookup [OF assms(1) this] have c: "map_of bs (b_id c) = Some c" "b_pid c = pi_pid p" by auto
  then have h: "has_pid (pi_pid p) bs" by (auto simp: has_pid_def)
  have "upsert_match (discovered p wt) bs = Some c" using Some assms(3) by (simp add: upsert_match_def)
  with assms(4,3) have s: "s = (upsert_lifecycle (discovered p wt) t (upsert_merge (discovered p wt) c))\<lparr>b_seen := t\<rparr>"
    "bs' = AList.update (b_id s) s bs" by (auto simp: upsert_core_def Let_def)
  have i: "b_id s = b_id c" unfolding s(1) by (simp add: upsert_lifecycle_def upsert_merge_def)
  have "kept {(pi_pid p, wt_root wt)} c s"
    unfolding kept_def s(1) discovered_merge upsert_pid using c(2) by simp
  with c have "all_kept {(pi_pid p, wt_root wt)} bs bs'" unfolding s(2) i by (auto simp: all_kept_def update_conv')
  moreover have "dom (map_of bs') = dom (map_of bs)" unfolding s(2) i using c(1) by (auto simp: update_conv')
  ultimately show ?thesis using h by simp
qed

lemma upsert_new_pid:
  assumes "keyed bs" "pid_named bs" "pi_pid p \<noteq> 0" "upsert_core (discovered p wt) t bs = Inr (s, bs')" "has_pid q bs'"
  shows "has_pid q bs \<or> q = pi_pid p"
proof -
  have b: "b_pid s = pi_pid p" "bs' = AList.update (b_id s) s bs" using assms(3,4) by (auto simp: upsert_core_def Let_def upsert_pid)
  from assms(5) show ?thesis unfolding b(2) using b(1) by (auto simp: has_pid_def update_conv' split: if_splits)
qed

lemma reconcile_fold:
  assumes "keyed (rg_builds rg)" "pid_named (rg_builds rg)" "\<forall>(p, ok, t)\<in>set ps. 0 < pi_pid p"
    and "foldl (\<lambda>s e. reconcile_one resolve e s) (rg, seen) ps = (rg', seen')"
  shows "seen' = seen \<union> surfaced resolve ps \<and> all_kept (seen_roots resolve ps) (rg_builds rg) (rg_builds rg') \<and>
    (\<forall>q\<in>surfaced resolve ps. \<not> has_pid q (rg_builds rg) \<longrightarrow> fresh_record (seen_roots resolve ps) q (rg_builds rg')) \<and>
    dom (map_of (rg_builds rg')) =
      dom (map_of (rg_builds rg)) \<union> pid_id ` {q \<in> surfaced resolve ps. \<not> has_pid q (rg_builds rg)}"
  using assms
proof (induction ps arbitrary: rg seen)
  case Nil
  then show ?case by (auto simp: surfaced_def all_kept_def)
next
  case (Cons e ps)
  obtain p ok t where e: "e = (p, ok, t)" by (cases e)
  show ?case
  proof (cases "resolve (pi_cwd p)")
    case (Inl x)
    then have "surfaced resolve (e # ps) = surfaced resolve ps" "seen_roots resolve (e # ps) = seen_roots resolve ps"
      by (auto simp: surfaced_def seen_roots_def e)
    with Cons Inl show ?thesis by (simp add: reconcile_one_def e)
  next
    case (Inr wt)
    let ?b = "discovered p wt" and ?rg = "snd (rg_upsert ok (discovered p wt) t rg)"
    let ?R = "{(pi_pid p, wt_root wt)}" and ?S = "seen_roots resolve ps"
    have op: "?rg = reg_apply ok (UpsertOp ?b t) rg" by simp
    have k: "keyed (rg_builds ?rg)" unfolding op by (rule keyed_apply [OF Cons.prems(1)])
    have n: "pid_named (rg_builds ?rg)" unfolding op apply_builds
      by (rule core_pid_named [OF Cons.prems(1,2)]) (simp add: has_prefix_def)
    have pid: "pi_pid p \<noteq> 0" using Cons.prems(3) e by simp
    then obtain s bs where u: "upsert_core ?b t (rg_builds rg) = Inr (s, bs)"
      by (auto simp: upsert_core_def Let_def)
    then have bs: "rg_builds ?rg = bs" by (simp add: rg_upsert_def)
    note one = upsert_process [OF Cons.prems(1,2) pid u]
    have rest: "\<forall>(p, ok, t)\<in>set ps. 0 < pi_pid p"
      "foldl (\<lambda>s e. reconcile_one resolve e s) (?rg, insert (pi_pid p) seen) ps = (rg', seen')"
      using Cons.prems(3,4) Inr by (auto simp: reconcile_one_def e)
    note ih = Cons.IH [OF k n rest, unfolded bs]
    have su: "surfaced resolve (e # ps) = insert (pi_pid p) (surfaced resolve ps)" using Inr by (auto simp: surfaced_def e)
    have ro: "seen_roots resolve (e # ps) = ?R \<union> ?S" using Inr by (simp add: e roots_Cons)
    have keep: "all_kept (?R \<union> ?S) (rg_builds rg) (rg_builds rg')" using one ih by (blast intro: all_kept_trans)
    have mono: "fresh_record ?S q bs' \<Longrightarrow> fresh_record (?R \<union> ?S) q bs'" for q bs' by (auto simp: fresh_record_def)
    have hb: "has_pid q bs \<longleftrightarrow> has_pid q (rg_builds rg) \<or> q = pi_pid p" for q
    proof
      assume "has_pid q (rg_builds rg) \<or> q = pi_pid p"
      then show "has_pid q bs"
      proof
        assume "has_pid q (rg_builds rg)"
        with one show ?thesis by (fastforce simp: has_pid_def all_kept_def kept_def)
      next
        assume "q = pi_pid p"
        with upsert_has_pid [of ?b t "rg_builds rg" s bs] pid u show ?thesis by simp
      qed
    qed (use upsert_new_pid [OF Cons.prems(1,2) pid u] in blast)
    have new: "fresh_record (?R \<union> ?S) q (rg_builds rg')"
      if "q \<in> insert (pi_pid p) (surfaced resolve ps)" "\<not> has_pid q (rg_builds rg)" for q
    proof (cases "q = pi_pid p")
      case True
      with one that(2) have "fresh_record ?R q bs" by blast
      with ih fresh_kept show ?thesis by blast
    next
      case False
      with that hb ih have "fresh_record ?S q (rg_builds rg')" by blast
      then show ?thesis by (rule mono)
    qed
    have "dom (map_of (rg_builds rg')) = dom (map_of (rg_builds rg)) \<union>
        pid_id ` {q \<in> insert (pi_pid p) (surfaced resolve ps). \<not> has_pid q (rg_builds rg)}"
      using one ih hb by auto
    with ih keep new show ?thesis unfolding su ro by (auto simp del: Un_insert_left)
  qed
qed


definition demo_scan :: "(proc_info \<times> bool \<times> gotime) list" where
  "demo_scan = [(\<lparr>pi_pid = 7, pi_exe = ''/bin/bazel'', pi_cwd = ''/src''\<rparr>, True, 5)]"


text \<open>
  One process can be two builds.  A process discovered before its wrapper registers it is keyed by
  its pid; the registration makes a second record with the same pid, and both count as building.
\<close>

theorem register_duplicates_discovered:
  "let rg = snd (reconcile_once (resolve_from_cwd demo_fs) (Inr demo_scan) 6 True (new_registry None None :: unit registry));
       rg' = snd (rg_register True (empty_build\<lparr>b_id := ''u'', b_worktree := ''/src'', b_pid := 7\<rparr>) 8 rg)
   in c_building (rg_counts rg') = 2 \<and> map (\<lambda>(i, b). (i, b_pid b)) (rg_builds rg') = [(''pid-7'', 7), (''u'', 7)]"
proof -
  have r: "resolve_from_cwd demo_fs ''/src'' = Inr \<lparr>wt_root = ''/src'', wt_name = ''src'', wt_git = ''/src/.git''\<rparr>"
    by (simp add: resolve_from_cwd_def path_clean_def clean_step_def resolve_loop.simps resolve_at_def
        path_join_def demo_fs_def path_base_def)
  have p: "pid_id 7 = ''pid-7''" by code_simp
  show ?thesis
    by (simp add: reconcile_once_def demo_scan_def reconcile_one_def r new_registry_def rg_upsert_def upsert_core_def
        upsert_match_def by_pid_def Let_def discovered_def empty_build_def upsert_fresh_def p upsert_merge_def
        upsert_lifecycle_def publish_def persist_def broadcast_build_def rg_reap_def reap_core_def reapable_def
        rg_register_def register_core_def rg_counts_def count_build_def state_defs is_terminal_def)
qed

end
