(* ===== verification/Kill.thy ===== *)
theory Kill
  imports Discovery
begin

text \<open>
  Killing a build (\<open>internal/discovery/kill.go\<close>, \<open>killer.go\<close>): the signal state machine
  SIGINT/SIGTERM, grace window, SIGKILL, and the handler of \<open>POST /builds/{id}/kill\<close>.

  The system is a script of what each call observes: the live executable path, the result of each
  signal, and for every round of a wait the result of signal 0, the clock after it and whether the
  context was done.  A wait whose script ends is \<open>None\<close>; \<open>wait_returns\<close> shows how long a script is
  enough.
\<close>

section \<open>Configuration and outcomes\<close>

definition default_grace :: duration where "default_grace = 750 * millisecond"
definition default_poll :: duration where "default_poll = 25 * millisecond"
definition sigkill_settle :: duration where "sigkill_settle = 250 * millisecond"

datatype outcome = OutcomeGraceful | OutcomeSIGKILL | OutcomeCancelled | OutcomeAlreadyGone | OutcomeError

fun outcome_string :: "outcome \<Rightarrow> string" where
  "outcome_string OutcomeGraceful = ''sigint''"
| "outcome_string OutcomeSIGKILL = ''sigkill''"
| "outcome_string OutcomeCancelled = ''cancelled''"
| "outcome_string OutcomeAlreadyGone = ''already_gone''"
| "outcome_string OutcomeError = ''error''"

record kill_config =
  kc_grace :: duration
  kc_poll :: duration
  kc_cancel :: bool

definition cfg_grace :: "kill_config \<Rightarrow> duration" where
  "cfg_grace c = (if kc_grace c \<le> 0 then default_grace else kc_grace c)"

definition cfg_poll :: "kill_config \<Rightarrow> duration" where
  "cfg_poll c = (if kc_poll c \<le> 0 then default_poll else kc_poll c)"

record kill_spec =
  ks_pid :: int
  ks_exe :: string
  ks_force :: bool

section \<open>The system\<close>

text \<open>The error of a \<open>kill\<close> call: none, ESRCH, or another (EPERM).\<close>

datatype sys = SysOk | SysESRCH | SysOther

datatype live_path = LivePath string | LiveGone | LiveUnavailable | LiveUnsupported | LiveFailed

record probe =
  pr_sig :: sys
  pr_time :: gotime
  pr_done :: bool

record kill_env =
  ke_live :: live_path
  ke_first :: sys
  ke_cancel_start :: gotime
  ke_cancel :: "probe list"
  ke_grace_start :: gotime
  ke_grace :: "probe list"
  ke_kill :: sys
  ke_settle_start :: gotime
  ke_settle :: "probe list"

datatype signal = IntGroup | TermPid | KillPid

datatype kill_error = InvalidPid | CannotVerify | IdentityFailed | PidReused | KillFailed | SurvivedKill

section \<open>The state machine\<close>

definition pid_gone :: "sys \<Rightarrow> bool \<times> sys" where
  "pid_gone r = (case r of SysOk \<Rightarrow> (False, SysOk) | SysESRCH \<Rightarrow> (True, SysESRCH) | SysOther \<Rightarrow> (False, SysOther))"

fun wait_loop :: "gotime \<Rightarrow> probe list \<Rightarrow> bool option" where
  "wait_loop deadline [] = None"
| "wait_loop deadline (p # ps) =
     (let (gone, err) = pid_gone (pr_sig p) in
      if gone then Some True
      else if err \<noteq> SysOk \<and> err \<noteq> SysESRCH then Some False
      else if \<not> pr_time p < deadline then Some False
      else if pr_done p then Some False
      else wait_loop deadline ps)"

definition wait_gone :: "gotime \<Rightarrow> duration \<Rightarrow> probe list \<Rightarrow> bool option" where
  "wait_gone start budget ps = wait_loop (start + budget) ps"

definition graceful_signal :: "signal list" where
  "graceful_signal = [IntGroup, TermPid]"

type_synonym kill_result0 = "((outcome \<times> kill_error option) \<times> signal list) option"

definition do_sigkill :: "kill_env \<Rightarrow> signal list \<Rightarrow> kill_result0" where
  "do_sigkill env sent =
     (let sent' = sent @ [KillPid] in
      case ke_kill env of
        SysESRCH \<Rightarrow> Some ((OutcomeSIGKILL, None), sent')
      | SysOther \<Rightarrow> Some ((OutcomeError, Some KillFailed), sent')
      | SysOk \<Rightarrow>
          (case wait_gone (ke_settle_start env) sigkill_settle (ke_settle env) of
             None \<Rightarrow> None
           | Some True \<Rightarrow> Some ((OutcomeSIGKILL, None), sent')
           | Some False \<Rightarrow> Some ((OutcomeError, Some SurvivedKill), sent')))"

text \<open>Guard 0: what the identity check returns early, if it does.\<close>

definition identity_check :: "kill_spec \<Rightarrow> live_path \<Rightarrow> (outcome \<times> kill_error option) option" where
  "identity_check s live =
     (if ks_exe s = [] then None
      else case live of
        LiveGone \<Rightarrow> Some (OutcomeAlreadyGone, None)
      | LiveUnavailable \<Rightarrow> Some (OutcomeError, Some CannotVerify)
      | LiveUnsupported \<Rightarrow> None
      | LiveFailed \<Rightarrow> Some (OutcomeError, Some IdentityFailed)
      | LivePath cur \<Rightarrow> if cur \<noteq> ks_exe s then Some (OutcomeError, Some PidReused) else None)"

text \<open>The command-server cancel is a stub that always fails.\<close>

definition try_command_server_cancel :: "int \<Rightarrow> bool" where
  "try_command_server_cancel pid = False"

definition cancel_outcome :: "kill_config \<Rightarrow> int \<Rightarrow> kill_env \<Rightarrow> bool option" where
  "cancel_outcome cfg pid env =
     (if kc_cancel cfg \<and> try_command_server_cancel pid
      then wait_gone (ke_cancel_start env) (cfg_grace cfg) (ke_cancel env) else Some False)"

definition kill_proc :: "kill_config \<Rightarrow> kill_spec \<Rightarrow> kill_env \<Rightarrow> kill_result0" where
  "kill_proc cfg s env =
     (if ks_pid s \<le> 0 then Some ((OutcomeError, Some InvalidPid), [])
      else case identity_check s (ke_live env) of
        Some r \<Rightarrow> Some (r, [])
      | None \<Rightarrow>
          if fst (pid_gone (ke_first env)) then Some ((OutcomeAlreadyGone, None), [])
          else if ks_force s then do_sigkill env []
          else
            (case cancel_outcome cfg (ks_pid s) env of
               None \<Rightarrow> None
             | Some True \<Rightarrow> Some ((OutcomeCancelled, None), [])
             | Some False \<Rightarrow>
                 (case wait_gone (ke_grace_start env) (cfg_grace cfg) (ke_grace env) of
                    None \<Rightarrow> None
                  | Some True \<Rightarrow> Some ((OutcomeGraceful, None), graceful_signal)
                  | Some False \<Rightarrow> do_sigkill env graceful_signal)))"

section \<open>The protocol\<close>

text \<open>What the guard finds before anything is sent.\<close>

definition same_program :: "kill_spec \<Rightarrow> kill_env \<Rightarrow> bool" where
  "same_program s env \<longleftrightarrow> ks_exe s = [] \<or> ke_live env = LivePath (ks_exe s) \<or> ke_live env = LiveUnsupported"

definition refused :: "kill_spec \<Rightarrow> kill_env \<Rightarrow> bool" where
  "refused s env \<longleftrightarrow> ks_pid s \<le> 0 \<or> \<not> same_program s env \<and> ke_live env \<noteq> LiveGone"

definition vanished :: "kill_spec \<Rightarrow> kill_env \<Rightarrow> bool" where
  "vanished s env \<longleftrightarrow> 0 < ks_pid s \<and>
     (if same_program s env then ke_first env = SysESRCH else ke_live env = LiveGone)"

definition cleared :: "kill_spec \<Rightarrow> kill_env \<Rightarrow> bool" where
  "cleared s env \<longleftrightarrow> 0 < ks_pid s \<and> same_program s env \<and> ke_first env \<noteq> SysESRCH"

text \<open>
  A wait sees the process there until it sees it gone, or gives up: at the deadline, when the pid belongs to
  someone else, or when the request is cancelled.
\<close>

definition still_there :: "gotime \<Rightarrow> probe \<Rightarrow> bool" where
  "still_there deadline p \<longleftrightarrow> pr_sig p = SysOk \<and> pr_time p < deadline \<and> \<not> pr_done p"

definition sees_exit :: "gotime \<Rightarrow> probe list \<Rightarrow> bool" where
  "sees_exit deadline ps \<longleftrightarrow> (case dropWhile (still_there deadline) ps of [] \<Rightarrow> False | p # _ \<Rightarrow> pr_sig p = SysESRCH)"

definition gives_up :: "gotime \<Rightarrow> probe list \<Rightarrow> bool" where
  "gives_up deadline ps \<longleftrightarrow> (case dropWhile (still_there deadline) ps of [] \<Rightarrow> False | p # _ \<Rightarrow> pr_sig p \<noteq> SysESRCH)"

definition grace_deadline :: "kill_config \<Rightarrow> kill_env \<Rightarrow> gotime" where
  "grace_deadline cfg env = ke_grace_start env + cfg_grace cfg"

definition died :: "kill_env \<Rightarrow> bool" where
  "died env \<longleftrightarrow> ke_kill env = SysESRCH \<or>
     ke_kill env = SysOk \<and> sees_exit (ke_settle_start env + sigkill_settle) (ke_settle env)"

definition survived :: "kill_env \<Rightarrow> bool" where
  "survived env \<longleftrightarrow> ke_kill env = SysOther \<or>
     ke_kill env = SysOk \<and> gives_up (ke_settle_start env + sigkill_settle) (ke_settle env)"

text \<open>
  The abstract machine: a phase and the signals sent so far.  It says which signal may follow which, on
  what observation, and which outcome goes with which signals.
\<close>

datatype phase = Guard | Waiting | Killing | Settling | Ended outcome

inductive kill_step ::
  "kill_config \<Rightarrow> kill_spec \<Rightarrow> kill_env \<Rightarrow> phase \<times> signal list \<Rightarrow> phase \<times> signal list \<Rightarrow> bool" for cfg s env where
  Refuse: "refused s env \<Longrightarrow> kill_step cfg s env (Guard, []) (Ended OutcomeError, [])"
| Gone: "vanished s env \<Longrightarrow> kill_step cfg s env (Guard, []) (Ended OutcomeAlreadyGone, [])"
| Force: "cleared s env \<Longrightarrow> ks_force s \<Longrightarrow> kill_step cfg s env (Guard, []) (Killing, [])"
| Ask: "cleared s env \<Longrightarrow> \<not> ks_force s \<Longrightarrow> kill_step cfg s env (Guard, []) (Waiting, [IntGroup, TermPid])"
| Exited: "sees_exit (grace_deadline cfg env) (ke_grace env) \<Longrightarrow> kill_step cfg s env (Waiting, l) (Ended OutcomeGraceful, l)"
| Escalate: "gives_up (grace_deadline cfg env) (ke_grace env) \<Longrightarrow> kill_step cfg s env (Waiting, l) (Killing, l)"
| Kill: "kill_step cfg s env (Killing, l) (Settling, l @ [KillPid])"
| Died: "died env \<Longrightarrow> kill_step cfg s env (Settling, l) (Ended OutcomeSIGKILL, l)"
| Survived: "survived env \<Longrightarrow> kill_step cfg s env (Settling, l) (Ended OutcomeError, l)"

inductive_cases kill_stepE: "kill_step cfg s env (p, l) (q, m)"

definition kill_run :: "kill_config \<Rightarrow> kill_spec \<Rightarrow> kill_env \<Rightarrow> phase \<times> signal list \<Rightarrow> bool" where
  "kill_run cfg s env q \<longleftrightarrow> (kill_step cfg s env)\<^sup>*\<^sup>* (Guard, []) q"

lemma kill_run_step: "kill_run cfg s env q \<Longrightarrow> kill_step cfg s env q r \<Longrightarrow> kill_run cfg s env r"
  by (simp add: kill_run_def)

lemma kill_run_start: "kill_run cfg s env (Guard, [])"
  by (simp add: kill_run_def)

text \<open>The waits and the guard, decided.\<close>

lemma wait_sees:
  "wait_loop d ps = Some True \<longleftrightarrow> sees_exit d ps"
  "wait_loop d ps = Some False \<longleftrightarrow> gives_up d ps"
  by (induction ps)
    (auto simp: sees_exit_def gives_up_def still_there_def pid_gone_def Let_def split: sys.splits)

lemma guard_decides:
  "identity_check s (ke_live env) =
     (if same_program s env then None
      else if ke_live env = LiveGone then Some (OutcomeAlreadyGone, None)
      else Some (OutcomeError, Some (case ke_live env of LiveUnavailable \<Rightarrow> CannotVerify | LiveFailed \<Rightarrow> IdentityFailed | _ \<Rightarrow> PidReused)))"
  by (auto simp: identity_check_def same_program_def split: live_path.split)

lemma do_sigkill_decides:
  "do_sigkill env l = Some ((r, e), l') \<Longrightarrow>
     l' = l @ [KillPid] \<and> (died env \<and> r = OutcomeSIGKILL \<or> survived env \<and> r = OutcomeError)"
  "died env \<Longrightarrow> \<exists>e. do_sigkill env l = Some ((OutcomeSIGKILL, e), l @ [KillPid])"
  "survived env \<Longrightarrow> \<exists>e. do_sigkill env l = Some ((OutcomeError, e), l @ [KillPid])"
  by (auto simp: do_sigkill_def died_def survived_def wait_gone_def wait_sees [symmetric] Let_def
      split: sys.splits option.splits bool.splits)

lemma kill_cases:
  "refused s env \<Longrightarrow> \<exists>e. kill_proc cfg s env = Some ((OutcomeError, e), [])"
  "vanished s env \<Longrightarrow> \<exists>e. kill_proc cfg s env = Some ((OutcomeAlreadyGone, e), [])"
  "cleared s env \<Longrightarrow> ks_force s \<Longrightarrow> kill_proc cfg s env = do_sigkill env []"
  "cleared s env \<Longrightarrow> \<not> ks_force s \<Longrightarrow> kill_proc cfg s env =
     (case wait_loop (grace_deadline cfg env) (ke_grace env) of
        None \<Rightarrow> None
      | Some True \<Rightarrow> Some ((OutcomeGraceful, None), [IntGroup, TermPid])
      | Some False \<Rightarrow> do_sigkill env [IntGroup, TermPid])"
  by (auto simp: kill_proc_def guard_decides refused_def vanished_def cleared_def pid_gone_def cancel_outcome_def
      try_command_server_cancel_def wait_gone_def grace_deadline_def graceful_signal_def
      split: sys.splits if_splits option.split bool.split)

lemma guard_complete: "refused s env \<or> vanished s env \<or> cleared s env"
  by (auto simp: refused_def vanished_def cleared_def)

text \<open>What a run has behind it in each phase.\<close>

fun reached :: "kill_config \<Rightarrow> kill_spec \<Rightarrow> kill_env \<Rightarrow> phase \<Rightarrow> signal list \<Rightarrow> bool" where
  "reached cfg s env Guard l \<longleftrightarrow> l = []"
| "reached cfg s env Waiting l \<longleftrightarrow> cleared s env \<and> \<not> ks_force s \<and> l = [IntGroup, TermPid]"
| "reached cfg s env Killing l \<longleftrightarrow> kill_proc cfg s env = do_sigkill env l"
| "reached cfg s env Settling l \<longleftrightarrow> (\<exists>l'. l = l' @ [KillPid] \<and> kill_proc cfg s env = do_sigkill env l')"
| "reached cfg s env (Ended r) l \<longleftrightarrow> (\<exists>e. kill_proc cfg s env = Some ((r, e), l))"

lemma kill_run_reached: "kill_run cfg s env (p, l) \<Longrightarrow> reached cfg s env p l"
  unfolding kill_run_def
proof (induction "(p, l)" arbitrary: p l rule: rtranclp_induct)
  case (step q)
  obtain p' l' where q: "q = (p', l')" by fastforce
  with step have "kill_step cfg s env (p', l') (p, l)" "reached cfg s env p' l'" by simp_all
  then show ?case
    by (auto elim!: kill_stepE simp: kill_cases wait_sees [symmetric] do_sigkill_decides(2,3))
qed simp

lemma do_sigkill_run:
  assumes "kill_run cfg s env (Killing, l)" "do_sigkill env l = Some ((r, e), l')"
  shows "kill_run cfg s env (Ended r, l')"
  using do_sigkill_decides(1) [OF assms(2)] kill_run_step [OF assms(1) kill_step.Kill, THEN kill_run_step]
  by (auto intro: kill_step.intros)

lemma kill_proc_run:
  assumes "kill_proc cfg s env = Some ((r, e), l)"
  shows "kill_run cfg s env (Ended r, l)"
proof -
  note start = kill_run_start [of cfg s env]
  consider "refused s env" | "vanished s env" | "cleared s env" "ks_force s" | "cleared s env" "\<not> ks_force s"
    using guard_complete by blast
  then show ?thesis
  proof cases
    case 1
    with kill_cases(1) [OF 1, of cfg] assms kill_run_step [OF start kill_step.Refuse] show ?thesis by auto
  next
    case 2
    with kill_cases(2) [OF 2, of cfg] assms kill_run_step [OF start kill_step.Gone] show ?thesis by auto
  next
    case 3
    from do_sigkill_run [OF kill_run_step [OF start kill_step.Force [OF 3]]] show ?thesis
      using kill_cases(3) [OF 3] assms by simp
  next
    case 4
    let ?w = "wait_loop (grace_deadline cfg env) (ke_grace env)"
    note w = kill_run_step [OF start kill_step.Ask [OF 4]]
    show ?thesis
    proof (cases ?w)
      case None
      with kill_cases(4) [OF 4] assms show ?thesis by simp
    next
      case (Some b)
      with kill_cases(4) [OF 4] assms do_sigkill_run [OF kill_run_step [OF w kill_step.Escalate]]
        kill_run_step [OF w kill_step.Exited] show ?thesis by (cases b) (auto simp: wait_sees)
    qed
  qed
qed

text \<open>
  C15: the code implements the protocol, exactly.  Whatever the system answers, the signals that a kill sends
  and the outcome it reports are those of a run of the abstract machine from the guard to an end, and every
  such run is what the code does: it reports a graceful end only if it saw the process gone in the grace
  window, and it never escalates before it has given that window up.
\<close>

theorem kill_proc_refines:
  "(\<exists>e. kill_proc cfg s env = Some ((r, e), l)) = kill_run cfg s env (Ended r, l)"
  using kill_proc_run kill_run_reached by fastforce

definition quiet_env :: kill_env where
  "quiet_env = \<lparr>ke_live = LivePath ''/bin/bazel'', ke_first = SysOk, ke_cancel_start = 0, ke_cancel = [], ke_grace_start = 0,
     ke_grace = [\<lparr>pr_sig = SysOk, pr_time = 25000000, pr_done = False\<rparr>, \<lparr>pr_sig = SysESRCH, pr_time = 50000000, pr_done = False\<rparr>],
     ke_kill = SysOk, ke_settle_start = 0, ke_settle = []\<rparr>"

definition plain_cfg :: kill_config where
  "plain_cfg = \<lparr>kc_grace = 0, kc_poll = 0, kc_cancel = False\<rparr>"

definition bazel_spec :: kill_spec where
  "bazel_spec = \<lparr>ks_pid = 7, ks_exe = ''/bin/bazel'', ks_force = False\<rparr>"

lemmas kill_simps = kill_proc_def identity_check_def pid_gone_def cancel_outcome_def wait_gone_def cfg_grace_def
  default_grace_def time_simps bazel_spec_def plain_cfg_def quiet_env_def

text \<open>
  C18: SIGKILL is the last resort.  Unless the request forces it, SIGKILL goes only to a process that has had
  SIGINT and SIGTERM, as the last signal, and only after the grace window was given up.  The outcome "sigint"
  means that the process was seen gone in that window, "sigkill" that it was seen gone after SIGKILL, and
  "already gone" that nothing was sent.
\<close>

theorem sigkill_last_resort:
  assumes "kill_proc cfg s env = Some ((r, e), l)"
  shows "(KillPid \<in> set l \<and> \<not> ks_force s \<longrightarrow>
      l = [IntGroup, TermPid, KillPid] \<and> gives_up (grace_deadline cfg env) (ke_grace env)) \<and>
    (r = OutcomeSIGKILL \<longrightarrow> last l = KillPid \<and> died env) \<and>
    (r = OutcomeGraceful \<longrightarrow> l = [IntGroup, TermPid] \<and> sees_exit (grace_deadline cfg env) (ke_grace env)) \<and>
    (r = OutcomeAlreadyGone \<longrightarrow> l = [] \<and> vanished s env) \<and> r \<noteq> OutcomeCancelled"
proof -
  consider "refused s env" | "vanished s env" | "cleared s env" "ks_force s" | "cleared s env" "\<not> ks_force s"
    using guard_complete by blast
  then show ?thesis
  proof cases
    case 1
    with kill_cases(1) [OF 1, of cfg] assms show ?thesis by auto
  next
    case 2
    with kill_cases(2) [OF 2, of cfg] assms show ?thesis by auto
  next
    case 3
    with kill_cases(3) [OF 3] assms do_sigkill_decides(1) [of env "[]" r e l] show ?thesis by auto
  next
    case 4
    with kill_cases(4) [OF 4] assms do_sigkill_decides(1) [of env "[IntGroup, TermPid]" r e l] show ?thesis
      by (auto simp: wait_sees split: option.splits bool.splits)
  qed
qed

theorem sigkill_last_resort_witness:
  "KillPid \<notin> set (snd (the (kill_proc plain_cfg bazel_spec quiet_env)))"
proof -
  have "kill_proc plain_cfg bazel_spec quiet_env = Some ((OutcomeGraceful, None), [IntGroup, TermPid])"
    by (simp add: kill_simps graceful_signal_def)
  with sigkill_last_resort [OF this] show ?thesis by simp
qed

lemma gives_up_at:
  assumes "\<forall>q\<in>set qs. still_there d q" and "\<not> still_there d p" and "pr_sig p \<noteq> SysESRCH"
  shows "wait_loop d (qs @ p # ps) = Some False"
  using assms by (simp add: wait_sees gives_up_def dropWhile_append2)

text \<open>
  C38: the grace window is not kept when the client goes away or the pid changes hands.  If at any look, however
  early, the request is found cancelled or the pid in the hands of another user, the wait ends there and
  SIGKILL is the next call: whatever later looks would have seen, the signals attempted are SIGINT, SIGTERM and
  SIGKILL, and the outcome is that of the SIGKILL, a death or an error.
\<close>

theorem cancelled_request_escalates:
  assumes "cleared s env" and "\<not> ks_force s" and "ke_grace env = qs @ p # ps"
    and "\<forall>q\<in>set qs. still_there (grace_deadline cfg env) q"
    and "pr_sig p = SysOk \<and> pr_done p \<or> pr_sig p = SysOther"
  shows "(\<forall>r l. kill_proc cfg s env = Some (r, l) \<longrightarrow> l = [IntGroup, TermPid, KillPid]) \<and>
    (died env \<longrightarrow> (\<exists>e. kill_proc cfg s env = Some ((OutcomeSIGKILL, e), [IntGroup, TermPid, KillPid]))) \<and>
    (survived env \<longrightarrow> (\<exists>e. kill_proc cfg s env = Some ((OutcomeError, e), [IntGroup, TermPid, KillPid])))"
proof -
  have p: "\<not> still_there (grace_deadline cfg env) p" "pr_sig p \<noteq> SysESRCH" using assms(5) by (auto simp: still_there_def)
  have k: "kill_proc cfg s env = do_sigkill env [IntGroup, TermPid]"
    using gives_up_at [OF assms(4) p, of ps] by (simp add: kill_cases(4) [OF assms(1,2)] assms(3))
  have "l = [IntGroup, TermPid, KillPid]" if "kill_proc cfg s env = Some (r, l)" for r l
    using do_sigkill_decides(1) [of env "[IntGroup, TermPid]" "fst r" "snd r" l] that k by simp
  moreover note do_sigkill_decides(2,3) [of env "[IntGroup, TermPid]"]
  ultimately show ?thesis unfolding k by simp
qed

theorem cancelled_request_escalates_witness:
  "\<exists>e. kill_proc plain_cfg bazel_spec (quiet_env\<lparr>ke_grace :=
        [\<lparr>pr_sig = SysOk, pr_time = 1, pr_done = False\<rparr>, \<lparr>pr_sig = SysOk, pr_time = 2, pr_done = True\<rparr>, \<lparr>pr_sig = SysESRCH, pr_time = 3, pr_done = False\<rparr>],
        ke_kill := SysESRCH\<rparr>) =
     Some ((OutcomeSIGKILL, e), [IntGroup, TermPid, KillPid])"
proof -
  let ?q = "\<lparr>pr_sig = SysOk, pr_time = 1, pr_done = False\<rparr>"
  let ?p = "\<lparr>pr_sig = SysOk, pr_time = 2, pr_done = True\<rparr>"
  let ?r = "\<lparr>pr_sig = SysESRCH, pr_time = 3, pr_done = False\<rparr>"
  let ?e = "quiet_env\<lparr>ke_grace := [?q, ?p, ?r], ke_kill := SysESRCH\<rparr>"
  have "cleared bazel_spec ?e" by (simp add: cleared_def same_program_def quiet_env_def bazel_spec_def)
  moreover have "\<not> ks_force bazel_spec" by (simp add: bazel_spec_def)
  moreover have "ke_grace ?e = [?q] @ ?p # [?r]" by simp
  moreover have "\<forall>q\<in>set [?q]. still_there (grace_deadline plain_cfg ?e) q"
    by (simp add: still_there_def grace_deadline_def quiet_env_def plain_cfg_def cfg_grace_def default_grace_def kill_simps)
  moreover have "pr_sig ?p = SysOk \<and> pr_done ?p \<or> pr_sig ?p = SysOther" by simp
  ultimately have "died ?e \<longrightarrow> (\<exists>e. kill_proc plain_cfg bazel_spec ?e = Some ((OutcomeSIGKILL, e), [IntGroup, TermPid, KillPid]))"
    using cancelled_request_escalates [of bazel_spec ?e "[?q]" ?p "[?r]" plain_cfg] by blast
  then show ?thesis by (simp add: died_def)
qed

text \<open>
  A pid that has gone to another program is never signalled.  If discovery recorded an executable
  and the live one cannot be read or differs, the kill reports an error and sends nothing.
\<close>

theorem reused_pid_not_signalled:
  assumes "ks_exe s \<noteq> []" and "ke_live env \<notin> {LivePath (ks_exe s), LiveGone, LiveUnsupported}"
  shows "\<exists>e. kill_proc cfg s env = Some ((OutcomeError, Some e), [])"
  using assms by (cases "ke_live env") (auto simp: kill_proc_def identity_check_def)

theorem reused_pid_not_signalled_witness:
  "\<exists>e. kill_proc plain_cfg bazel_spec (quiet_env\<lparr>ke_live := LivePath ''/bin/zsh''\<rparr>) = Some ((OutcomeError, Some e), [])"
  by (rule reused_pid_not_signalled) (simp_all add: bazel_spec_def)

section \<open>How long a kill takes\<close>

text \<open>The timer: a round starts no sooner than one poll interval after the round before.\<close>

fun paced :: "gotime \<Rightarrow> duration \<Rightarrow> probe list \<Rightarrow> bool" where
  "paced t every [] \<longleftrightarrow> True"
| "paced t every (p # ps) \<longleftrightarrow> t \<le> pr_time p \<and> paced (pr_time p + every) every ps"

lemma wait_returns:
  assumes "0 < every" "paced t every ps" "deadline \<le> t + int (length ps) * every - every"
  shows "ps \<noteq> [] \<Longrightarrow> wait_loop deadline ps \<noteq> None"
  using assms
proof (induction ps arbitrary: t)
  case (Cons p ps)
  show ?case
  proof (cases "pr_time p < deadline")
    case True
    have "deadline \<le> pr_time p + every + int (length ps) * every - every"
      using Cons.prems(3,4) by (simp add: algebra_simps)
    moreover have "ps \<noteq> []" using True Cons.prems(2-4) by auto
    ultimately show ?thesis using Cons.IH [of "pr_time p + every"] Cons.prems(2,3) by (auto simp: Let_def split: prod.split)
  qed (auto simp: pid_gone_def Let_def split: sys.split)
qed simp

definition rounds :: "duration \<Rightarrow> duration \<Rightarrow> nat" where
  "rounds budget every = nat (budget div every) + 2"

lemma wait_gone_returns:
  assumes "0 < every" "0 \<le> budget" "paced start every ps" "rounds budget every \<le> length ps"
  shows "wait_gone start budget ps \<noteq> None"
proof -
  have "budget mod every < every" using assms(1) by simp
  with div_mult_mod_eq [of budget every] have "budget \<le> (budget div every + 1) * every"
    unfolding distrib_right by linarith
  moreover have "budget div every + 1 \<le> int (length ps) - 1"
    using assms(1,2,4) by (simp add: rounds_def pos_imp_zdiv_nonneg_iff nat_le_iff)
  then have "(budget div every + 1) * every \<le> (int (length ps) - 1) * every"
    using assms(1) by (intro mult_right_mono) auto
  ultimately have "start + budget \<le> start + int (length ps) * every - every" by (simp add: algebra_simps)
  moreover have "ps \<noteq> []" using assms(4) by (auto simp: rounds_def)
  ultimately show ?thesis using wait_returns [OF assms(1,3)] by (simp add: wait_gone_def)
qed

text \<open>
  C17: a kill returns.  With the polling timer firing no sooner than the interval, the grace window
  ends after at most \<open>grace/poll + 2\<close> probes and the settle window likewise (32 and 12 by default), so
  scripts of that length are always enough, whatever the process does.
\<close>

theorem kill_returns:
  assumes "paced (ke_grace_start env) (cfg_poll cfg) (ke_grace env)"
    and "paced (ke_settle_start env) (cfg_poll cfg) (ke_settle env)"
    and "rounds (cfg_grace cfg) (cfg_poll cfg) \<le> length (ke_grace env)"
    and "rounds sigkill_settle (cfg_poll cfg) \<le> length (ke_settle env)"
  shows "\<exists>r l. kill_proc cfg s env = Some (r, l)"
proof -
  have p: "0 < cfg_poll cfg" "0 \<le> cfg_grace cfg" "0 \<le> sigkill_settle"
    by (auto simp: cfg_poll_def default_poll_def cfg_grace_def default_grace_def sigkill_settle_def time_simps)
  note g = wait_gone_returns [OF p(1,2) assms(1,3)] and k = wait_gone_returns [OF p(1,3) assms(2,4)]
  from k have d: "do_sigkill env l \<noteq> None" for l
    by (auto simp: do_sigkill_def Let_def split: sys.split option.split bool.split)
  with g show ?thesis
    by (auto simp: kill_proc_def cancel_outcome_def try_command_server_cancel_def split: option.split bool.split)
qed

definition stubborn_env :: kill_env where
  "stubborn_env = quiet_env\<lparr>
     ke_grace := map (\<lambda>k. \<lparr>pr_sig = SysOk, pr_time = 25000000 * int k, pr_done = False\<rparr>) [0..<32],
     ke_settle := map (\<lambda>k. \<lparr>pr_sig = SysOk, pr_time = 25000000 * int k, pr_done = False\<rparr>) [0..<12]\<rparr>"

lemma paced_even: "paced (t + d * int a) d (map (\<lambda>k. \<lparr>pr_sig = SysOk, pr_time = t + d * int k, pr_done = False\<rparr>) [a..<a + n])"
proof (induction n arbitrary: a)
  case (Suc n)
  have "[a..<a + Suc n] = a # [Suc a..<Suc a + n]" by (simp add: upt_conv_Cons)
  with Suc [of "Suc a"] show ?case by (simp add: algebra_simps)
qed simp

theorem kill_returns_witness: "\<exists>r l. kill_proc plain_cfg bazel_spec stubborn_env = Some (r, l)"
proof (rule kill_returns)
  have p: "cfg_poll plain_cfg = 25000000" "cfg_grace plain_cfg = 750000000" "sigkill_settle = 250000000"
    by (simp_all add: cfg_poll_def cfg_grace_def plain_cfg_def default_poll_def default_grace_def sigkill_settle_def time_simps)
  show "paced (ke_grace_start stubborn_env) (cfg_poll plain_cfg) (ke_grace stubborn_env)"
    using paced_even [of 0 25000000 0 32] by (simp add: stubborn_env_def quiet_env_def p)
  show "paced (ke_settle_start stubborn_env) (cfg_poll plain_cfg) (ke_settle stubborn_env)"
    using paced_even [of 0 25000000 0 12] by (simp add: stubborn_env_def quiet_env_def p)
  show "rounds (cfg_grace plain_cfg) (cfg_poll plain_cfg) \<le> length (ke_grace stubborn_env)"
    "rounds sigkill_settle (cfg_poll plain_cfg) \<le> length (ke_settle stubborn_env)"
    by (simp_all add: stubborn_env_def rounds_def p)
qed

section \<open>The handler\<close>

record api_kill =
  kr_killed :: bool
  kr_id :: string
  kr_pid :: int
  kr_outcome :: string
  kr_elapsed :: int

datatype kill_reply = KillError nat string string | KillReply nat api_kill

text \<open>
  The body is the pair of knobs \<open>force\<close> and \<open>use_cancel\<close> after the tolerant decode, \<open>freshen\<close> the
  reconcile-on-demand (its error is only logged), \<open>took\<close> the time measured around the kill.  The
  result carries the signals sent.
\<close>

definition handle_kill ::
  "kill_config \<Rightarrow> ('m registry \<Rightarrow> 'm registry) option \<Rightarrow> string \<Rightarrow> bool \<times> bool \<Rightarrow> kill_env \<Rightarrow> duration \<Rightarrow> 'm registry
     \<Rightarrow> (kill_reply \<times> signal list \<times> 'm registry) option" where
  "handle_kill cfg freshen i body env took rg =
     (if i = [] then Some (KillError 400 ''bad_request'' ''invocation_id required'', [], rg)
      else
        let (force, use_cancel) = body;
            rg' = (case freshen of None \<Rightarrow> rg | Some f \<Rightarrow> f rg)
        in case rg_get i rg' of
             None \<Rightarrow> Some (KillError 404 ''not_found'' (''no build matching '' @ i), [], rg')
           | Some b \<Rightarrow>
               if b_pid b \<le> 0 then Some (KillError 409 ''no_pid'' (''build '' @ i @ '' has no known pid to kill''), [], rg')
               else
                 let cfg' = (if use_cancel then cfg\<lparr>kc_cancel := True\<rparr> else cfg);
                     reply = (\<lambda>killed outcome. \<lparr>kr_killed = killed, kr_id = i, kr_pid = b_pid b,
                                kr_outcome = outcome_string outcome, kr_elapsed = dur_milliseconds took\<rparr>)
                 in case kill_proc cfg' \<lparr>ks_pid = b_pid b, ks_exe = b_exe b, ks_force = force\<rparr> env of
                      None \<Rightarrow> None
                    | Some ((outcome, err), sent) \<Rightarrow>
                        if err \<noteq> None then Some (KillReply 500 (reply False OutcomeError), sent, rg')
                        else Some (KillReply 200 (reply (outcome \<noteq> OutcomeError) outcome), sent, rg'))"

lemma error_reported:
  "kill_proc cfg s env = Some ((r, e), l) \<Longrightarrow> r = OutcomeError \<longleftrightarrow> e \<noteq> None"
  by (auto simp: kill_proc_def identity_check_def do_sigkill_def Let_def
      split: if_splits option.splits live_path.splits sys.splits bool.splits)

text \<open>The process is gone: before anything was sent, in the grace window, or after SIGKILL.\<close>

definition process_gone :: "kill_config \<Rightarrow> kill_spec \<Rightarrow> kill_env \<Rightarrow> bool" where
  "process_gone cfg s env \<longleftrightarrow> vanished s env \<or>
     cleared s env \<and> (\<not> ks_force s \<and> sees_exit (grace_deadline cfg env) (ke_grace env) \<or>
                      (ks_force s \<or> gives_up (grace_deadline cfg env) (ke_grace env)) \<and> died env)"

lemma sees_one: "sees_exit d ps \<Longrightarrow> \<not> gives_up d ps"
  by (auto simp: sees_exit_def gives_up_def split: list.splits)

lemma dies_or_survives: "died env \<Longrightarrow> \<not> survived env"
  by (auto simp: died_def survived_def dest: sees_one)

lemma kill_succeeds_iff:
  assumes "kill_proc cfg s env = Some ((r, e), l)"
  shows "e = None \<longleftrightarrow> process_gone cfg s env"
proof -
  from error_reported [OF assms] have e: "e = None \<longleftrightarrow> r \<noteq> OutcomeError" by blast
  consider "refused s env" | "vanished s env" | "cleared s env" "ks_force s" | "cleared s env" "\<not> ks_force s"
    using guard_complete by blast
  then show ?thesis
  proof cases
    case 1
    with kill_cases(1) [OF 1, of cfg] assms e show ?thesis
      by (auto simp: process_gone_def refused_def vanished_def cleared_def split: if_splits)
  next
    case 2
    with kill_cases(2) [OF 2, of cfg] assms e show ?thesis by (auto simp: process_gone_def)
  next
    case 3
    then have "\<not> vanished s env" by (auto simp: vanished_def cleared_def)
    with 3 kill_cases(3) [OF 3] assms e do_sigkill_decides(1) [of env "[]" r e l] show ?thesis
      by (auto simp: process_gone_def dest: dies_or_survives)
  next
    case 4
    then have "\<not> vanished s env" by (auto simp: vanished_def cleared_def)
    with 4 kill_cases(4) [OF 4] assms e do_sigkill_decides(1) [of env "[IntGroup, TermPid]" r e l] show ?thesis
      by (auto simp: process_gone_def wait_sees split: option.splits bool.splits dest: dies_or_survives sees_one)
  qed
qed

text \<open>
  "killed" means gone.  A reply 200 reports killed and one of the outcomes of a process that is
  gone, 500 reports not killed; the other statuses send no signal.
\<close>

theorem kill_reply_sound:
  assumes "handle_kill cfg freshen i body env took rg = Some (reply, sent, rg')"
  shows "case reply of
      KillError st _ _ \<Rightarrow> st \<in> {400, 404, 409} \<and> sent = []
    | KillReply st k \<Rightarrow> kr_id k = i \<and> (st = 200 \<and> kr_killed k \<and> kr_outcome k \<noteq> ''error'' \<or>
                                   st = 500 \<and> \<not> kr_killed k \<and> kr_outcome k = ''error'')"
proof -
  have "outcome_string r \<noteq> ''error''" if "r \<noteq> OutcomeError" for r using that by (cases r) auto
  with assms show ?thesis
    by (auto simp: handle_kill_def Let_def dest: error_reported split: if_splits option.splits prod.splits)
qed

definition unseen_finished :: "unit registry" where
  "unseen_finished = one_finished\<lparr>rg_builds := [(''a'', finished_build\<lparr>b_pid := 7\<rparr>)]\<rparr>"

theorem kill_reply_sound_witness:
  "\<exists>reply sent rg'. handle_kill plain_cfg None ''b'' (True, False) quiet_env 0 unseen_finished = Some (reply, sent, rg') \<and>
     (\<exists>st c m. reply = KillError st c m \<and> st \<in> {400, 404, 409}) \<and> sent = []"
proof -
  have "handle_kill plain_cfg None ''b'' (True, False) quiet_env 0 unseen_finished =
      Some (KillError 404 ''not_found'' ''no build matching b'', [], unseen_finished)"
    by (simp add: handle_kill_def unseen_finished_def rg_get_def)
  with kill_reply_sound [OF this] show ?thesis by simp
qed

text \<open>
  The handler kills by a stale pid.  It does not look at the state of the build, and a build that
  no scan has seen carries no executable to check, so a kill of a build that finished long ago signals
  the process that has its pid now.
\<close>

theorem finished_build_signalled:
  assumes "rg_get i rg = Some b" and "is_terminal (b_state b)" and "b_exe b = []" and "0 < b_pid b" and "i \<noteq> []"
    and "ke_first env = SysOk" and "ke_kill env = SysOther"
  shows "\<exists>r. handle_kill cfg None i (True, cancel) env took rg = Some (r, [KillPid], rg)"
  using assms by (simp add: handle_kill_def kill_proc_def identity_check_def pid_gone_def do_sigkill_def Let_def)

theorem finished_build_signalled_witness:
  "\<exists>r. handle_kill plain_cfg None ''a'' (True, False) (quiet_env\<lparr>ke_kill := SysOther\<rparr>) 0 unseen_finished =
     Some (r, [KillPid], unseen_finished)"
  by (rule finished_build_signalled [where b = "finished_build\<lparr>b_pid := 7\<rparr>"])
     (simp_all add: unseen_finished_def rg_get_def finished_build_def empty_build_def quiet_env_def)

end
