(* ===== verification/Bep_Stream.thy ===== *)
theory Bep_Stream
  imports Go_Path Registry_Props
begin

text \<open>
  The ingest of one build event stream (\<open>internal/bep/dispatch.go\<close>, \<open>tailer.go\<close>): decoding of the
  lines, accumulation of the metrics row, and finalization into the store and the registry.

  As the daemon wires it, the metrics sink of a stream is the store its registry writes to, so a
  stream works on a registry (with its store).  The protobuf codec, the profile URL and the hook after
  finalization are parameters.  \<open>io\<close> says for one event which database calls succeed and what the
  clock shows; all readings of the clock during one event are the same instant.
\<close>

section \<open>Events\<close>

datatype test_status = TestPassed | TestFlaky | TestOther

record bep_started =
  bs_uuid :: string
  bs_command :: string
  bs_start :: "gotime option"
  bs_start_ms :: int
  bs_workdir :: string

record bep_finished =
  bf_code :: int
  bf_time :: "gotime option"
  bf_time_ms :: int

datatype payload =
    Started bep_started
  | TestResult test_status
  | BuildMetrics "build_metrics option"
  | Finished bep_finished
  | OtherPayload

record bep_event =
  be_payload :: payload
  be_pattern :: "string list"
  be_last :: bool

section \<open>State\<close>

record stream =
  ss_path :: string
  ss_worktree :: string
  ss_row :: "mrow option"
  ss_command :: string
  ss_patterns :: "string list"
  ss_raw :: string
  ss_bound :: bool
  ss_finalized :: bool
  ss_parse_errs :: nat

record 'm stream_config =
  sc_decode :: "string \<Rightarrow> bep_event option"
  sc_marshal :: "build_metrics option \<Rightarrow> string option"
  sc_profile_url :: "string \<Rightarrow> string"
  sc_alert :: alert_config
  sc_on_finalize :: "mrow \<Rightarrow> 'm registry \<Rightarrow> 'm registry"

record io =
  io_history :: bool
  io_metrics :: bool
  io_row :: bool
  io_now :: gotime

definition profile_path_for :: "string \<Rightarrow> string" where
  "profile_path_for wt = (if wt = [] then [] else path_join [wt, ''.bazel-broker'', ''command.profile.gz''])"

definition fresh_row :: "string \<Rightarrow> string \<Rightarrow> mrow" where
  "fresh_row path wt = empty_row\<lparr>m_bep_path := path, m_worktree := wt, m_profile_path := profile_path_for wt\<rparr>"

definition reset_state :: "stream \<Rightarrow> stream" where
  "reset_state s = s\<lparr>ss_row := Some (fresh_row (ss_path s) (ss_worktree s)), ss_raw := [], ss_bound := False,
     ss_finalized := False\<rparr>"

definition new_stream :: "string \<Rightarrow> string \<Rightarrow> stream" where
  "new_stream path wt = reset_state \<lparr>ss_path = path, ss_worktree = wt, ss_row = None, ss_command = [], ss_patterns = [],
     ss_raw = [], ss_bound = False, ss_finalized = False, ss_parse_errs = 0\<rparr>"

definition row_of :: "stream \<Rightarrow> mrow" where
  "row_of s = (case ss_row s of Some r \<Rightarrow> r | None \<Rightarrow> empty_row)"

definition upd_row :: "(mrow \<Rightarrow> mrow) \<Rightarrow> stream \<Rightarrow> stream" where
  "upd_row f s = s\<lparr>ss_row := map_option f (ss_row s)\<rparr>"

section \<open>Enrichment of the registry\<close>

definition push_command_targets :: "io \<Rightarrow> stream \<Rightarrow> 'm registry \<Rightarrow> 'm registry" where
  "push_command_targets io s rg =
     (if \<not> ss_bound s \<or> m_id (row_of s) = [] then rg
      else if ss_command s = [] \<and> ss_patterns s = [] then rg
      else snd (rg_upsert (io_row io)
             (empty_build\<lparr>b_id := m_id (row_of s), b_command := ss_command s, b_targets := ss_patterns s\<rparr>)
             (io_now io) rg))"

definition stub_build :: "io \<Rightarrow> stream \<Rightarrow> build" where
  "stub_build io s =
     empty_build\<lparr>b_id := m_id (row_of s), b_worktree := m_worktree (row_of s), b_command := ss_command s,
       b_state := state_running, b_source := source_discovered, b_start := io_now io\<rparr>"

definition bind_build :: "io \<Rightarrow> stream \<Rightarrow> 'm registry \<Rightarrow> stream \<times> 'm registry" where
  "bind_build io s rg =
     (if ss_bound s \<or> m_id (row_of s) = [] then (s, rg)
      else
        let s1 = s\<lparr>ss_bound := True\<rparr>;
            rg1 = (case rg_get (m_id (row_of s)) rg of
                     Some _ \<Rightarrow> rg
                   | None \<Rightarrow> snd (rg_upsert (io_row io) (stub_build io s) (io_now io) rg))
        in (s1, push_command_targets io s1 rg1))"

section \<open>Finalization\<close>

definition finalize_alert :: "'m stream_config \<Rightarrow> io \<Rightarrow> mrow \<Rightarrow> 'm registry \<Rightarrow> mrow" where
  "finalize_alert cfg io r rg =
     (case (cache_hit_ratio r, rg_store rg) of
        (Some ratio, Some st) \<Rightarrow>
          let hist = (case recent_ratios (io_history io) (m_worktree r) (m_id r) 10 st of Inl _ \<Rightarrow> [] | Inr h \<Rightarrow> h)
          in r\<lparr>m_alert := evaluate_alert ratio (m_processes r) hist (sc_alert cfg)\<rparr>
      | _ \<Rightarrow> r)"

definition persist_metrics :: "io \<Rightarrow> mrow \<Rightarrow> string \<Rightarrow> 'm registry \<Rightarrow> 'm registry" where
  "persist_metrics io r raw rg =
     (case rg_store rg of
        None \<Rightarrow> rg
      | Some st \<Rightarrow> (case upsert_metrics (io_metrics io) r raw st of Inl _ \<Rightarrow> rg | Inr st' \<Rightarrow> rg\<lparr>rg_store := Some st'\<rparr>))"

definition enrich_build :: "'m stream_config \<Rightarrow> io \<Rightarrow> mrow \<Rightarrow> build" where
  "enrich_build cfg io r =
     empty_build\<lparr>b_id := m_id r,
       b_state := (if m_has_finish r \<and> \<not> m_success r then state_failed else state_finished),
       b_exit := m_exit r,
       b_end := (if m_finished r \<noteq> 0 then time_of_milli (m_finished r) else io_now io),
       b_profile := sc_profile_url cfg (m_id r),
       b_ratio := cache_hit_ratio r\<rparr>"

definition finalize :: "'m stream_config \<Rightarrow> io \<Rightarrow> stream \<times> 'm registry \<Rightarrow> stream \<times> 'm registry" where
  "finalize cfg io q =
     (let (s, rg) = q in
      case ss_row s of
        None \<Rightarrow> (s, rg)
      | Some r \<Rightarrow>
          if ss_finalized s \<or> m_id r = [] then (s, rg)
          else
            let r1 = finalize_alert cfg io r rg;
                rg1 = persist_metrics io r1 (ss_raw s) rg;
                rg2 = snd (rg_upsert (io_row io) (enrich_build cfg io r1) (io_now io) rg1)
            in (s\<lparr>ss_finalized := True, ss_row := Some r1\<rparr>, sc_on_finalize cfg r1 rg2))"

section \<open>Dispatch\<close>

definition on_started :: "bep_started \<Rightarrow> stream \<Rightarrow> stream" where
  "on_started st s =
     (let s1 = (upd_row (\<lambda>r. r\<lparr>m_id := bs_uuid st\<rparr>) s)\<lparr>ss_command := bs_command st\<rparr>;
          s2 = (case bs_start st of
                  Some t \<Rightarrow> upd_row (\<lambda>r. r\<lparr>m_started := unix_milli t\<rparr>) s1
                | None \<Rightarrow> if bs_start_ms st \<noteq> 0 then upd_row (\<lambda>r. r\<lparr>m_started := bs_start_ms st\<rparr>) s1 else s1)
      in if bs_workdir st \<noteq> []
         then upd_row (\<lambda>r. r\<lparr>m_worktree := bs_workdir st, m_profile_path := profile_path_for (bs_workdir st)\<rparr>) s2
         else s2)"

definition on_test :: "test_status \<Rightarrow> mrow \<Rightarrow> mrow" where
  "on_test ts r =
     (let r1 = r\<lparr>m_tests := wrap64 (m_tests r + 1)\<rparr>
      in if ts \<noteq> TestPassed \<and> ts \<noteq> TestFlaky then r1\<lparr>m_tests_failed := wrap64 (m_tests_failed r1 + 1)\<rparr> else r1)"

definition on_finished :: "bep_finished \<Rightarrow> mrow \<Rightarrow> mrow" where
  "on_finished f r =
     (let r1 = r\<lparr>m_has_finish := True, m_exit := bf_code f, m_success := (bf_code f = 0)\<rparr>
      in case bf_time f of
           Some t \<Rightarrow> r1\<lparr>m_finished := unix_milli t\<rparr>
         | None \<Rightarrow> if bf_time_ms f \<noteq> 0 then r1\<lparr>m_finished := bf_time_ms f\<rparr> else r1)"

definition on_payload :: "'m stream_config \<Rightarrow> io \<Rightarrow> payload \<Rightarrow> stream \<times> 'm registry \<Rightarrow> stream \<times> 'm registry" where
  "on_payload cfg io p q =
     (let (s, rg) = q in
      case p of
        Started st \<Rightarrow> bind_build io (on_started st s) rg
      | TestResult ts \<Rightarrow> (upd_row (on_test ts) s, rg)
      | BuildMetrics bm \<Rightarrow>
          let s1 = upd_row (extract_metrics bm) s
          in (case sc_marshal cfg bm of None \<Rightarrow> s1 | Some raw \<Rightarrow> s1\<lparr>ss_raw := raw\<rparr>, rg)
      | Finished f \<Rightarrow> (upd_row (on_finished f) s, rg)
      | OtherPayload \<Rightarrow> (s, rg))"

definition dispatch :: "'m stream_config \<Rightarrow> io \<Rightarrow> bep_event \<Rightarrow> stream \<times> 'm registry \<Rightarrow> stream \<times> 'm registry" where
  "dispatch cfg io ev q =
     (let (s, rg) = q;
          s0 = (if ss_row s = None then reset_state s else s);
          (s1, rg1) = on_payload cfg io (be_payload ev) (s0, rg);
          (s2, rg2) = (if be_pattern ev \<noteq> []
                       then let s' = s1\<lparr>ss_patterns := be_pattern ev\<rparr> in (s', push_command_targets io s' rg1)
                       else (s1, rg1))
      in if be_last ev then finalize cfg io (s2, rg2) else (s2, rg2))"

definition consume :: "'m stream_config \<Rightarrow> io \<Rightarrow> string \<Rightarrow> stream \<times> 'm registry \<Rightarrow> stream \<times> 'm registry" where
  "consume cfg io text q =
     (let raw = trim_space text in
      if raw = [] then q
      else case sc_decode cfg raw of
             None \<Rightarrow> (case q of (s, rg) \<Rightarrow> (s\<lparr>ss_parse_errs := Suc (ss_parse_errs s)\<rparr>, rg))
           | Some ev \<Rightarrow> dispatch cfg io ev q)"

section \<open>The life of a tailer\<close>

text \<open>
  What reaches the stream of a watched file: a line, a restart (the supervisor saw the file truncated
  or replaced), and the end of the watch.
\<close>

datatype tail_event = TailLine string | TailRestart | TailStop

definition tail_step :: "'m stream_config \<Rightarrow> tail_event \<times> io \<Rightarrow> stream \<times> 'm registry \<Rightarrow> stream \<times> 'm registry" where
  "tail_step cfg e q =
     (case e of
        (TailLine text, io) \<Rightarrow> consume cfg io text q
      | (TailRestart, io) \<Rightarrow> (case finalize cfg io q of (s, rg) \<Rightarrow> (reset_state s, rg))
      | (TailStop, io) \<Rightarrow> finalize cfg io q)"

definition watch_file :: "'m stream_config \<Rightarrow> string \<Rightarrow> string \<Rightarrow> (tail_event \<times> io) list \<Rightarrow> 'm registry \<Rightarrow> stream \<times> 'm registry" where
  "watch_file cfg path wt es rg = foldl (\<lambda>q e. tail_step cfg e q) (new_stream path wt, rg) es"

text \<open>
  The supervisor's test: \<open>start\<close> and \<open>key\<close> are the device and inode at the start of the session and now
  (\<open>(0, 0)\<close> if the file was absent), \<open>sz\<close> the size now, \<open>off\<close> the offset read so far.
\<close>

definition needs_restart :: "nat \<times> nat \<Rightarrow> nat \<times> nat \<Rightarrow> int \<Rightarrow> int \<Rightarrow> bool" where
  "needs_restart start key sz off \<longleftrightarrow> start \<noteq> (0, 0) \<and> key \<noteq> start \<or> sz < off"

end
