(* ===== verification/Bep_Stream_Props.thy ===== *)
theory Bep_Stream_Props
  imports Bep_Stream
begin

text \<open>
  The properties of a build event stream: builds that follow one another in one file do not mix, a
  build is finalized once, and a stream that ends leaves its metrics in the store and its build
  terminal.
\<close>

section \<open>Rebuilds do not mix\<close>

text \<open>
  Two streams are twins if they agree on everything a row is made of.  The alert is left out, which
  depends on the history in the store.
\<close>

definition same_row :: "mrow \<Rightarrow> mrow \<Rightarrow> bool" where
  "same_row r r' \<longleftrightarrow> r' = r\<lparr>m_alert := m_alert r'\<rparr>"

definition twins :: "stream \<Rightarrow> stream \<Rightarrow> bool" where
  "twins s s' \<longleftrightarrow> ss_path s' = ss_path s \<and> ss_worktree s' = ss_worktree s \<and> ss_raw s' = ss_raw s \<and>
     ss_bound s' = ss_bound s \<and> ss_finalized s' = ss_finalized s \<and> rel_option same_row (ss_row s) (ss_row s')"

lemma same_row_alert: "same_row r (r\<lparr>m_alert := a\<rparr>)"
  by (simp add: same_row_def)

lemma same_rowE: assumes "same_row r r'" obtains a where "r' = r\<lparr>m_alert := a\<rparr>"
  using assms unfolding same_row_def by blast

lemma same_row_id: "same_row r r' \<Longrightarrow> m_id r' = m_id r"
  by (erule same_rowE) simp

definition blind :: "(mrow \<Rightarrow> mrow) \<Rightarrow> bool" where
  "blind f \<longleftrightarrow> (\<forall>r a. f (r\<lparr>m_alert := a\<rparr>) = (f r)\<lparr>m_alert := a\<rparr>)"

lemma blind_same: "blind f \<Longrightarrow> same_row r r' \<Longrightarrow> same_row (f r) (f r')"
  by (auto simp: blind_def elim!: same_rowE intro: same_row_alert)

lemma blind_extract: "blind (extract_metrics bm)"
  by (simp add: blind_def extract_metrics_def extract_actions_def Let_def split: option.split)

lemma blind_test: "blind (on_test t)"
  by (simp add: blind_def on_test_def Let_def)

lemma blind_finished: "blind (on_finished f)"
  by (simp add: blind_def on_finished_def Let_def split: option.split)

lemma twins_upd: "blind f \<Longrightarrow> twins s s' \<Longrightarrow> twins (upd_row f s) (upd_row f s')"
  by (auto simp: twins_def upd_row_def option.rel_map blind_same elim!: option.rel_mono_strong)

lemma twins_id: "twins s s' \<Longrightarrow> m_id (row_of s') = m_id (row_of s)"
  by (auto simp: twins_def row_of_def same_row_id split: option.splits)

lemma twins_reset: "ss_path s' = ss_path s \<Longrightarrow> ss_worktree s' = ss_worktree s \<Longrightarrow> twins (reset_state s) (reset_state s')"
  by (simp add: twins_def reset_state_def same_row_def)

lemma twins_started: "twins s s' \<Longrightarrow> twins (on_started st s) (on_started st s')"
proof -
  assume t: "twins s s'"
  have b: "blind (\<lambda>r. r\<lparr>m_id := x\<rparr>)" "blind (\<lambda>r. r\<lparr>m_started := i\<rparr>)"
    "blind (\<lambda>r. r\<lparr>m_worktree := x, m_profile_path := y\<rparr>)" for x y i
    by (simp_all add: blind_def)
  have c: "twins (s\<lparr>ss_command := k\<rparr>) (s'\<lparr>ss_command := k\<rparr>)" if "twins s s'" for s s' k
    using that by (simp add: twins_def)
  show ?thesis using t by (auto simp: on_started_def Let_def intro!: twins_upd b c split: option.split)
qed

lemma twins_bind: "twins s s' \<Longrightarrow> twins (fst (bind_build io s rg)) (fst (bind_build io' s' rg'))"
  using twins_id [of s s'] by (auto simp: bind_build_def Let_def twins_def)

lemma twins_payload:
  assumes "twins s s'"
  shows "twins (fst (on_payload cfg io p (s, rg))) (fst (on_payload cfg io' p (s', rg')))"
proof (cases p)
  case (BuildMetrics bm)
  have "twins (upd_row (extract_metrics bm) s) (upd_row (extract_metrics bm) s')"
    using blind_extract assms by (rule twins_upd)
  then show ?thesis by (simp add: BuildMetrics on_payload_def Let_def twins_def split: option.split)
qed (simp_all add: on_payload_def assms twins_bind twins_started twins_upd blind_test blind_finished)

lemma twins_finalize:
  "twins s s' \<Longrightarrow> twins (fst (finalize cfg io (s, rg))) (fst (finalize cfg io' (s', rg')))"
proof -
  assume t: "twins s s'"
  have al: "\<exists>a. finalize_alert cfg io r rg = r\<lparr>m_alert := a\<rparr>" for io r rg
    by (cases "cache_hit_ratio r"; cases "rg_store rg") (auto simp: finalize_alert_def Let_def intro: exI [of _ "m_alert r"])
  show ?thesis
  proof (cases "ss_row s")
    case None
    with t show ?thesis by (simp add: finalize_def twins_def)
  next
    case (Some r)
    with t obtain a where r': "ss_row s' = Some (r\<lparr>m_alert := a\<rparr>)"
      by (auto simp: twins_def option_rel_Some1 elim!: same_rowE)
    obtain b c where "finalize_alert cfg io r rg = r\<lparr>m_alert := b\<rparr>"
      "finalize_alert cfg io' (r\<lparr>m_alert := a\<rparr>) rg' = r\<lparr>m_alert := a, m_alert := c\<rparr>"
      using al by blast
    with t Some r' show ?thesis by (simp add: finalize_def Let_def twins_def same_row_def)
  qed
qed

lemma twins_dispatch:
  assumes "twins s s'"
  shows "twins (fst (dispatch cfg io ev (s, rg))) (fst (dispatch cfg io' ev (s', rg')))"
proof -
  let ?s = "if ss_row s = None then reset_state s else s" and ?s' = "if ss_row s' = None then reset_state s' else s'"
  obtain s1 rg1 where p: "on_payload cfg io (be_payload ev) (?s, rg) = (s1, rg1)" by fastforce
  obtain s1' rg1' where p': "on_payload cfg io' (be_payload ev) (?s', rg') = (s1', rg1')" by fastforce
  have "twins ?s ?s'" using assms twins_reset [of s' s] by (auto simp: twins_def)
  from twins_payload [OF this]
  have t: "twins s1 s1'" by (metis p p' fst_conv)
  then have "twins (s1\<lparr>ss_patterns := x\<rparr>) (s1'\<lparr>ss_patterns := x\<rparr>)" for x by (simp add: twins_def)
  with t show ?thesis by (simp add: dispatch_def p p' Let_def twins_finalize)
qed

lemma twins_step:
  assumes "twins s s'" shows "twins (fst (tail_step cfg (e, io) (s, rg))) (fst (tail_step cfg (e, io') (s', rg')))"
proof (cases e)
  case (TailLine ln)
  have "twins (s\<lparr>ss_parse_errs := Suc (ss_parse_errs s)\<rparr>) (s'\<lparr>ss_parse_errs := Suc (ss_parse_errs s')\<rparr>)"
    using assms by (simp add: twins_def)
  with assms TailLine show ?thesis
    by (simp add: tail_step_def consume_def Let_def twins_dispatch split: option.split)
next
  case TailRestart
  let ?s = "fst (finalize cfg io (s, rg))" and ?s' = "fst (finalize cfg io' (s', rg'))"
  from twins_finalize [OF assms, of cfg io rg io' rg']
  have "ss_path ?s' = ss_path ?s" "ss_worktree ?s' = ss_worktree ?s" by (auto simp: twins_def)
  from twins_reset [OF this] show ?thesis by (simp add: tail_step_def TailRestart split_beta)
next
  case TailStop
  with twins_finalize [OF assms] show ?thesis by (simp add: tail_step_def)
qed

lemma twins_run:
  "twins s s' \<Longrightarrow> map fst es = map fst es' \<Longrightarrow>
     twins (fst (foldl (\<lambda>q e. tail_step cfg e q) (s, rg) es)) (fst (foldl (\<lambda>q e. tail_step cfg e q) (s', rg') es'))"
proof (induction es arbitrary: s s' rg rg' es')
  case (Cons e es)
  then obtain io' fs where es': "es' = (fst e, io') # fs" "map fst es = map fst fs" by (cases es') auto
  obtain k io where e: "e = (k, io)" by (cases e)
  from twins_step [OF Cons.prems(1), of cfg k io rg io' rg']
  show ?case using Cons.IH [OF _ es'(2)] by (simp add: e es'(1)) (metis prod.collapse)
qed simp

text \<open>
  Builds that reuse a file do not mix.  After a reset the row depends only on the lines that follow:
  whatever was read before, whatever the registry and the database do, the same lines give the same
  row, up to the alert, which compares with the history.
\<close>

theorem rebuild_isolated:
  assumes "ss_path s = ss_path s'" and "ss_worktree s = ss_worktree s'" and "map fst es = map fst es'"
  shows "rel_option same_row
    (ss_row (fst (foldl (\<lambda>q e. tail_step cfg e q) (reset_state s, rg) es)))
    (ss_row (fst (foldl (\<lambda>q e. tail_step cfg e q) (reset_state s', rg') es')))"
  using twins_run [OF twins_reset, of s' s es es' cfg rg rg'] assms by (simp add: twins_def)

section \<open>A finished stream is recorded\<close>

definition healthy :: "'m registry \<Rightarrow> bool" where
  "healthy rg \<longleftrightarrow> keyed (rg_builds rg) \<and> (\<exists>st. rg_store rg = Some st \<and> mirrors st (rg_builds rg))"

lemma upsert_op: "snd (rg_upsert ok b now rg) = reg_apply ok (UpsertOp b now) rg"
  by simp

lemma healthy_upsert: "healthy rg \<Longrightarrow> healthy (snd (rg_upsert True b now rg))"
  unfolding healthy_def upsert_op using keyed_apply mirrors_apply by blast

lemma upsert_known: "rg_get u rg \<noteq> None \<Longrightarrow> rg_get u (snd (rg_upsert ok b now rg)) \<noteq> None"
proof (cases "upsert_core b now (rg_builds rg)")
  case (Inr r)
  moreover obtain s bs where "r = (s, bs)" by (cases r)
  moreover assume "rg_get u rg \<noteq> None"
  ultimately show ?thesis using upsert_writes [of b now "rg_builds rg" s bs] by (auto simp: rg_get_def rg_upsert_def update_conv')
qed (simp add: rg_upsert_def)

text \<open>An upsert by id alone reaches the record of that id.\<close>

lemma upsert_by_id:
  assumes "keyed (rg_builds rg)" "b_id b \<noteq> []" "b_pid b = 0"
  obtains s where "rg_get (b_id b) (snd (rg_upsert ok b now rg)) = Some s"
    "is_terminal (b_state b) \<Longrightarrow> is_terminal (b_state s)"
proof -
  define s0 where "s0 = (case upsert_match b (rg_builds rg) of None \<Rightarrow> upsert_fresh b now | Some s \<Rightarrow> s)"
  define s where "s = (upsert_lifecycle b now (upsert_merge b s0))\<lparr>b_seen := now\<rparr>"
  have m: "upsert_match b (rg_builds rg) = map_of (rg_builds rg) (b_id b)"
    using assms(2,3) by (simp add: upsert_match_def)
  have "b_id s0 = b_id b"
    using keyed_lookup [OF assms(1)] assms(2) by (simp add: s0_def m upsert_fresh_def split: option.split)
  then have i: "b_id s = b_id b" unfolding s_def by simp
  have "upsert_core b now (rg_builds rg) = Inr (s, AList.update (b_id s) s (rg_builds rg))"
    using assms(2) unfolding upsert_core_def Let_def s0_def [symmetric] s_def [symmetric] by simp
  then have "rg_get (b_id b) (snd (rg_upsert ok b now rg)) = Some s"
    by (simp add: rg_upsert_def rg_get_def i update_conv')
  moreover have "is_terminal (b_state s)" if "is_terminal (b_state b)"
    using that by (auto simp: s_def upsert_lifecycle_def upsert_merge_def)
  ultimately show ?thesis by (rule that)
qed

lemma push_known: "rg_get u rg \<noteq> None \<Longrightarrow> rg_get u (push_command_targets io s rg) \<noteq> None"
  by (simp add: push_command_targets_def upsert_known del: not_None_eq)

lemma push_healthy: "healthy rg \<Longrightarrow> io_row io \<Longrightarrow> healthy (push_command_targets io s rg)"
  by (simp add: push_command_targets_def healthy_upsert)

text \<open>What the messages of a stream add up to: the test results, those that neither passed nor were flaky, and the last exit code.\<close>

record tally =
  ta_tests :: nat
  ta_failed :: nat
  ta_code :: "int option"

fun tally_one :: "payload \<Rightarrow> tally \<Rightarrow> tally" where
  "tally_one (TestResult TestPassed) g = g\<lparr>ta_tests := Suc (ta_tests g)\<rparr>"
| "tally_one (TestResult TestFlaky) g = g\<lparr>ta_tests := Suc (ta_tests g)\<rparr>"
| "tally_one (TestResult TestOther) g = g\<lparr>ta_tests := Suc (ta_tests g), ta_failed := Suc (ta_failed g)\<rparr>"
| "tally_one (Finished f) g = g\<lparr>ta_code := Some (bf_code f)\<rparr>"
| "tally_one _ g = g"

definition no_tally :: tally where
  "no_tally = \<lparr>ta_tests = 0, ta_failed = 0, ta_code = None\<rparr>"

definition tally_of :: "payload list \<Rightarrow> tally" where
  "tally_of ps = fold tally_one ps no_tally"

definition tallied :: "tally \<Rightarrow> mrow \<Rightarrow> bool" where
  "tallied g r \<longleftrightarrow> m_tests r = wrap64 (int (ta_tests g)) \<and> m_tests_failed r = wrap64 (int (ta_failed g)) \<and>
     m_exit r = (case ta_code g of None \<Rightarrow> 0 | Some c \<Rightarrow> c) \<and> m_success r = (ta_code g = Some 0)"

text \<open>\<open>tracked u g\<close>: the stream has bound the build \<open>u\<close>, its row holds the tally \<open>g\<close>, and it can still be finalized.\<close>

definition distinct_names :: "mrow \<Rightarrow> bool" where
  "distinct_names r \<longleftrightarrow> distinct (map rc_name (m_runners r)) \<and> distinct (map mn_name (m_mnemonics r))"

definition tracked :: "string \<Rightarrow> tally \<Rightarrow> stream \<times> 'm registry \<Rightarrow> bool" where
  "tracked u g q \<longleftrightarrow> (case q of (s, rg) \<Rightarrow> healthy rg \<and> rg_get u rg \<noteq> None \<and> ss_bound s \<and> \<not> ss_finalized s \<and>
     (\<exists>r. ss_row s = Some r \<and> m_id r = u \<and> distinct_names r \<and> tallied g r))"

fun steady_payload :: "payload \<Rightarrow> bool" where
  "steady_payload (Started _) \<longleftrightarrow> False"
| "steady_payload (BuildMetrics (Some m)) \<longleftrightarrow>
     (case bm_actions m of None \<Rightarrow> True
      | Some a \<Rightarrow> distinct (map rc_name (as_runners a)) \<and> distinct (map ad_mnemonic (as_data a)))"
| "steady_payload _ \<longleftrightarrow> True"

lemma wrap64_step: "wrap64 (wrap64 x + 1) = wrap64 (x + 1)" "wrap64 (1 + wrap64 x) = wrap64 (1 + x)"
proof -
  have "((x + 2 ^ 63) mod 2 ^ 64 + 1) mod 2 ^ 64 = (x + 2 ^ 63 + 1) mod (2 ^ 64 :: int)" by (rule mod_add_left_eq)
  then show "wrap64 (wrap64 x + 1) = wrap64 (x + 1)" by (simp add: wrap64_def algebra_simps)
  then show "wrap64 (1 + wrap64 x) = wrap64 (1 + x)" by (simp add: add.commute)
qed

lemma wrap64_0 [simp]: "wrap64 0 = 0"
  by (simp add: in64_def)

lemma extract_row:
  "m_id (extract_metrics bm r) = m_id r" "tallied g (extract_metrics bm r) = tallied g r"
  "steady_payload (BuildMetrics bm) \<Longrightarrow> distinct_names r \<Longrightarrow> distinct_names (extract_metrics bm r)"
  by (auto simp: extract_metrics_def extract_actions_def Let_def distinct_names_def tallied_def to_mnemonic_def o_def split: option.split)

lemma test_row:
  "m_id (on_test t r) = m_id r" "distinct_names (on_test t r) = distinct_names r"
  "tallied g r \<Longrightarrow> tallied (tally_one (TestResult t) g) (on_test t r)"
  by (cases t; simp add: on_test_def Let_def distinct_names_def tallied_def wrap64_step add.commute)+

lemma finished_row:
  "m_id (on_finished f r) = m_id r" "distinct_names (on_finished f r) = distinct_names r"
  "tallied g r \<Longrightarrow> tallied (tally_one (Finished f) g) (on_finished f r)"
  by (simp_all add: on_finished_def Let_def distinct_names_def tallied_def split: option.split)

lemma tracked_payload:
  assumes "tracked u g (s, rg)" "steady_payload p"
  shows "tracked u (tally_one p g) (on_payload cfg io p (s, rg))"
proof (cases p)
  case (BuildMetrics bm)
  with assms extract_row [where bm = bm] show ?thesis
    by (auto simp: on_payload_def tracked_def upd_row_def Let_def split: option.split)
next
  case (TestResult t)
  from assms(1) test_row [where t = t] show ?thesis unfolding TestResult
    by (auto simp: on_payload_def tracked_def upd_row_def simp del: tally_one.simps)
next
  case (Finished f)
  from assms(1) finished_row [where f = f] show ?thesis unfolding Finished
    by (auto simp: on_payload_def tracked_def upd_row_def simp del: tally_one.simps)
qed (use assms in \<open>simp_all add: on_payload_def\<close>)

text \<open>An event without its last part, the finalization.\<close>

lemma tracked_body:
  assumes "ss_row s \<noteq> None" "tracked u g (on_payload cfg io (be_payload ev) (s, rg))" "io_row io"
  obtains s' rg' where "dispatch cfg io ev (s, rg) = (if be_last ev then finalize cfg io (s', rg') else (s', rg'))"
    "tracked u g (s', rg')"
proof -
  obtain s1 rg1 where p: "on_payload cfg io (be_payload ev) (s, rg) = (s1, rg1)" by fastforce
  have t: "tracked u g (s1, rg1)" using assms(2) by (simp add: p)
  moreover have "tracked u g (s1\<lparr>ss_patterns := x\<rparr>, push_command_targets io (s1\<lparr>ss_patterns := x\<rparr>) rg1)" for x
    using t assms(3) by (simp add: tracked_def push_healthy) (use push_known in blast)
  ultimately show ?thesis
    using assms(1) p
    by (intro that [of "if be_pattern ev \<noteq> [] then s1\<lparr>ss_patterns := be_pattern ev\<rparr> else s1"
          "if be_pattern ev \<noteq> [] then push_command_targets io (s1\<lparr>ss_patterns := be_pattern ev\<rparr>) rg1 else rg1"])
       (auto simp: dispatch_def Let_def)
qed

lemma tracked_steady:
  assumes "tracked u g (s, rg)" "steady_payload (be_payload ev)" "io_row io"
  obtains s' rg' where "dispatch cfg io ev (s, rg) = (if be_last ev then finalize cfg io (s', rg') else (s', rg'))"
    "tracked u (tally_one (be_payload ev) g) (s', rg')"
  using assms(1) tracked_body [OF _ tracked_payload [OF assms(1,2)] assms(3)] that by (auto simp: tracked_def)

lemma tracked_started:
  assumes "healthy rg" "bs_uuid st = u" "u \<noteq> []" "io_row io" "ss_row s = Some r" "distinct_names r" "tallied no_tally r"
    "\<not> ss_bound s" "\<not> ss_finalized s"
  shows "tracked u no_tally (bind_build io (on_started st s) rg)"
proof -
  let ?s = "on_started st s"
  have "\<exists>r'. ss_row ?s = Some r' \<and> m_id r' = u \<and> distinct_names r' \<and> tallied no_tally r'"
    using assms(2,5-7) by (cases "bs_start st") (simp_all add: on_started_def upd_row_def Let_def distinct_names_def tallied_def)
  then obtain r' where r': "ss_row ?s = Some r'" "m_id r' = u" "distinct_names r'" "tallied no_tally r'" by blast
  have flags: "\<not> ss_bound ?s" "\<not> ss_finalized ?s"
    using assms(8,9) by (simp_all add: on_started_def upd_row_def Let_def split: option.split)
  have row: "row_of ?s = r'" by (simp add: row_of_def r'(1))
  define rg1 where "rg1 = (case rg_get u rg of Some _ \<Rightarrow> rg | None \<Rightarrow> snd (rg_upsert (io_row io) (stub_build io ?s) (io_now io) rg))"
  have stub: "b_id (stub_build io ?s) = u" "b_pid (stub_build io ?s) = 0"
    by (simp_all add: stub_build_def row r'(2) empty_build_def)
  have "keyed (rg_builds rg)" using assms(1) by (simp add: healthy_def)
  then have "rg_get u rg1 \<noteq> None"
    using upsert_by_id [of rg "stub_build io ?s" "io_row io" "io_now io"] assms(3)
    by (auto simp: rg1_def stub split: option.split)
  moreover have "healthy rg1" using assms(1,4) by (simp add: rg1_def healthy_upsert split: option.split)
  ultimately show ?thesis
    using flags r' assms(3,4) push_healthy [of rg1 io] push_known [of u rg1 io]
    by (simp add: tracked_def bind_build_def row Let_def rg1_def [symmetric])
qed

definition quiet_hook :: "'m stream_config \<Rightarrow> bool" where
  "quiet_hook cfg \<longleftrightarrow> (\<forall>r rg. rg_builds (sc_on_finalize cfg r rg) = rg_builds rg \<and> rg_store (sc_on_finalize cfg r rg) = rg_store rg)"

lemma upsert_store_metrics:
  assumes "rg_store rg = Some st" "get_metrics True u st = x"
  shows "\<exists>st'. rg_store (snd (rg_upsert True b now rg)) = Some st' \<and> get_metrics True u st' = x"
proof (cases "upsert_core b now (rg_builds rg)")
  case (Inr r)
  obtain s bs where "r = (s, bs)" by (cases r)
  with Inr publish_store [of "rg\<lparr>rg_builds := bs\<rparr>" st now s] assms(1)
  have "rg_store (snd (rg_upsert True b now rg)) = Some (put_build (b_id s) (row_of_build s) st)"
    by (simp add: rg_upsert_def)
  moreover have "get_metrics True u (put_build i w st) = get_metrics True u st" for i w
  proof -
    have "runners_of u (put_build i w st) = runners_of u st" "mnemonics_of u (put_build i w st) = mnemonics_of u st"
      "t_metrics (put_build i w st) = t_metrics st"
      by (simp_all add: put_build_def runners_of_def mnemonics_of_def)
    then show ?thesis by (simp only: get_metrics_def)
  qed
  ultimately show ?thesis using assms(2) by simp
qed (simp add: rg_upsert_def assms)

lemma finalize_records:
  assumes t: "tracked u g (s, rg)" and u: "u \<noteq> []" and io: "io_row io" "io_metrics io" and p: "quiet_hook cfg"
    and f: "finalize cfg io (s, rg) = (s', rg')"
  shows "\<exists>st r raw b. rg_store rg' = Some st \<and> get_metrics True u st = Inr (Some (r, raw)) \<and> tallied g r \<and>
    rg_get u rg' = Some b \<and> is_terminal (b_state b)"
proof -
  from t obtain r st where r: "ss_row s = Some r" "m_id r = u" "distinct_names r" "tallied g r"
    and rg: "keyed (rg_builds rg)" "rg_store rg = Some st" "mirrors st (rg_builds rg)" "rg_get u rg \<noteq> None"
    and fl: "\<not> ss_finalized s" by (auto simp: tracked_def healthy_def)
  define r1 where "r1 = finalize_alert cfg io r rg"
  have r1: "m_id r1 = u" "distinct_names r1" "tallied g r1"
    using r by (simp_all add: r1_def finalize_alert_def distinct_names_def tallied_def Let_def split: option.split)
  define rg1 where "rg1 = persist_metrics io r1 (ss_raw s) rg"
  define e where "e = enrich_build cfg io r1"
  define rg2 where "rg2 = snd (rg_upsert True e (io_now io) rg1)"
  have "map_of (t_builds st) u \<noteq> None"
    using rg(3,4) by (auto simp: mirrors_def rg_get_def build_at_def fun_eq_iff dest: spec [of _ u])
  then obtain st1 where st1: "upsert_metrics True r1 (ss_raw s) st = Inr st1"
    using r1 by (auto simp: upsert_metrics_eq distinct_names_def)
  have s1: "rg_store rg1 = Some st1" "rg_builds rg1 = rg_builds rg"
    using st1 io(2) rg(2) by (simp_all add: rg1_def persist_metrics_def)
  from saved_metrics [OF st1] r1(1) have gm: "get_metrics True u st1 = Inr (Some (stored_row r1, ss_raw s))" by simp
  from upsert_store_metrics [OF s1(1) gm, of e "io_now io"] obtain st2 where
    st2: "rg_store rg2 = Some st2" "get_metrics True u st2 = Inr (Some (stored_row r1, ss_raw s))"
    by (auto simp: rg2_def)
  have e: "b_id e = u" "b_pid e = 0" "is_terminal (b_state e)"
    by (simp_all add: e_def enrich_build_def r1(1) empty_build_def)
  from upsert_by_id [of rg1 e True "io_now io"] e u s1(2) rg(1) obtain b where
    b: "rg_get u rg2 = Some b" "is_terminal (b_state b)" by (auto simp: rg2_def)
  have "rg' = sc_on_finalize cfg r1 rg2"
    using f r(1,2) fl u io(1)
    by (simp add: finalize_def r1_def rg1_def e_def rg2_def Let_def)
  with p st2 b r1(3) show ?thesis by (auto simp: quiet_hook_def rg_get_def stored_row_def tallied_def)
qed

definition dispatch_all :: "'m stream_config \<Rightarrow> (io \<times> bep_event) list \<Rightarrow> stream \<times> 'm registry \<Rightarrow> stream \<times> 'm registry" where
  "dispatch_all cfg evs q = foldl (\<lambda>q (io, ev). dispatch cfg io ev q) q evs"

lemma tracked_all:
  assumes "tracked u g q" "\<forall>(io, ev)\<in>set evs. io_row io \<and> steady_payload (be_payload ev) \<and> \<not> be_last ev"
  shows "tracked u (fold tally_one (map (\<lambda>(io, ev). be_payload ev) evs) g) (dispatch_all cfg evs q)"
  using assms
proof (induction evs arbitrary: g q)
  case (Cons e evs)
  obtain io ev where e: "e = (io, ev)" by (cases e)
  obtain s rg where q: "q = (s, rg)" by (cases q)
  from Cons.prems e have "steady_payload (be_payload ev)" "io_row io" "\<not> be_last ev" by auto
  with tracked_steady [of u g s rg ev io cfg] Cons.prems(1) q
  have "tracked u (tally_one (be_payload ev) g) (dispatch cfg io ev q)" by (metis (full_types))
  from Cons.IH [OF this] Cons.prems(2) show ?case by (simp add: e dispatch_all_def)
qed (simp add: dispatch_all_def)


text \<open>
  C24: a stream that ends is recorded.  On a working database, a file that opens with BuildStarted and
  ends with the last message leaves, whatever lies between, the row of its build in the store, with the number of its test
  results, the number of those that neither passed nor were flaky, and the exit code of the last
  BuildFinished (0 and no success if there was none); and the build of the registry is in a terminal state.  The registry is one
  whose rows are those of its builds, no second BuildStarted comes in between, no message repeats the name of a runner or
  mnemonic, and the hook at the end changes neither map nor store.
\<close>

theorem stream_end_persists:
  assumes "healthy rg" and "quiet_hook cfg"
    and "be_payload ev0 = Started st" and "bs_uuid st = u" and "u \<noteq> []" and "\<not> be_last ev0" and "io_row io0"
    and "\<forall>(io, ev)\<in>set evs. io_row io \<and> steady_payload (be_payload ev) \<and> \<not> be_last ev"
    and "steady_payload (be_payload ev1)" and "be_last ev1" and "io_row io1" and "io_metrics io1"
    and "dispatch_all cfg ((io0, ev0) # evs @ [(io1, ev1)]) (new_stream path wt, rg) = (s', rg')"
  shows "\<exists>st' r raw b. rg_store rg' = Some st' \<and> get_metrics True u st' = Inr (Some (r, raw)) \<and>
    tallied (tally_of (map (\<lambda>(io, ev). be_payload ev) (evs @ [(io1, ev1)]))) r \<and>
    rg_get u rg' = Some b \<and> is_terminal (b_state b)"
proof -
  let ?s = "new_stream path wt"
  have new: "ss_row ?s = Some (fresh_row path wt)" "\<not> ss_bound ?s" "\<not> ss_finalized ?s"
    by (simp_all add: new_stream_def reset_state_def)
  have "distinct_names (fresh_row path wt)" "tallied no_tally (fresh_row path wt)"
    by (simp_all add: fresh_row_def empty_row_def distinct_names_def tallied_def no_tally_def)
  from tracked_started [OF assms(1,4,5,7) new(1) this new(2,3)]
  have "tracked u no_tally (on_payload cfg io0 (be_payload ev0) (?s, rg))" by (simp add: on_payload_def assms(3))
  from tracked_body [OF _ this assms(7)] new(1) assms(6)
  have t0: "tracked u no_tally (dispatch cfg io0 ev0 (?s, rg))" by (metis (full_types) option.distinct(1))
  define q where "q = dispatch_all cfg evs (dispatch cfg io0 ev0 (?s, rg))"
  obtain s1 rg1 where q: "q = (s1, rg1)" by (cases q)
  from tracked_all [OF t0 assms(8), of cfg]
  have t1: "tracked u (tally_of (map (\<lambda>(io, ev). be_payload ev) evs)) (s1, rg1)" by (simp add: q_def [symmetric] q tally_of_def)
  from tracked_steady [OF t1 assms(9,11), of cfg] assms(10) obtain s2 rg2 where
    d: "dispatch cfg io1 ev1 (s1, rg1) = finalize cfg io1 (s2, rg2)"
    "tracked u (tally_one (be_payload ev1) (tally_of (map (\<lambda>(io, ev). be_payload ev) evs))) (s2, rg2)" by auto
  have "dispatch_all cfg ((io0, ev0) # evs @ [(io1, ev1)]) (?s, rg) = dispatch cfg io1 ev1 q"
    by (simp add: dispatch_all_def q_def)
  then have "finalize cfg io1 (s2, rg2) = (s', rg')" using assms(13) d(1) q by simp
  from finalize_records [OF d(2) assms(5,11,12,2) this] show ?thesis by (simp add: tally_of_def)
qed

definition ev_started :: "string \<Rightarrow> bep_event" where
  "ev_started u = \<lparr>be_payload = Started \<lparr>bs_uuid = u, bs_command = ''build'', bs_start = None, bs_start_ms = 5, bs_workdir = ''/w''\<rparr>,
     be_pattern = [], be_last = False\<rparr>"

definition ev_pattern :: "string \<Rightarrow> bep_event" where
  "ev_pattern t = \<lparr>be_payload = OtherPayload, be_pattern = [t], be_last = False\<rparr>"

definition ev_end :: bep_event where
  "ev_end = \<lparr>be_payload = TestResult TestFlaky, be_pattern = [], be_last = True\<rparr>"

definition demo_config :: "unit stream_config" where
  "demo_config = \<lparr>sc_decode = map_of [(''s1'', ev_started ''u1''), (''p1'', ev_pattern ''//a''), (''s2'', ev_started ''u2'')],
     sc_marshal = (\<lambda>_. None), sc_profile_url = (\<lambda>i. i), sc_alert = \<lparr>ac_floor = 0, ac_delta = 0, ac_min_procs = 0\<rparr>,
     sc_on_finalize = (\<lambda>_ rg. rg)\<rparr>"

definition good_io :: io where
  "good_io = \<lparr>io_history = True, io_metrics = True, io_row = True, io_now = 9\<rparr>"

definition ev_failed_test :: bep_event where
  "ev_failed_test = \<lparr>be_payload = TestResult TestOther, be_pattern = [], be_last = False\<rparr>"

theorem stream_end_persists_witness:
  "let rg = snd (dispatch_all demo_config [(good_io, ev_started ''u1''), (good_io, ev_failed_test), (good_io, ev_end)]
       (new_stream ''/w/bep'' ''/w'', new_registry (Some empty_store) None))
   in \<exists>st r raw. rg_store rg = Some st \<and> get_metrics True ''u1'' st = Inr (Some (r, raw)) \<and> m_tests r = 2 \<and> m_tests_failed r = 1"
proof -
  obtain s rg where d: "dispatch_all demo_config [(good_io, ev_started ''u1''), (good_io, ev_failed_test), (good_io, ev_end)]
       (new_stream ''/w/bep'' ''/w'', new_registry (Some empty_store) None) = (s, rg)" by fastforce
  have h: "healthy (new_registry (Some empty_store) None :: unit registry)"
    unfolding healthy_def using mirrors_new by (auto simp: new_registry_def keyed_def)
  have q: "quiet_hook demo_config" by (simp add: quiet_hook_def demo_config_def)
  have "wrap64 1 = 1" "wrap64 2 = 2" by (simp_all add: in64_def)
  with stream_end_persists [OF h q, where ?ev0.0 = "ev_started ''u1''" and u = "''u1''" and ?io0.0 = good_io
      and evs = "[(good_io, ev_failed_test)]" and ?ev1.0 = ev_end and ?io1.0 = good_io and path = "''/w/bep''" and wt = "''/w''"
      and s' = s and rg' = rg] d
  show ?thesis
    by (fastforce simp: ev_started_def ev_failed_test_def ev_end_def good_io_def tallied_def tally_of_def no_tally_def)
qed

section \<open>What a restart keeps\<close>

lemma finalize_idem: "finalize cfg io (finalize cfg io' q) = finalize cfg io' q"
proof -
  obtain s rg where q: "q = (s, rg)" by (cases q)
  show ?thesis
    by (cases "ss_row s") (auto simp: q finalize_def Let_def split: option.split)
qed

lemmas bep_simps = watch_file_def tail_step_def consume_def dispatch_def on_payload_def on_started_def upd_row_def row_of_def
  new_stream_def reset_state_def fresh_row_def bind_build_def stub_build_def push_command_targets_def finalize_def
  finalize_alert_def persist_metrics_def enrich_build_def cache_hit_ratio_def profile_path_for_def
  demo_config_def good_io_def ev_started_def ev_pattern_def Let_def

lemmas registry_simps = new_registry_def rg_get_def rg_upsert_def upsert_core_def upsert_match_def by_pid_def upsert_fresh_def
  upsert_merge_def upsert_lifecycle_def publish_def persist_def broadcast_build_def empty_build_def state_defs is_terminal_def

lemmas trim_simps = trim_space_def trim_left_def trim_right_def space_len_def space_len_rev_def has_prefix_def
  ascii_spaces_def wide_spaces_def

text \<open>
  The targets of the build before leak into the next.  A restart resets the row but neither the
  command nor the patterns, and BuildStarted pushes both: a new build in the same file is shown with
  the targets of the old one.
\<close>

theorem stale_targets_leak:
  "map_option b_targets (rg_get ''u2'' (snd (watch_file demo_config ''/w/bep'' ''/w''
     (map (\<lambda>e. (e, good_io)) [TailLine ''s1'', TailLine ''p1'', TailRestart, TailLine ''s2'']) (new_registry None None)))) =
   Some [''//a'']"
proof -
  have "trim_space ''s1'' = ''s1''" "trim_space ''p1'' = ''p1''" "trim_space ''s2'' = ''s2''"
    by (simp_all add: trim_simps)
  then show ?thesis by (simp add: bep_simps registry_simps empty_row_def wrap64_def)
qed

text \<open>
  A build that never finished is reported as finished.  When the watch ends, or the file is
  truncated, before BuildFinished, the build is closed with the state "finished" and exit code 0.
\<close>

theorem crashed_build_finished:
  "map_option (\<lambda>b. (b_state b, b_exit b)) (rg_get ''u1'' (snd (watch_file demo_config ''/w/bep'' ''/w''
     (map (\<lambda>e. (e, good_io)) [TailLine ''s1'', TailStop]) (new_registry None None)))) =
   Some (state_finished, 0)"
proof -
  have "trim_space ''s1'' = ''s1''" by (simp add: trim_simps)
  then show ?thesis by (simp add: bep_simps registry_simps empty_row_def wrap64_def)
qed

end
