(* ===== verification/Bep_Manager.thy ===== *)
theory Bep_Manager
  imports Bep_Stream
begin

text \<open>
  The supervisor of the build event tailers (\<open>internal/bep/manager.go\<close>): one goroutine per worktree,
  started by \<open>Watch\<close>, cancelled by \<open>Stop\<close>, and the reconcile loop that follows the registry.

  A tailer is a number.  \<open>mg_tails\<close> is the map of cancel functions, \<open>mg_running\<close> the goroutines that
  have not returned, with their worktree and whether their context is cancelled.
\<close>

section \<open>State and operations\<close>

record manager =
  mg_tails :: "(string \<times> nat) list"
  mg_running :: "(nat \<times> string \<times> bool) list"
  mg_next :: nat

definition new_manager :: manager where
  "new_manager = \<lparr>mg_tails = [], mg_running = [], mg_next = 0\<rparr>"

definition bep_rel_path :: string where "bep_rel_path = ''.bazel-broker/bep.json''"

definition bep_path_for :: "string \<Rightarrow> string" where
  "bep_path_for wt = (if wt = [] then [] else path_join [wt, bep_rel_path])"

definition watch :: "string \<Rightarrow> manager \<Rightarrow> manager" where
  "watch wt m =
     (if wt = [] then m
      else if map_of (mg_tails m) wt \<noteq> None then m
      else m\<lparr>mg_tails := AList.update wt (mg_next m) (mg_tails m),
             mg_running := (mg_next m, wt, False) # mg_running m,
             mg_next := Suc (mg_next m)\<rparr>)"

definition cancel_tailer :: "nat \<Rightarrow> (nat \<times> string \<times> bool) list \<Rightarrow> (nat \<times> string \<times> bool) list" where
  "cancel_tailer n ts = map (\<lambda>(k, w, c). (k, w, c \<or> k = n)) ts"

definition stop :: "string \<Rightarrow> manager \<Rightarrow> manager" where
  "stop wt m =
     (case map_of (mg_tails m) wt of
        None \<Rightarrow> m\<lparr>mg_tails := AList.delete wt (mg_tails m)\<rparr>
      | Some n \<Rightarrow>
          m\<lparr>mg_tails := AList.delete wt (mg_tails m),
            mg_running := cancel_tailer n (mg_running m)\<rparr>)"

text \<open>The end of a goroutine: \<open>watchFile\<close> has returned, and the entry of its worktree is deleted.\<close>

definition tailer_exit :: "nat \<Rightarrow> manager \<Rightarrow> manager" where
  "tailer_exit n m =
     (case map_of (mg_running m) n of
        None \<Rightarrow> m
      | Some (wt, c) \<Rightarrow>
          m\<lparr>mg_tails := AList.delete wt (mg_tails m), mg_running := AList.delete n (mg_running m)\<rparr>)"

definition watching :: "string \<Rightarrow> manager \<Rightarrow> bool" where
  "watching wt m \<longleftrightarrow> map_of (mg_tails m) wt \<noteq> None"

section \<open>The reconcile loop\<close>

definition watch_grace :: duration where "watch_grace = 30 * second"

definition active_worktrees :: "build list \<Rightarrow> string list" where
  "active_worktrees bs =
     remdups (map b_worktree (filter (\<lambda>b. b_worktree b \<noteq> [] \<and> \<not> is_terminal (b_state b)) bs))"

definition idle_step :: "gotime \<Rightarrow> string set \<Rightarrow> string \<Rightarrow> (string \<Rightarrow> gotime option) \<times> manager \<Rightarrow> (string \<Rightarrow> gotime option) \<times> manager" where
  "idle_step now act wt s =
     (let (idle, m) = s in
      if wt \<in> act then (idle, m)
      else case idle wt of
             None \<Rightarrow> (idle(wt \<mapsto> now), m)
           | Some t \<Rightarrow> if watch_grace \<le> time_sub now t then (idle(wt := None), stop wt m) else (idle, m))"

definition mgr_reconcile :: "gotime \<Rightarrow> build list \<Rightarrow> (string \<Rightarrow> gotime option) \<times> manager \<Rightarrow> (string \<Rightarrow> gotime option) \<times> manager" where
  "mgr_reconcile now bs s =
     (let (idle, m) = s;
          act = active_worktrees bs;
          (idle1, m1) = foldl (\<lambda>(idle, m) wt. (idle(wt := None), watch wt m)) (idle, m) act
      in foldl (\<lambda>s wt. idle_step now (set act) wt s) (idle1, m1) (map fst (mg_tails m1)))"

section \<open>What a pass does\<close>

lemma watching_watch: "watching v (watch wt m) \<longleftrightarrow> watching v m \<or> (v = wt \<and> wt \<noteq> [])"
  by (auto simp: watching_def watch_def update_conv')

lemma watching_stop: "watching v (stop wt m) \<longleftrightarrow> watching v m \<and> v \<noteq> wt"
  by (auto simp: watching_def stop_def delete_conv' split: option.split)

lemma watch_fold:
  assumes "foldl (\<lambda>(idle, m) wt. (idle(wt := None), watch wt m)) (idle, m) ws = (idle', m')" "[] \<notin> set ws"
  shows "(watching v m' \<longleftrightarrow> watching v m \<or> v \<in> set ws) \<and> idle' v = (if v \<in> set ws then None else idle v)"
  using assms
proof (induction ws arbitrary: idle m)
  case (Cons w ws)
  then show ?case by (auto simp: watching_watch)
qed simp

definition expired :: "gotime \<Rightarrow> string set \<Rightarrow> (string \<Rightarrow> gotime option) \<Rightarrow> string \<Rightarrow> bool" where
  "expired now act idle wt \<longleftrightarrow> wt \<notin> act \<and> (case idle wt of None \<Rightarrow> False | Some t \<Rightarrow> watch_grace \<le> time_sub now t)"

lemma idle_fold:
  assumes "foldl (\<lambda>s wt. idle_step now act wt s) (idle, m) ws = (idle', m')" "distinct ws"
  shows "(watching v m' \<longleftrightarrow> watching v m \<and> \<not> (v \<in> set ws \<and> expired now act idle v)) \<and>
    idle' v = (if v \<in> set ws \<and> v \<notin> act then (case idle v of None \<Rightarrow> Some now | Some t \<Rightarrow> if watch_grace \<le> time_sub now t then None else Some t)
               else idle v)"
  using assms
proof (induction ws arbitrary: idle m)
  case (Cons w ws)
  obtain i2 m2 where s: "idle_step now act w (idle, m) = (i2, m2)" by fastforce
  with Cons have IH: "(watching v m' \<longleftrightarrow> watching v m2 \<and> \<not> (v \<in> set ws \<and> expired now act i2 v)) \<and>
    idle' v = (if v \<in> set ws \<and> v \<notin> act then (case i2 v of None \<Rightarrow> Some now | Some t \<Rightarrow> if watch_grace \<le> time_sub now t then None else Some t)
               else i2 v)" by simp
  have other: "i2 v = idle v" if "v \<noteq> w" using s that by (auto simp: idle_step_def split: if_splits option.splits)
  have wm: "watching v m2 \<longleftrightarrow> watching v m \<and> \<not> (v = w \<and> expired now act idle v)"
    using s by (auto simp: idle_step_def expired_def watching_stop split: if_splits option.splits)
  show ?case
  proof (cases "v = w")
    case True
    with Cons.prems(2) IH wm s show ?thesis
      by (auto simp: idle_step_def expired_def split: if_splits option.splits)
  next
    case False
    with IH wm other show ?thesis by (auto simp: expired_def)
  qed
qed simp

lemma tails_distinct_watch: "distinct (map fst (mg_tails m)) \<Longrightarrow> distinct (map fst (mg_tails (watch wt m)))"
  by (simp add: watch_def)

lemma tails_distinct_fold:
  "foldl (\<lambda>(idle, m) wt. (idle(wt := None), watch wt m)) (idle, m) ws = (idle', m') \<Longrightarrow>
     distinct (map fst (mg_tails m)) \<Longrightarrow> distinct (map fst (mg_tails m'))"
proof (induction ws arbitrary: idle m)
  case (Cons w ws)
  from Cons.IH [of "idle(w := None)" "watch w m"] Cons.prems tails_distinct_watch show ?case by simp
qed simp

text \<open>
  The supervisor follows the registry.  After a pass exactly these worktrees have a tailer: those
  with an active build, and those that had one and have not been idle for thirty seconds.
\<close>

theorem manager_follows_registry:
  assumes "distinct (map fst (mg_tails m))" and "mgr_reconcile now bs (idle, m) = (idle', m')"
  shows "watching v m' \<longleftrightarrow>
    v \<in> set (active_worktrees bs) \<or>
    watching v m \<and> (case idle v of None \<Rightarrow> True | Some t \<Rightarrow> time_sub now t < watch_grace)"
proof -
  let ?act = "active_worktrees bs"
  obtain i1 m1 where f: "foldl (\<lambda>(idle, m) wt. (idle(wt := None), watch wt m)) (idle, m) ?act = (i1, m1)" by fastforce
  have ne: "[] \<notin> set ?act" by (auto simp: active_worktrees_def)
  note w = watch_fold [OF f ne]
  have "distinct (map fst (mg_tails m1))" using f assms(1) by (rule tails_distinct_fold)
  moreover from assms(2) f have "foldl (\<lambda>s wt. idle_step now (set ?act) wt s) (i1, m1) (map fst (mg_tails m1)) = (idle', m')"
    by (simp add: mgr_reconcile_def)
  moreover have "v \<in> set (map fst (mg_tails m1)) \<longleftrightarrow> watching v m1"
    by (auto simp: watching_def map_of_eq_None_iff)
  ultimately have "watching v m' \<longleftrightarrow> watching v m1 \<and> \<not> expired now (set ?act) i1 v"
    using idle_fold by blast
  with w [of v] show ?thesis by (auto simp: expired_def split: option.splits)
qed

theorem manager_follows_registry_witness:
  "let b = empty_build\<lparr>b_worktree := ''/w'', b_state := state_running\<rparr>;
       (idle, m) = mgr_reconcile 40000000000 [b] (Map.empty(''/v'' \<mapsto> 5), watch ''/v'' new_manager)
   in watching ''/w'' m \<and> \<not> watching ''/v'' m"
proof -
  let ?b = "empty_build\<lparr>b_worktree := ''/w'', b_state := state_running\<rparr>" and ?m = "watch ''/v'' new_manager"
  obtain idle m where r: "mgr_reconcile 40000000000 [?b] (Map.empty(''/v'' \<mapsto> 5), ?m) = (idle, m)" by fastforce
  have d: "distinct (map fst (mg_tails ?m))" by (simp add: watch_def new_manager_def)
  have a: "active_worktrees [?b] = [''/w'']" by (simp add: active_worktrees_def)
  have t: "watch_grace = 30000000000" "time_sub 40000000000 5 = 39999999995"
    by (simp_all add: watch_grace_def time_simps time_sub_def min_duration_def max_duration_def)
  from manager_follows_registry [OF d r, of "''/w''"] manager_follows_registry [OF d r, of "''/v''"] r
  show ?thesis by (simp add: a t)
qed

section \<open>Goroutines\<close>

text \<open>
  The interleavings: \<open>Watch\<close> and \<open>Stop\<close> are called at any time, a goroutine returns some time after its
  context was cancelled.
\<close>

datatype mgr_act = Watch string | Stop string | Exit nat

inductive mgr_step :: "mgr_act \<Rightarrow> manager \<Rightarrow> manager \<Rightarrow> bool" where
  watch: "mgr_step (Watch wt) m (watch wt m)"
| stop: "mgr_step (Stop wt) m (stop wt m)"
| exit: "map_of (mg_running m) n = Some (wt, True) \<Longrightarrow> mgr_step (Exit n) m (tailer_exit n m)"

inductive_simps mgr_step_simps: "mgr_step (Watch wt) m m'" "mgr_step (Stop wt) m m'" "mgr_step (Exit n) m m'"

inductive mgr_reach :: "mgr_act list \<Rightarrow> manager \<Rightarrow> bool" where
  init: "mgr_reach [] new_manager"
| step: "mgr_reach as m \<Longrightarrow> mgr_step a m m' \<Longrightarrow> mgr_reach (as @ [a]) m'"

definition mgr_ok :: "manager \<Rightarrow> bool" where
  "mgr_ok m \<longleftrightarrow> distinct (map fst (mg_tails m)) \<and> distinct (map fst (mg_running m)) \<and>
     (\<forall>k\<in>set (map fst (mg_running m)). k < mg_next m) \<and>
     (\<forall>wt n. map_of (mg_tails m) wt = Some n \<longrightarrow> wt \<noteq> [] \<and> map_of (mg_running m) n = Some (wt, False))"

lemma mgr_ok_tail: "mgr_ok m \<Longrightarrow> map_of (mg_tails m) wt = Some n \<Longrightarrow> map_of (mg_running m) n = Some (wt, False)"
  by (simp add: mgr_ok_def)

lemma mgr_ok_watch: "mgr_ok m \<Longrightarrow> mgr_ok (watch wt m)"
proof (cases "wt = [] \<or> map_of (mg_tails m) wt \<noteq> None")
  case False
  assume ok: "mgr_ok m"
  then have fresh: "mg_next m \<notin> fst ` set (mg_running m)" by (auto simp: mgr_ok_def)
  then have "map_of (mg_running m) (mg_next m) = None" by (simp add: map_of_eq_None_iff)
  with ok False fresh show ?thesis
    by (auto simp: mgr_ok_def watch_def update_conv' less_Suc_eq)
qed (auto simp: watch_def)

lemma cancel_keys [simp]: "map fst (cancel_tailer n ts) = map fst ts"
  by (simp add: cancel_tailer_def split_beta o_def)

lemma map_of_cancel: "map_of (cancel_tailer n ts) j = map_option (\<lambda>(w, c). (w, c \<or> j = n)) (map_of ts j)"
  unfolding cancel_tailer_def by (induction ts) auto

lemma mgr_ok_stop:
  assumes ok: "mgr_ok m" shows "mgr_ok (stop wt m)"
proof -
  define ts where "ts = (case map_of (mg_tails m) wt of None \<Rightarrow> mg_running m | Some n \<Rightarrow> cancel_tailer n (mg_running m))"
  have st: "stop wt m = m\<lparr>mg_tails := AList.delete wt (mg_tails m), mg_running := ts\<rparr>"
    by (simp add: stop_def ts_def split: option.split)
  have keys: "map fst ts = map fst (mg_running m)" by (simp add: ts_def split: option.split)
  have "map_of ts j = Some (v, False)" if "map_of (mg_tails m) v = Some j" "v \<noteq> wt" for v j
  proof (cases "map_of (mg_tails m) wt")
    case None
    with mgr_ok_tail [OF ok that(1)] show ?thesis by (simp add: ts_def)
  next
    case (Some n)
    have "j \<noteq> n" using mgr_ok_tail [OF ok that(1)] mgr_ok_tail [OF ok Some] that(2) by auto
    with Some mgr_ok_tail [OF ok that(1)] show ?thesis by (simp add: ts_def map_of_cancel)
  qed
  with ok show ?thesis unfolding mgr_ok_def st by (simp add: keys delete_conv' distinct_delete)
qed

lemma mgr_ok_exit:
  assumes ok: "mgr_ok m" and n: "map_of (mg_running m) n = Some (wt, True)" shows "mgr_ok (tailer_exit n m)"
proof -
  have "j \<noteq> n" if "map_of (mg_tails m) v = Some j" for v j using mgr_ok_tail [OF ok that] n by auto
  then have "map_of (AList.delete n (mg_running m)) j = Some (v, False)" if "map_of (mg_tails m) v = Some j" for v j
    using mgr_ok_tail [OF ok that] that by (simp add: delete_conv')
  with ok n show ?thesis
    unfolding mgr_ok_def tailer_exit_def by (simp add: delete_conv' distinct_removeAll delete_keys) blast
qed

lemma mgr_reach_ok: "mgr_reach as m \<Longrightarrow> mgr_ok m"
proof (induction rule: mgr_reach.induct)
  case (step as m a m')
  then show ?case by (cases a) (auto simp: mgr_step_simps mgr_ok_watch mgr_ok_stop mgr_ok_exit)
qed (simp add: mgr_ok_def new_manager_def)

text \<open>
  A worktree that counts as watched has a tailer.  In every interleaving of watches, stops and
  returning goroutines, each entry of the map is a running goroutine of that worktree whose context is
  not cancelled.
\<close>

theorem watched_has_tailer:
  assumes "mgr_reach as m" and "watching wt m"
  shows "\<exists>n. (n, wt, False) \<in> set (mg_running m)"
proof -
  from assms(2) obtain n where "map_of (mg_tails m) wt = Some n" by (auto simp: watching_def)
  with mgr_reach_ok [OF assms(1)] have "map_of (mg_running m) n = Some (wt, False)" by (simp add: mgr_ok_def)
  then show ?thesis by (blast dest: map_of_SomeD)
qed

theorem watched_has_tailer_witness: "\<exists>n. (n, ''/w'', False) \<in> set (mg_running (watch ''/w'' new_manager))"
proof (rule watched_has_tailer)
  from mgr_reach.step [OF mgr_reach.init mgr_step.watch [of "''/w''" new_manager]]
  show "mgr_reach [Watch ''/w''] (watch ''/w'' new_manager)" by simp
  show "watching ''/w'' (watch ''/w'' new_manager)" by (simp add: watching_watch)
qed

text \<open>
  Two tailers can read one file.  A goroutine that returns late deletes the entry of its worktree
  even if a new tailer has taken it; the next watch then starts a second one, and the first can no
  longer be stopped.
\<close>

theorem late_exit_duplicates:
  "\<exists>m. mgr_reach [Watch ''/w'', Stop ''/w'', Watch ''/w'', Exit 0, Watch ''/w''] m \<and>
     mg_running m = [(2, ''/w'', False), (1, ''/w'', False)] \<and> mg_running (stop ''/w'' m) = [(2, ''/w'', True), (1, ''/w'', False)]"
proof -
  let ?m1 = "watch ''/w'' new_manager"
  let ?m2 = "stop ''/w'' ?m1"
  let ?m3 = "watch ''/w'' ?m2"
  let ?m4 = "tailer_exit 0 ?m3"
  let ?m5 = "watch ''/w'' ?m4"
  note defs = watch_def stop_def tailer_exit_def new_manager_def cancel_tailer_def
  have "mgr_reach [Watch ''/w''] ?m1" using mgr_reach.step [OF mgr_reach.init mgr_step.watch] by simp
  from mgr_reach.step [OF this mgr_step.stop] have "mgr_reach [Watch ''/w'', Stop ''/w''] ?m2" by simp
  from mgr_reach.step [OF this mgr_step.watch] have "mgr_reach [Watch ''/w'', Stop ''/w'', Watch ''/w''] ?m3" by simp
  moreover have "mgr_step (Exit 0) ?m3 ?m4" by (rule mgr_step.exit [where wt = "''/w''"]) (simp add: defs)
  ultimately have "mgr_reach [Watch ''/w'', Stop ''/w'', Watch ''/w'', Exit 0] ?m4" using mgr_reach.step by fastforce
  from mgr_reach.step [OF this mgr_step.watch]
  have "mgr_reach [Watch ''/w'', Stop ''/w'', Watch ''/w'', Exit 0, Watch ''/w''] ?m5" by simp
  moreover have "mg_running ?m5 = [(2, ''/w'', False), (1, ''/w'', False)]"
    "mg_running (stop ''/w'' ?m5) = [(2, ''/w'', True), (1, ''/w'', False)]"
    by (simp_all add: defs)
  ultimately show ?thesis by blast
qed

end
