(* ===== verification/Disk_Cache.thy ===== *)
theory Disk_Cache
  imports Go_Float Store
begin

text \<open>
  The report on the shared disk cache and its optional pruning (\<open>internal/bep/diskcache.go\<close>).

  The directory walk is the list of what the callback sees; \<open>removable\<close> says which paths \<open>os.Remove\<close>
  can delete.  Sizes are \<open>int64\<close>.  \<open>sort.Slice\<close> may order entries of one modification time either
  way; the model keeps the order of the walk.
\<close>

section \<open>Configuration and scan\<close>

record disk_config =
  dc_dir :: string
  dc_report_every :: duration
  dc_max_bytes :: int
  dc_min_age :: duration
  dc_hysteresis :: rat
  dc_direct :: bool

definition disk_defaults :: "disk_config \<Rightarrow> disk_config" where
  "disk_defaults c =
     c\<lparr>dc_report_every := (if dc_report_every c = 0 then 15 * minute else dc_report_every c),
       dc_min_age := (if dc_min_age c = 0 then 24 * hour else dc_min_age c),
       dc_hysteresis := (if dc_hysteresis c = 0 then fl64 (9 / 10) else dc_hysteresis c)\<rparr>"

record cache_entry =
  ce_path :: string
  ce_size :: int
  ce_mtime :: gotime

datatype walk_item = WalkError | WalkOther | WalkNoInfo | WalkFile cache_entry

record disk_scan =
  sc_total :: int
  sc_count :: int
  sc_oldest :: gotime
  sc_entries :: "cache_entry list"

definition empty_scan :: disk_scan where
  "empty_scan = \<lparr>sc_total = 0, sc_count = 0, sc_oldest = time_zero, sc_entries = []\<rparr>"

definition scan_item :: "bool \<Rightarrow> walk_item \<Rightarrow> disk_scan \<Rightarrow> disk_scan" where
  "scan_item collect w s =
     (case w of
        WalkFile e \<Rightarrow>
          s\<lparr>sc_total := wrap64 (sc_total s + ce_size e), sc_count := wrap64 (sc_count s + 1),
            sc_oldest := (if is_zero (sc_oldest s) \<or> ce_mtime e < sc_oldest s then ce_mtime e else sc_oldest s),
            sc_entries := (if collect then sc_entries s @ [e] else sc_entries s)\<rparr>
      | _ \<Rightarrow> s)"

definition scan_disk_cache :: "string \<Rightarrow> bool \<Rightarrow> walk_item list \<Rightarrow> disk_scan" where
  "scan_disk_cache dir collect ws =
     (if dir = [] then empty_scan else foldl (\<lambda>s w. scan_item collect w s) empty_scan ws)"

section \<open>Pruning\<close>

text \<open>\<open>int64\<close> of a float truncates towards zero.\<close>

definition trunc :: "rat \<Rightarrow> int" where
  "trunc x = (if x < 0 then \<lceil>x\<rceil> else \<lfloor>x\<rfloor>)"

definition prune_target :: "disk_config \<Rightarrow> int" where
  "prune_target c = trunc (fl64 (fl64 (of_int (dc_max_bytes c)) * dc_hysteresis c))"

fun prune_loop :: "int \<Rightarrow> gotime \<Rightarrow> (string \<Rightarrow> bool) \<Rightarrow> int \<Rightarrow> int \<Rightarrow> cache_entry list \<Rightarrow> int \<times> cache_entry list" where
  "prune_loop target cutoff removable tot freed [] = (freed, [])"
| "prune_loop target cutoff removable tot freed (e # es) =
     (if wrap64 (tot - freed) \<le> target then (freed, [])
      else if cutoff < ce_mtime e then prune_loop target cutoff removable tot freed es
      else if \<not> removable (ce_path e) then prune_loop target cutoff removable tot freed es
      else let (f, ds) = prune_loop target cutoff removable tot (wrap64 (freed + ce_size e)) es in (f, e # ds))"

definition prune :: "disk_config \<Rightarrow> gotime \<Rightarrow> (string \<Rightarrow> bool) \<Rightarrow> cache_entry list \<Rightarrow> int \<Rightarrow> int \<times> cache_entry list" where
  "prune c now removable es tot =
     prune_loop (prune_target c) (now - dc_min_age c) removable tot 0 (sort_key ce_mtime es)"

section \<open>The report\<close>

record disk_view =
  dv_taken :: int
  dv_dir :: string
  dv_total :: int
  dv_count :: int
  dv_oldest :: int
  dv_freed :: int

definition report_view :: "disk_config \<Rightarrow> gotime \<Rightarrow> disk_scan \<Rightarrow> disk_view" where
  "report_view c now s =
     \<lparr>dv_taken = unix_milli now, dv_dir = dc_dir c, dv_total = sc_total s, dv_count = sc_count s,
      dv_oldest = (if is_zero (sc_oldest s) then 0 else unix_milli (sc_oldest s)), dv_freed = 0\<rparr>"

text \<open>\<open>walk_ok\<close> is whether \<open>WalkDir\<close> returned without an error.  The second result lists what was deleted.\<close>

definition reporter_run ::
  "disk_config \<Rightarrow> gotime \<Rightarrow> bool \<Rightarrow> (string \<Rightarrow> bool) \<Rightarrow> bool \<Rightarrow> walk_item list \<Rightarrow> disk_view option \<times> cache_entry list" where
  "reporter_run c now build_active removable walk_ok ws =
     (let s = scan_disk_cache (dc_dir c) (dc_direct c \<and> 0 < dc_max_bytes c) ws in
      if \<not> walk_ok then (None, [])
      else
        let view = report_view c now s in
        if dc_direct c \<and> 0 < dc_max_bytes c \<and> dc_max_bytes c < sc_total s then
          if build_active then (Some view, [])
          else let (freed, ds) = prune c now removable (sc_entries s) (sc_total s)
               in (Some (view\<lparr>dv_freed := freed, dv_total := wrap64 (sc_total s - freed)\<rparr>), ds)
        else (Some view, []))"

section \<open>Pruning deletes the oldest entries, and no more than it must\<close>

definition sizes :: "cache_entry list \<Rightarrow> int" where
  "sizes es = sum_list (map ce_size es)"

lemma sizes_simps [simp]: "sizes [] = 0" "sizes (e # es) = ce_size e + sizes es" "sizes (xs @ ys) = sizes xs + sizes ys"
  by (simp_all add: sizes_def)

lemma sizes_nonneg: "\<forall>e\<in>set es. 0 \<le> ce_size e \<Longrightarrow> 0 \<le> sizes es"
  by (induction es) auto

text \<open>What the pruning promises: walk the candidates from the oldest until the target is met.\<close>

fun shrink :: "int \<Rightarrow> int \<Rightarrow> cache_entry list \<Rightarrow> cache_entry list" where
  "shrink target tot [] = []"
| "shrink target tot (e # es) = (if tot \<le> target then [] else e # shrink target (tot - ce_size e) es)"

lemma prune_loop_shrink:
  assumes "\<forall>e\<in>set es. 0 \<le> ce_size e" "0 \<le> freed" "freed + sizes es \<le> tot" "tot < 2 ^ 63"
  shows "prune_loop target cutoff removable tot freed es =
    (let ds = shrink target (tot - freed) (filter (\<lambda>e. ce_mtime e \<le> cutoff \<and> removable (ce_path e)) es)
     in (freed + sizes ds, ds))"
  using assms
proof (induction es arbitrary: freed)
  case (Cons e es)
  have nn: "0 \<le> sizes es" using Cons.prems(1) by (intro sizes_nonneg) auto
  have w: "wrap64 (tot - freed) = tot - freed" "wrap64 (freed + ce_size e) = freed + ce_size e"
    using Cons.prems nn by (auto intro!: wrap64_id simp: in64_def)
  show ?case
  proof (cases "tot - freed \<le> target \<or> cutoff < ce_mtime e \<or> \<not> removable (ce_path e)")
    case True
    have stop: "tot - freed \<le> target \<Longrightarrow> shrink target (tot - freed) xs = []" for xs by (cases xs) auto
    from True Cons.IH [of freed] Cons.prems show ?thesis by (auto simp: w stop Let_def)
  next
    case False
    with Cons.IH [of "freed + ce_size e"] Cons.prems show ?thesis
      by (simp add: w Let_def algebra_simps not_less)
  qed
qed simp

lemma sizes_sort: "sizes (sort_key f es) = sizes es"
proof -
  have "mset (map ce_size (sort_key f es)) = mset (map ce_size es)" by simp
  then show ?thesis unfolding sizes_def by (metis sum_mset_sum_list)
qed

text \<open>
  C36: pruning is least-recently-written eviction.  It deletes, from the oldest on, exactly as many of
  the entries that are past the minimum age and can be deleted as it takes to reach the target, and
  reports the bytes of what it deleted.
\<close>

theorem prune_evicts_oldest:
  assumes "\<forall>e\<in>set es. 0 \<le> ce_size e" and "sizes es < 2 ^ 63"
  shows "prune c now removable es (sizes es) =
    (let old = filter (\<lambda>e. ce_mtime e \<le> now - dc_min_age c \<and> removable (ce_path e)) (sort_key ce_mtime es);
         ds = shrink (prune_target c) (sizes es) old
     in (sizes ds, ds))"
  using prune_loop_shrink [of "sort_key ce_mtime es" 0 "sizes es"] assms by (simp add: prune_def sizes_sort)

definition two_entries :: "cache_entry list" where
  "two_entries = [\<lparr>ce_path = ''new'', ce_size = 30, ce_mtime = 90\<rparr>, \<lparr>ce_path = ''old'', ce_size = 80, ce_mtime = 10\<rparr>]"

definition small_cache :: disk_config where
  "small_cache = \<lparr>dc_dir = ''/c'', dc_report_every = 1, dc_max_bytes = 100, dc_min_age = 5, dc_hysteresis = 1, dc_direct = True\<rparr>"

lemma fl64_100: "fl64 100 = 100"
  using fl64_dyadic [OF is_double_int [of 100]] by simp

theorem prune_evicts_oldest_witness:
  "prune small_cache 100 (\<lambda>_. True) two_entries 110 = (80, [\<lparr>ce_path = ''old'', ce_size = 80, ce_mtime = 10\<rparr>])"
proof -
  have t: "prune_target small_cache = 100" by (simp add: prune_target_def small_cache_def fl64_100 trunc_def)
  have "\<forall>e\<in>set two_entries. 0 \<le> ce_size e" "sizes two_entries < 2 ^ 63" by (simp_all add: two_entries_def)
  from prune_evicts_oldest [OF this, of small_cache 100 "\<lambda>_. True"] show ?thesis
    by (simp add: t) (simp add: two_entries_def small_cache_def)
qed

text \<open>Whatever the sizes, only old entries of the scan are deleted, and none while a build is active.\<close>

lemma prune_loop_old:
  "e \<in> set (snd (prune_loop target cutoff removable tot freed es)) \<Longrightarrow> e \<in> set es \<and> ce_mtime e \<le> cutoff"
  by (induction target cutoff removable tot freed es rule: prune_loop.induct) (auto split: if_splits prod.splits)

text \<open>
  The report never deletes what a build may need.  An entry that a report deletes is older than the
  minimum age, and it deletes nothing while a build is active, without the opt-in, or below the limit.
\<close>

theorem report_deletes_safely:
  assumes "e \<in> set (snd (reporter_run c now build_active removable walk_ok ws))"
  shows "ce_mtime e \<le> now - dc_min_age c \<and> \<not> build_active \<and> dc_direct c \<and>
    dc_max_bytes c < sc_total (scan_disk_cache (dc_dir c) True ws)"
proof -
  let ?s = "scan_disk_cache (dc_dir c) (dc_direct c \<and> 0 < dc_max_bytes c) ws"
  from assms have g: "dc_direct c" "0 < dc_max_bytes c" "dc_max_bytes c < sc_total ?s" "\<not> build_active"
    and e: "e \<in> set (snd (prune c now removable (sc_entries ?s) (sc_total ?s)))"
    by (simp_all add: reporter_run_def Let_def split_beta split: if_splits)
  from prune_loop_old [OF e [unfolded prune_def]] g show ?thesis by simp
qed

theorem report_deletes_safely_witness:
  "let ds = snd (reporter_run small_cache 100 False (\<lambda>_. True) True (map WalkFile two_entries))
   in ds \<noteq> [] \<and> (\<forall>e\<in>set ds. ce_mtime e \<le> 95)"
proof -
  have t: "prune_target small_cache = 100" by (simp add: prune_target_def small_cache_def fl64_100 trunc_def)
  have ds: "snd (reporter_run small_cache 100 False (\<lambda>_. True) True (map WalkFile two_entries)) =
      [\<lparr>ce_path = ''old'', ce_size = 80, ce_mtime = 10\<rparr>]"
    by (simp add: reporter_run_def scan_disk_cache_def scan_item_def empty_scan_def prune_def t Let_def)
       (simp add: small_cache_def two_entries_def scan_item_def wrap64_def is_zero_def time_zero_def report_view_def)
  moreover have "ce_mtime e \<le> 100 - dc_min_age small_cache"
    if "e \<in> set (snd (reporter_run small_cache 100 False (\<lambda>_. True) True (map WalkFile two_entries)))" for e
    using report_deletes_safely [OF that] by simp
  ultimately show ?thesis by (auto simp: small_cache_def)
qed

end
