(* ===== verification/Bep_Provider.thy ===== *)
theory Bep_Provider
  imports Bep_Stream_Props Bep_Manager Disk_Cache
begin

text \<open>
  The read side of the metrics (\<open>internal/bep/provider.go\<close>, \<open>json.go\<close>) and the wiring of the ingest
  (\<open>ingest.go\<close>): the JSON shape of a row, the handlers of the metrics, profile and disk-cache routes,
  and the events a finalized row sends.

  A response is its status, headers and the value the encoder gets.  JSON text, the text of a database
  error and whether a file opens are parameters.
\<close>

section \<open>The JSON shape\<close>

record cache_json =
  cj_created :: int
  cj_executed_actions :: int
  cj_processes :: int
  cj_runners :: "runner_count list"
  cj_disk_hits :: int
  cj_remote_hits :: int
  cj_executed :: int
  cj_ratio :: "rat option"
  cj_summary :: string
  cj_mnemonics :: "mnemonic list"

record timing_json =
  tj_wall :: int
  tj_cpu :: int
  tj_analysis :: int
  tj_exec :: int

record tests_json =
  te_total :: int
  te_failed :: int

record profile_json =
  pj_path :: string
  pj_served :: string
  pj_perfetto :: string

record metrics_json =
  mj_id :: string
  mj_worktree :: string
  mj_started :: int
  mj_finished :: int
  mj_exit :: int
  mj_success :: bool
  mj_cache :: cache_json
  mj_timing :: timing_json
  mj_targets :: int
  mj_packages :: int
  mj_heap :: int
  mj_tests :: tests_json
  mj_alert :: string
  mj_profile :: profile_json

definition shim_name :: string where "shim_name = ''perfetto''"
definition perfetto_origin :: string where "perfetto_origin = ''https://ui.perfetto.dev''"

definition provider_base :: "string \<Rightarrow> string" where
  "provider_base url = trim_right_set [CHR ''/''] url"

definition profile_url_for :: "string \<Rightarrow> string \<Rightarrow> string" where
  "profile_url_for base i = base @ ''/profile/'' @ i @ ''/'' @ shim_name"

definition to_json :: "string \<Rightarrow> mrow \<Rightarrow> metrics_json" where
  "to_json base r =
     \<lparr>mj_id = m_id r, mj_worktree = m_worktree r, mj_started = m_started r, mj_finished = m_finished r,
      mj_exit = m_exit r, mj_success = m_success r,
      mj_cache = \<lparr>cj_created = m_actions_created r, cj_executed_actions = m_actions_executed r,
        cj_processes = m_processes r, cj_runners = m_runners r, cj_disk_hits = m_disk_hits r,
        cj_remote_hits = m_remote_hits r, cj_executed = m_executed r, cj_ratio = cache_hit_ratio r,
        cj_summary = m_summary r, cj_mnemonics = m_mnemonics r\<rparr>,
      mj_timing = \<lparr>tj_wall = m_wall_ms r, tj_cpu = m_cpu_ms r, tj_analysis = m_analysis_ms r, tj_exec = m_exec_ms r\<rparr>,
      mj_targets = m_targets r, mj_packages = m_packages r, mj_heap = m_peak_heap r,
      mj_tests = \<lparr>te_total = m_tests r, te_failed = m_tests_failed r\<rparr>, mj_alert = m_alert r,
      mj_profile = (if m_id r \<noteq> []
        then \<lparr>pj_path = m_profile_path r, pj_served = base @ ''/profile/'' @ m_id r @ ''/command.profile.gz'',
              pj_perfetto = profile_url_for base (m_id r)\<rparr>
        else \<lparr>pj_path = [], pj_served = [], pj_perfetto = []\<rparr>)\<rparr>"

section \<open>Handlers\<close>

datatype provider_body =
    MetricsBody metrics_json
  | MetricsListBody "metrics_json list"
  | FailBody string string
  | ProfileRefBody string string
  | ShimBody string string
  | FileBody string
  | DiskBody disk_view

record provider_response =
  pv_status :: nat
  pv_headers :: "(string \<times> string) list"
  pv_body :: provider_body

definition json_type :: "string \<times> string" where
  "json_type = (''Content-Type'', ''application/json; charset=utf-8'')"

definition write_json :: "nat \<Rightarrow> provider_body \<Rightarrow> provider_response" where
  "write_json st v = \<lparr>pv_status = st, pv_headers = [json_type], pv_body = v\<rparr>"

text \<open>The error document names the epic \<open>E4\<close> besides the code and the message of \<open>FailBody\<close>.\<close>

definition pv_fail :: "nat \<Rightarrow> string \<Rightarrow> string \<Rightarrow> provider_response" where
  "pv_fail st code msg = write_json st (FailBody code msg)"

record provider =
  p_base :: string
  p_error :: "store_error \<Rightarrow> string"
  p_opens :: "string \<Rightarrow> bool"
  p_quote :: "string \<Rightarrow> string"

definition write_metrics :: "provider \<Rightarrow> bool \<Rightarrow> store \<Rightarrow> string \<Rightarrow> provider_response" where
  "write_metrics p ok st i =
     (if i = [] then pv_fail 400 ''bad_request'' ''invocation_id required''
      else case get_metrics ok i st of
             Inl e \<Rightarrow> pv_fail 500 ''internal'' (p_error p e)
           | Inr None \<Rightarrow> pv_fail 404 ''not_found'' (''no metrics for '' @ i)
           | Inr (Some (row, raw)) \<Rightarrow> write_json 200 (MetricsBody (to_json (p_base p) row)))"

definition handle_metrics_list :: "provider \<Rightarrow> bool \<Rightarrow> store \<Rightarrow> string \<Rightarrow> provider_response" where
  "handle_metrics_list p ok st query_id =
     (if query_id \<noteq> [] then write_metrics p ok st query_id
      else case list_metrics ok 50 st of
             Inl e \<Rightarrow> pv_fail 500 ''internal'' (p_error p e)
           | Inr rows \<Rightarrow> write_json 200 (MetricsListBody (map (to_json (p_base p)) rows)))"

definition handle_build_profile :: "provider \<Rightarrow> bool \<Rightarrow> store \<Rightarrow> string \<Rightarrow> provider_response" where
  "handle_build_profile p ok st i =
     (case get_metrics ok i st of
        Inl e \<Rightarrow> pv_fail 500 ''internal'' (p_error p e)
      | Inr r \<Rightarrow> write_json 200 (ProfileRefBody (profile_url_for (p_base p) i)
                   (case r of None \<Rightarrow> [] | Some (row, raw) \<Rightarrow> m_profile_path row)))"

definition cors_headers :: "string \<Rightarrow> (string \<times> string) list" where
  "cors_headers origin =
     (if origin = perfetto_origin
      then [(''Access-Control-Allow-Origin'', perfetto_origin), (''Vary'', ''Origin'')] else [])"

definition serve_shim :: "provider \<Rightarrow> string \<Rightarrow> provider_response" where
  "serve_shim p i =
     \<lparr>pv_status = 200, pv_headers = [(''Content-Type'', ''text/html; charset=utf-8'')],
      pv_body = ShimBody (p_quote p (p_base p @ ''/profile/'' @ i @ ''/command.profile.gz'')) (p_quote p (''bazel '' @ i))\<rparr>"

definition add_headers :: "(string \<times> string) list \<Rightarrow> provider_response \<Rightarrow> provider_response" where
  "add_headers hs r = r\<lparr>pv_headers := hs @ pv_headers r\<rparr>"

definition handle_profile_file :: "provider \<Rightarrow> bool \<Rightarrow> store \<Rightarrow> string \<Rightarrow> string \<Rightarrow> string \<Rightarrow> provider_response" where
  "handle_profile_file p ok st origin i name =
     add_headers (cors_headers origin)
       (if name = shim_name then serve_shim p i
        else case get_metrics ok i st of
               Inl e \<Rightarrow> pv_fail 500 ''internal'' (p_error p e)
             | Inr None \<Rightarrow> pv_fail 404 ''not_found'' (''no profile for '' @ i)
             | Inr (Some (row, raw)) \<Rightarrow>
                 if m_profile_path row = [] then pv_fail 404 ''not_found'' (''no profile for '' @ i)
                 else if \<not> p_opens p (m_profile_path row) then pv_fail 404 ''not_found'' ''profile file missing''
                 else \<lparr>pv_status = 200,
                       pv_headers = [(''Content-Type'', ''application/gzip''),
                         (''Content-Disposition'', ''inline; filename='' @ [CHR 0x22] @ path_base (m_profile_path row) @ [CHR 0x22])],
                       pv_body = FileBody (m_profile_path row)\<rparr>)"

definition view_of_report :: "disk_report \<Rightarrow> disk_view" where
  "view_of_report r =
     \<lparr>dv_taken = dr_taken r, dv_dir = dr_dir r, dv_total = dr_bytes r, dv_count = dr_files r,
      dv_oldest = dr_oldest r, dv_freed = dr_freed r\<rparr>"

text \<open>The store adapter: the latest persisted report as the provider's view.\<close>

definition latest_view :: "bool \<Rightarrow> store \<Rightarrow> store_error + disk_view option" where
  "latest_view ok st =
     (case latest_disk_report ok st of Inl e \<Rightarrow> Inl e | Inr r \<Rightarrow> Inr (map_option view_of_report r))"

text \<open>\<open>fresh\<close> is the on-demand report: \<open>None\<close> if none is wired or the scan failed.\<close>

definition handle_disk_cache :: "provider \<Rightarrow> string \<Rightarrow> disk_view option \<Rightarrow> bool \<Rightarrow> store \<Rightarrow> provider_response" where
  "handle_disk_cache p dir fresh ok st =
     (case fresh of
        Some v \<Rightarrow> write_json 200 (DiskBody v)
      | None \<Rightarrow>
          (case latest_view ok st of
             Inl e \<Rightarrow> pv_fail 500 ''internal'' (p_error p e)
           | Inr None \<Rightarrow> write_json 200 (DiskBody \<lparr>dv_taken = 0, dv_dir = dir, dv_total = 0, dv_count = 0, dv_oldest = 0, dv_freed = 0\<rparr>)
           | Inr (Some v) \<Rightarrow> write_json 200 (DiskBody v)))"

section \<open>Ingest\<close>

record ingest_config =
  ig_base_url :: string
  ig_disk_cache :: string
  ig_max_bytes :: int
  ig_report_every :: duration

definition ingest_disk_config :: "ingest_config \<Rightarrow> disk_config" where
  "ingest_disk_config c = disk_defaults
     \<lparr>dc_dir = ig_disk_cache c, dc_report_every = ig_report_every c, dc_max_bytes = ig_max_bytes c,
      dc_min_age = 0, dc_hysteresis = 0, dc_direct = False\<rparr>"

definition any_build_active :: "'m registry \<Rightarrow> bool" where
  "any_build_active rg \<longleftrightarrow> list_ex (\<lambda>b. \<not> is_terminal (b_state b)) (rg_snapshot rg)"

definition report_of_view :: "disk_view \<Rightarrow> disk_report" where
  "report_of_view v =
     \<lparr>dr_taken = dv_taken v, dr_dir = dv_dir v, dr_bytes = dv_total v, dr_files = dv_count v,
      dr_oldest = dv_oldest v, dr_freed = dv_freed v\<rparr>"

definition persist_report :: "bool \<Rightarrow> disk_view \<Rightarrow> store \<Rightarrow> store" where
  "persist_report ok v st = (case insert_disk_report ok (report_of_view v) st of Inl _ \<Rightarrow> st | Inr st' \<Rightarrow> st')"

text \<open>One tick of the periodic report.\<close>

definition disk_report_tick ::
  "disk_config \<Rightarrow> gotime \<Rightarrow> 'm registry \<Rightarrow> (string \<Rightarrow> bool) \<Rightarrow> bool \<Rightarrow> walk_item list \<Rightarrow> bool \<Rightarrow> store \<Rightarrow> store \<times> cache_entry list" where
  "disk_report_tick c now rg removable walk_ok ws ok st =
     (if dc_dir c = [] then (st, [])
      else let (v, ds) = reporter_run c now (any_build_active rg) removable walk_ok ws
           in (case v of None \<Rightarrow> st | Some view \<Rightarrow> persist_report ok view st, ds))"

definition metrics_event :: "string \<Rightarrow> mrow \<Rightarrow> gotime \<Rightarrow> metrics_json event" where
  "metrics_event base r now =
     \<lparr>ev_type = EventMetrics, ev_seq = 0, ev_build = None, ev_builds = [], ev_ts = format_time now,
      ev_metrics = Some (to_json base r), ev_alert = None\<rparr>"

definition alert_event_of :: "mrow \<Rightarrow> gotime \<Rightarrow> metrics_json event" where
  "alert_event_of r now =
     \<lparr>ev_type = EventAlert, ev_seq = 0, ev_build = None, ev_builds = [], ev_ts = format_time now, ev_metrics = None,
      ev_alert = Some \<lparr>al_id = m_id r, al_worktree = m_worktree r, al_alert = m_alert r\<rparr>\<rparr>"

definition ingest_on_finalize :: "string \<Rightarrow> gotime \<Rightarrow> mrow \<Rightarrow> metrics_json registry \<Rightarrow> metrics_json registry" where
  "ingest_on_finalize base now r rg =
     (let rg1 = rg_broadcast (metrics_event base r now) now rg
      in if m_alert r \<noteq> [] then rg_broadcast (alert_event_of r now) now rg1 else rg1)"

text \<open>
  \<open>NewIngest\<close>: the provider's base URL and the disk configuration, and the configuration of a tailer that its
  manager builds in \<open>Watch\<close>; the manager's thresholds are left at zero, which stands for the defaults.
  \<open>dec\<close> and \<open>mar\<close> are the protobuf codec.
\<close>

record ingest =
  in_base :: string
  in_disk :: disk_config

definition new_ingest :: "ingest_config \<Rightarrow> ingest" where
  "new_ingest c = \<lparr>in_base = provider_base (ig_base_url c), in_disk = ingest_disk_config c\<rparr>"

definition tailer_config ::
  "ingest \<Rightarrow> (string \<Rightarrow> bep_event option) \<Rightarrow> (build_metrics option \<Rightarrow> string option) \<Rightarrow> gotime \<Rightarrow> metrics_json stream_config" where
  "tailer_config ig dec mar now =
     \<lparr>sc_decode = dec, sc_marshal = mar, sc_profile_url = profile_url_for (in_base ig),
      sc_alert = \<lparr>ac_floor = 0, ac_delta = 0, ac_min_procs = 0\<rparr>, sc_on_finalize = ingest_on_finalize (in_base ig) now\<rparr>"

text \<open>The report made for a request: what a walk of the directory gives at that moment.\<close>

record disk_walk =
  dw_removable :: "string \<Rightarrow> bool"
  dw_ok :: bool
  dw_items :: "walk_item list"

definition fresh_report :: "ingest \<Rightarrow> disk_walk \<Rightarrow> gotime \<Rightarrow> 'm registry \<Rightarrow> disk_view option" where
  "fresh_report ig k now rg =
     fst (reporter_run (in_disk ig) now (any_build_active rg) (dw_removable k) (dw_ok k) (dw_items k))"

section \<open>Properties\<close>

lemma rg_broadcast_state [simp]:
  "rg_builds (rg_broadcast ev now rg) = rg_builds rg" "rg_store (rg_broadcast ev now rg) = rg_store rg"
  by (simp_all add: rg_broadcast_def Let_def split: option.split)

text \<open>The hook of the ingest sends events only, so the recording of a stream holds with it.\<close>

lemma ingest_hook_quiet: "quiet_hook (cfg\<lparr>sc_on_finalize := ingest_on_finalize base now\<rparr>)"
  by (simp add: quiet_hook_def ingest_on_finalize_def Let_def)

text \<open>
  The profile route cannot be steered to another file.  The name in the URL only chooses between
  the shim and the profile: for every other name the response is the same, and a file it serves is the
  profile path recorded for the build.
\<close>

theorem profile_path_from_store:
  "(name \<noteq> shim_name \<longrightarrow> handle_profile_file p ok st origin i name = handle_profile_file p ok st origin i []) \<and>
   (\<forall>path. pv_body (handle_profile_file p ok st origin i name) = FileBody path \<longrightarrow>
      (\<exists>row raw. get_metrics ok i st = Inr (Some (row, raw)) \<and> path = m_profile_path row \<and> path \<noteq> []))"
  by (auto simp: handle_profile_file_def add_headers_def serve_shim_def pv_fail_def write_json_def shim_name_def
      split: sum.splits option.splits if_splits)

definition plain_provider :: provider where
  "plain_provider = \<lparr>p_base = ''http://127.0.0.1:8765'', p_error = (\<lambda>_. ''sql''), p_opens = (\<lambda>_. True), p_quote = id\<rparr>"

theorem profile_path_from_store_witness:
  "handle_profile_file plain_provider True empty_store [] ''a'' ''../etc'' = handle_profile_file plain_provider True empty_store [] ''a'' []"
  using profile_path_from_store [of "''../etc''" plain_provider True empty_store "[]" "''a''"] by (simp add: shim_name_def)

lemma view_report [simp]: "view_of_report (report_of_view v) = v"
  by (simp add: view_of_report_def report_of_view_def)

text \<open>
  The daemon never deletes from the disk cache.  Its ingest configuration leaves the opt-in off, so
  a tick deletes nothing, whatever the limits; and the report it persists is read back unchanged as the
  view of its time.
\<close>

theorem daemon_disk_report:
  "snd (disk_report_tick (ingest_disk_config c) now rg removable walk_ok ws ok st) = [] \<and>
   map_of (t_reports (persist_report True v st)) (dv_taken v) = Some (report_of_view v) \<and>
   view_of_report (report_of_view v) = v"
proof -
  have "\<not> dc_direct (ingest_disk_config c)" by (simp add: ingest_disk_config_def disk_defaults_def)
  then show ?thesis
    by (auto simp: disk_report_tick_def reporter_run_def Let_def persist_report_def insert_disk_report_def update_conv'
        report_of_view_def view_of_report_def split: option.split)
qed

end
