(* ===== verification/Registry_Sync.thy ===== *)
theory Registry_Sync
  imports Registry_Props
begin

text \<open>
  What the readers of the registry see: a subscriber that is not dropped follows the states of all
  builds, the queries agree with the map, and discovery does what the comments of \<open>Upsert\<close> and
  \<open>ReapMissingDiscovered\<close> promise.
\<close>

section \<open>A subscriber follows the registry\<close>

definition view_event :: "'m event \<Rightarrow> (string \<Rightarrow> string option) \<Rightarrow> string \<Rightarrow> string option" where
  "view_event ev m = (case ev_build ev of None \<Rightarrow> m | Some a \<Rightarrow> m(a_id a \<mapsto> a_state a))"

definition view_events :: "'m event list \<Rightarrow> (string \<Rightarrow> string option) \<Rightarrow> string \<Rightarrow> string option" where
  "view_events evs m = foldl (\<lambda>m ev. view_event ev m) m evs"

definition states :: "builds \<Rightarrow> string \<Rightarrow> string option" where
  "states bs = (\<lambda>i. map_option b_state (map_of bs i))"

definition set_state :: "(string \<Rightarrow> string option) \<Rightarrow> build \<Rightarrow> string \<Rightarrow> string option" where
  "set_state m b = m(b_id b \<mapsto> b_state b)"

lemma view_build_event [simp]: "view_event (build_event n b now) m = set_state m b"
  by (simp add: view_event_def build_event_def set_state_def)

lemma view_events_simps [simp]:
  "view_events [] m = m" "view_events (ev # evs) m = view_events evs (view_event ev m)"
  "view_events (xs @ ys) m = view_events ys (view_events xs m)"
  by (simp_all add: view_events_def)

lemma states_writes:
  "map_of bs' = map_of bs ++ map_of (rev (writes ws)) \<Longrightarrow>
     states bs' = foldl set_state (states bs) ws"
proof (induction ws arbitrary: bs' rule: rev_induct)
  case (snoc w ws)
  let ?bs = "rev (writes ws) @ bs"
  have "states ?bs = foldl set_state (states bs) ws"
    by (rule snoc.IH) (simp add: map_of_append)
  moreover have "states bs' = set_state (states ?bs) w"
    using snoc.prems by (auto simp: set_state_def states_def writes_def fun_eq_iff map_add_def)
  ultimately show ?case by (simp only: foldl_append foldl.simps)
qed (simp add: states_def writes_def)

definition attached :: "nat \<Rightarrow> 'm registry \<Rightarrow> bool" where
  "attached s rg \<longleftrightarrow> (case rg_hub rg of None \<Rightarrow> False | Some h \<Rightarrow> s \<in> set (subs h))"

definition buffer_of :: "nat \<Rightarrow> 'm registry \<Rightarrow> 'm event list" where
  "buffer_of s rg = (case rg_hub rg of None \<Rightarrow> [] | Some h \<Rightarrow> sb_buf (chans h s))"

definition hub_ok :: "'m registry \<Rightarrow> bool" where
  "hub_ok rg \<longleftrightarrow> (case rg_hub rg of None \<Rightarrow> True | Some h \<Rightarrow> hub_wf h)"

lemma persist_hub [simp]: "rg_hub (persist ok b rg) = rg_hub rg"
  by (auto simp: persist_def split: option.splits sum.splits)

lemma publish_view:
  assumes "hub_ok rg" "attached s (publish ok now b rg)"
  shows "attached s rg \<and>
    view_events (buffer_of s (publish ok now b rg)) m = set_state (view_events (buffer_of s rg) m) b"
proof (cases "rg_hub rg")
  case None
  with assms(2) show ?thesis by (simp add: attached_def publish_def broadcast_build_def)
next
  case (Some h)
  let ?ev = "build_event (Suc (rg_seq (persist ok b rg))) b now"
  from Some have p: "rg_hub (publish ok now b rg) = Some (broadcast ?ev h)"
    by (simp add: publish_def broadcast_build_def)
  from assms Some have h: "hub_wf h" "s \<in> set (subs (broadcast ?ev h))" by (simp_all add: hub_ok_def attached_def p)
  from broadcast_attached [OF h] show ?thesis by (simp add: attached_def buffer_of_def p Some)
qed

lemma publish_hub_ok: "hub_ok rg \<Longrightarrow> hub_ok (publish ok now b rg)"
  using hub_wf_broadcast by (auto simp: hub_ok_def publish_def broadcast_build_def split: option.splits)

lemma publish_all_view:
  "hub_ok rg \<Longrightarrow> attached s (publish_all ok now ws rg) \<Longrightarrow>
     attached s rg \<and> hub_ok (publish_all ok now ws rg) \<and>
     view_events (buffer_of s (publish_all ok now ws rg)) m =
       foldl set_state (view_events (buffer_of s rg) m) ws"
proof (induction ws arbitrary: rg)
  case (Cons w ws)
  from Cons.prems(2) have a: "attached s (publish_all ok now ws (publish ok now w rg))" by (simp add: publish_all_def)
  from Cons.IH [OF publish_hub_ok [OF Cons.prems(1)] a] publish_view [OF Cons.prems(1), of s ok now w]
  show ?case by (simp add: publish_all_def)
qed (simp add: publish_all_def)

lemma publish_all_hub_ok: "hub_ok rg \<Longrightarrow> hub_ok (publish_all ok now ws rg)"
  by (induction ws arbitrary: rg) (auto simp: publish_all_def publish_hub_ok)

text \<open>A client keeps the last state it heard of each build; it reads when it pleases.\<close>

datatype client_act = RegistryOp reg_op | ClientRead

fun client_step :: "nat \<Rightarrow> client_act \<Rightarrow> (string \<Rightarrow> string option) \<times> 'm registry \<Rightarrow> (string \<Rightarrow> string option) \<times> 'm registry" where
  "client_step s (RegistryOp a) (m, rg) = (m, reg_apply True a rg)"
| "client_step s ClientRead (m, rg) =
     (case rg_hub rg of
        None \<Rightarrow> (m, rg)
      | Some h \<Rightarrow> (case receive s h of None \<Rightarrow> (m, rg) | Some (ev, h') \<Rightarrow> (view_event ev m, rg\<lparr>rg_hub := Some h'\<rparr>)))"

definition client_run :: "nat \<Rightarrow> client_act list \<Rightarrow> (string \<Rightarrow> string option) \<times> 'm registry \<Rightarrow> (string \<Rightarrow> string option) \<times> 'm registry" where
  "client_run s acts c = foldl (\<lambda>c a. client_step s a c) c acts"

definition in_sync :: "nat \<Rightarrow> (string \<Rightarrow> string option) \<times> 'm registry \<Rightarrow> bool" where
  "in_sync s c \<longleftrightarrow> keyed (rg_builds (snd c)) \<and> hub_ok (snd c) \<and>
     (attached s (snd c) \<longrightarrow> view_events (buffer_of s (snd c)) (fst c) = states (rg_builds (snd c)))"

lemma attached_builds [simp]:
  "attached s (rg\<lparr>rg_builds := bs\<rparr>) = attached s rg" "buffer_of s (rg\<lparr>rg_builds := bs\<rparr>) = buffer_of s rg"
  "hub_ok (rg\<lparr>rg_builds := bs\<rparr>) = hub_ok rg"
  by (simp_all add: attached_def buffer_of_def hub_ok_def)

lemma in_sync_op:
  assumes "in_sync s (m, rg)" shows "in_sync s (m, reg_apply True a rg)"
proof -
  from assms have k: "keyed (rg_builds rg)" and h: "hub_ok rg" by (simp_all add: in_sync_def)
  obtain ws bs where c: "op_core a (rg_builds rg) = (ws, bs)" by fastforce
  let ?rg = "publish_all True (op_time a) ws (rg\<lparr>rg_builds := bs\<rparr>)"
  have e: "reg_apply True a rg = ?rg" by (simp add: reg_apply_core c)
  from core_writes [OF k c] have w: "map_of bs = map_of (rg_builds rg) ++ map_of (rev (writes ws))" and kb: "keyed bs"
    by simp_all
  show ?thesis
    unfolding in_sync_def e
    using assms states_writes [OF w] kb h publish_all_view [of "rg\<lparr>rg_builds := bs\<rparr>" s True "op_time a" ws m]
      publish_all_hub_ok [of "rg\<lparr>rg_builds := bs\<rparr>" True "op_time a" ws]
    by (auto simp: in_sync_def)
qed

lemma in_sync_read: assumes "in_sync s (m, rg)" shows "in_sync s (client_step s ClientRead (m, rg))"
proof (cases "rg_hub rg")
  case (Some h)
  show ?thesis
  proof (cases "receive s h")
    case (Some r)
    then obtain ev h' where r: "receive s h = Some (ev, h')" by (cases r) auto
    then have "sb_buf (chans h s) = ev # sb_buf (chans h' s)" "subs h' = subs h"
      by (auto simp: receive_def split: list.splits)
    with assms \<open>rg_hub rg = Some h\<close> r hub_wf_receive [OF _ r] show ?thesis
      by (auto simp: in_sync_def attached_def buffer_of_def hub_ok_def)
  qed (use assms Some in simp)
qed (use assms in simp)

lemma in_sync_run: "in_sync s c \<Longrightarrow> in_sync s (client_run s acts c)"
proof (induction acts arbitrary: c)
  case (Cons a acts)
  obtain m rg where c: "c = (m, rg)" by (cases c)
  have "in_sync s (client_step s a c)"
    using Cons.prems in_sync_op [of s m rg] in_sync_read [of s m rg] by (cases a) (auto simp: c)
  with Cons.IH show ?case by (simp add: client_run_def)
qed (simp add: client_run_def)

definition with_subscriber :: "store option \<Rightarrow> 'm registry" where
  "with_subscriber st = new_registry st (Some (snd (subscribe new_hub)))"

text \<open>
  A subscriber that is not dropped misses nothing.  Whatever operations run and whenever the client
  reads, as long as the hub has not dropped it, the states the client has heard of together with those
  still in its buffer are the states of all builds in the registry.
\<close>

theorem subscriber_in_sync:
  fixes rg :: "'m registry"
  assumes "client_run 0 acts (Map.empty, with_subscriber st) = (m, rg)" and "attached 0 rg"
  shows "view_events (buffer_of 0 rg) m = (\<lambda>i. map_option b_state (rg_get i rg))"
proof -
  have "in_sync 0 (Map.empty, with_subscriber st :: 'm registry)"
    using hub_wf_subscribe [OF hub_wf_new]
    by (simp add: in_sync_def with_subscriber_def hub_ok_def new_registry_def keyed_def buffer_of_def states_def
        fun_eq_iff) (simp add: hub_defs)
  from in_sync_run [OF this, of acts] have "in_sync 0 (m, rg)" unfolding assms(1) .
  with assms(2) show ?thesis by (simp add: in_sync_def states_def rg_get_def)
qed

theorem subscriber_in_sync_witness:
  "let (m, rg) = client_run 0 [RegistryOp (RegisterOp sample_build 7), ClientRead, RegistryOp (DeregisterOp ''a'' 1 9)]
       (Map.empty, with_subscriber None :: unit registry)
   in view_events (buffer_of 0 rg) m = (\<lambda>i. map_option b_state (rg_get i rg))"
proof -
  let ?acts = "[RegistryOp (RegisterOp sample_build 7), ClientRead, RegistryOp (DeregisterOp ''a'' 1 9)]"
  obtain m and rg :: "unit registry" where r: "client_run 0 ?acts (Map.empty, with_subscriber None) = (m, rg)" by fastforce
  have "attached 0 (snd (client_run 0 ?acts (Map.empty, with_subscriber None :: unit registry)))"
    by (simp add: client_run_def with_subscriber_def rg_register_def register_core_def sample_build_def new_registry_def
        publish_def persist_def broadcast_build_def Let_def empty_build_def rg_deregister_def deregister_core_def
        attached_def broadcast_def hub_defs sub_buffer_size_def)
  with r have "attached 0 rg" by simp
  from subscriber_in_sync [OF r this] r show ?thesis by (simp add: Let_def)
qed

section \<open>Queries\<close>

lemma counts_loop:
  "foldl count_build c bs =
   \<lparr>c_building = c_building c + length (filter (\<lambda>b. b_state b \<noteq> state_queued \<and> \<not> is_terminal (b_state b)) bs),
    c_queued = c_queued c + length (filter (\<lambda>b. b_state b = state_queued) bs),
    c_total = c_total c + length bs\<rparr>"
  by (induction bs arbitrary: c) (auto simp: count_build_def Let_def)

text \<open>
  The health counts partition the builds: total is building plus queued plus those in a terminal
  state.
\<close>

theorem counts_partition:
  "c_total (rg_counts rg) = c_building (rg_counts rg) + c_queued (rg_counts rg) +
     length (filter (\<lambda>b. is_terminal (b_state b)) (map snd (rg_builds rg)))"
proof -
  have "length bs = length (filter (\<lambda>b. b_state b \<noteq> state_queued \<and> \<not> is_terminal (b_state b)) bs) +
      length (filter (\<lambda>b. b_state b = state_queued) bs) +
      length (filter (\<lambda>b. is_terminal (b_state b)) bs)" for bs :: "build list"
    by (induction bs) auto
  from this [of "map snd (rg_builds rg)"] show ?thesis by (simp add: rg_counts_def counts_loop)
qed

text \<open>
  The reaper marks gone exactly the discovered, non-terminal builds whose known pid was not seen,
  and stamps their end; every other build, each registered one among them, is left as it is.
\<close>

theorem reap_exact:
  fixes rg :: "'m registry"
  shows "rg_get i (rg_reap ok seen now rg) =
    map_option (\<lambda>b. if b_source b = source_discovered \<and> \<not> is_terminal (b_state b) \<and> b_pid b \<noteq> 0 \<and> b_pid b \<notin> seen
                  then b\<lparr>b_state := state_gone, b_end := now\<rparr> else b) (rg_get i rg)"
  using apply_builds [of ok "ReapOp seen now" rg] reap_lookup [of seen now "rg_builds rg" i]
  by (cases "map_of (rg_builds rg) i") (simp_all add: rg_get_def reapable_def mark_gone_def)

text \<open>
  Discovery never takes a registered record over.  An upsert that meets a registered build keeps its
  targets and its source, and an upsert that merely reports "running" changes no state.
\<close>

theorem upsert_protects_registered:
  assumes "keyed (rg_builds rg)" and "upsert_match b (rg_builds rg) = Some s" and "b_source s = source_registered"
  shows "\<exists>s' rg'. rg_upsert ok b now rg = (Inr s', rg') \<and> rg_get (b_id s) rg' = Some s' \<and>
    b_targets s' = b_targets s \<and> b_source s' = source_registered \<and>
    (b_state s' = b_state s \<or> b_state b \<notin> {[], state_running})"
proof -
  let ?s = "(upsert_lifecycle b now (upsert_merge b s))\<lparr>b_seen := now\<rparr>"
  have "\<not> (b_id b = [] \<and> b_pid b = 0)" using assms(2) by (auto simp: upsert_match_def)
  then have c: "upsert_core b now (rg_builds rg) = Inr (?s, AList.update (b_id s) ?s (rg_builds rg))"
    using assms(2) by (simp add: upsert_core_def Let_def)
  then have "rg_upsert ok b now rg = (Inr ?s, publish ok now ?s (rg\<lparr>rg_builds := AList.update (b_id s) ?s (rg_builds rg)\<rparr>))"
    by (simp add: rg_upsert_def)
  moreover have "b_targets ?s = b_targets s" "b_source ?s = source_registered"
    "b_state ?s = b_state s \<or> b_state b \<notin> {[], state_running}"
    using assms(3) by (auto simp: upsert_lifecycle_def upsert_merge_def)
  ultimately show ?thesis by (auto simp: rg_get_def update_conv')
qed

definition one_registered :: "unit registry" where
  "one_registered = \<lparr>rg_builds = [(''a'', sample_build\<lparr>b_source := source_registered, b_targets := [''//x'']\<rparr>)],
     rg_store = None, rg_hub = None, rg_seq = 0\<rparr>"

theorem upsert_protects_registered_witness:
  "\<exists>s' rg'. rg_upsert True (empty_build\<lparr>b_pid := 5, b_targets := [''//y'']\<rparr>) 9 one_registered = (Inr s', rg') \<and>
     b_targets s' = [''//x'']"
  using upsert_protects_registered [of one_registered "empty_build\<lparr>b_pid := 5, b_targets := [''//y'']\<rparr>"
      "sample_build\<lparr>b_source := source_registered, b_targets := [''//x'']\<rparr>" True 9]
  by (auto simp: one_registered_def keyed_def sample_build_def empty_build_def upsert_match_def by_pid_def)

end
