(* ===== verification/Admission_Http.thy ===== *)
theory Admission_Http
  imports Registry_Sync Engine_Delivery
begin

text \<open>
  The seams of the admission engine: the adapter that reads the registry and its events
  (\<open>internal/admission/wiring.go\<close>) and the HTTP handlers (\<open>internal/admission/http.go\<close>).

  The operating system is a parameter: \<open>signal0\<close> is the outcome of \<open>os.FindProcess\<close> followed by
  signal 0 on a pid.
\<close>

section \<open>The registry adapter\<close>

definition active_of :: "build \<Rightarrow> active_build" where
  "active_of b = \<lparr>act_id = b_id b, act_targets = b_targets b, act_pid = b_pid b, act_started = b_start b\<rparr>"

definition snapshot_active :: "'m registry \<Rightarrow> registry_snapshot" where
  "snapshot_active rg =
     \<lparr>snap_builds = map active_of (filter (\<lambda>b. \<not> is_terminal (b_state b)) (rg_snapshot rg)), snap_recent = 0\<rparr>"

datatype signal_result = SigOk | SigEperm | SigGone | SigNoProcess

definition adapter_alive :: "(int \<Rightarrow> signal_result) \<Rightarrow> 'm registry \<Rightarrow> int \<Rightarrow> bool" where
  "adapter_alive signal0 rg pid =
     (if pid \<le> 0 then False
      else if (case find_by_pid pid rg of Some b \<Rightarrow> is_terminal (b_state b) | None \<Rightarrow> False) then False
      else case signal0 pid of
             SigOk \<Rightarrow> True | SigEperm \<Rightarrow> True | SigGone \<Rightarrow> False | SigNoProcess \<Rightarrow> False)"

text \<open>The filter of the forwarding goroutine: the id an event makes it emit.\<close>

definition terminal_id :: "'m event \<Rightarrow> string option" where
  "terminal_id ev =
     (if ev_type ev = EventBuild
      then (case ev_build ev of Some a \<Rightarrow> if is_terminal (a_state a) then Some (a_id a) else None | None \<Rightarrow> None)
      else None)"

text \<open>
  The two goroutines behind \<open>runTerminalRelease\<close>: their subscription, the id that the forwarding one has
  taken and not yet passed on, and the channel between them.  The forwarding one waits while the channel is
  full; it ends when its subscription is closed and read empty.
\<close>

record term_loop =
  tl_sub :: nat
  tl_hand :: "string option"
  tl_ids :: "string list"

definition terminal_buffer :: nat where "terminal_buffer = 64"

definition terminal_subscribe :: "'m registry \<Rightarrow> term_loop \<times> 'm registry" where
  "terminal_subscribe rg =
     (case rg_hub rg of
        None \<Rightarrow> (\<lparr>tl_sub = 0, tl_hand = None, tl_ids = []\<rparr>, rg)
      | Some h \<Rightarrow> (\<lparr>tl_sub = fst (subscribe h), tl_hand = None, tl_ids = []\<rparr>, rg\<lparr>rg_hub := Some (snd (subscribe h))\<rparr>))"

definition terminal_forward :: "term_loop \<Rightarrow> 'm registry \<Rightarrow> term_loop \<times> 'm registry" where
  "terminal_forward l rg =
     (case tl_hand l of
        Some i \<Rightarrow> (if length (tl_ids l) < terminal_buffer then l\<lparr>tl_hand := None, tl_ids := tl_ids l @ [i]\<rparr> else l, rg)
      | None \<Rightarrow>
          (case rg_hub rg of
             None \<Rightarrow> (l, rg)
           | Some h \<Rightarrow>
               (case receive (tl_sub l) h of
                  None \<Rightarrow> (l, rg)
                | Some (ev, h') \<Rightarrow> (l\<lparr>tl_hand := terminal_id ev\<rparr>, rg\<lparr>rg_hub := Some h'\<rparr>))))"

definition terminal_release :: "registry_snapshot \<Rightarrow> gotime \<Rightarrow> term_loop \<Rightarrow> engine \<Rightarrow> term_loop \<times> engine" where
  "terminal_release sn now l e =
     (case tl_ids l of
        [] \<Rightarrow> (l, e)
      | i # ids \<Rightarrow> (l\<lparr>tl_ids := ids\<rparr>, if i \<noteq> [] then release i sn now e else e))"

text \<open>The deferred call that ends the subscription with the loop.\<close>

definition terminal_cancel :: "term_loop \<Rightarrow> 'm registry \<Rightarrow> 'm registry" where
  "terminal_cancel l rg =
     (case rg_hub rg of None \<Rightarrow> rg | Some h \<Rightarrow> rg\<lparr>rg_hub := Some (drop_sub (tl_sub l) h)\<rparr>)"

lemma cancel_detaches: "hub_ok rg \<Longrightarrow> hub_ok (terminal_cancel l rg) \<and> \<not> attached (tl_sub l) (terminal_cancel l rg)"
  by (cases "rg_hub rg")
    (auto simp: terminal_cancel_def hub_ok_def attached_def hub_wf_drop, simp add: drop_sub_def hub_wf_def split: if_splits)

section \<open>Handlers\<close>

record http_response =
  hr_status :: nat
  hr_body :: string
  hr_headers :: "(string \<times> string) list"

definition text_plain :: "string \<times> string" where
  "text_plain = (''Content-Type'', ''text/plain; charset=utf-8'')"

definition verdict_response :: "verdict \<Rightarrow> http_response" where
  "verdict_response v =
     (case v of
        Allow \<Rightarrow> \<lparr>hr_status = 200, hr_body = ''ALLOW'', hr_headers = [text_plain]\<rparr>
      | Queue \<Rightarrow> \<lparr>hr_status = 202, hr_body = ''QUEUE'', hr_headers = [text_plain, (''Retry-After'', ''1'')]\<rparr>
      | Deny \<Rightarrow> \<lparr>hr_status = 403, hr_body = ''DENY'', hr_headers = [text_plain]\<rparr>)"

text \<open>\<open>None\<close> is a body that does not decode.\<close>

definition handle_admit :: "request option \<Rightarrow> registry_snapshot \<Rightarrow> gotime \<Rightarrow> engine \<Rightarrow> http_response \<times> engine" where
  "handle_admit body sn now e =
     (if (case body of None \<Rightarrow> True | Some req \<Rightarrow> req_id req = [])
      then (\<lparr>hr_status = 400, hr_body = ''BAD'', hr_headers = [text_plain]\<rparr>, e)
      else let (v, e') = admit_call (the body) sn now e in (verdict_response v, e'))"

text \<open>The decoder's error is ignored: \<open>i\<close> is what it left in the field.\<close>

definition handle_release :: "string \<Rightarrow> registry_snapshot \<Rightarrow> gotime \<Rightarrow> engine \<Rightarrow> http_response \<times> engine" where
  "handle_release i sn now e =
     (\<lparr>hr_status = 204, hr_body = [], hr_headers = []\<rparr>, if i \<noteq> [] then release i sn now e else e)"

definition handle_pause :: "registry_snapshot \<Rightarrow> gotime \<Rightarrow> engine \<Rightarrow> http_response \<times> engine" where
  "handle_pause sn now e = (\<lparr>hr_status = 200, hr_body = ''PAUSED'', hr_headers = []\<rparr>, set_paused True sn now e)"

definition handle_resume :: "registry_snapshot \<Rightarrow> gotime \<Rightarrow> engine \<Rightarrow> http_response \<times> engine" where
  "handle_resume sn now e = (\<lparr>hr_status = 200, hr_body = ''RESUMED'', hr_headers = []\<rparr>, resume sn now e)"

definition handle_drain :: "registry_snapshot \<Rightarrow> gotime \<Rightarrow> engine \<Rightarrow> http_response \<times> engine" where
  "handle_drain sn now e = (\<lparr>hr_status = 200, hr_body = ''DRAINING'', hr_headers = []\<rparr>, set_draining True sn now e)"

text \<open>The body is the JSON of the status.\<close>

record status_response =
  sr_status :: nat
  sr_headers :: "(string \<times> string) list"
  sr_body :: engine_status

definition handle_status :: "engine \<Rightarrow> status_response" where
  "handle_status e = \<lparr>sr_status = 200, sr_headers = [(''Content-Type'', ''application/json'')], sr_body = status e\<rparr>"

section \<open>Properties\<close>

lemma sched_loop_unknown: "lookup_id e i = None \<Longrightarrow> lookup_id (sched_loop q sn now e) i = None"
  by (induction q sn e rule: sched_loop_rule [where now = now]) (auto simp: arm_retry_timer_def delete_conv')

lemma release_unknown: "lookup_id (release i sn now e) i = None"
proof -
  have "lookup_id (release_gates i (release_locked i e)) i = None"
    by (auto simp: release_gates_def release_locked_def upd_waiter_def delete_conv' split: option.splits)
  then show ?thesis by (simp add: release_def schedule_def sched_loop_unknown)
qed

lemma unknown_not_held: "eng_inv e \<Longrightarrow> lookup_id e i = None \<Longrightarrow> i \<notin> held (sem (egates e))"
  by (simp add: eng_inv_def slots_ok_def holders_def)

text \<open>
  What the two goroutines still have to do for an id, and how many steps that is.  Both work off what they
  find: an id that is pending stays so until it is released.
\<close>

definition term_pending :: "string \<Rightarrow> term_loop \<Rightarrow> 'm registry \<Rightarrow> bool" where
  "term_pending i l rg \<longleftrightarrow> i \<in> set (tl_ids l) \<or> tl_hand l = Some i \<or> Some i \<in> terminal_id ` set (buffer_of (tl_sub l) rg)"

lemma forward_cases:
  obtains (push) i where "tl_hand l = Some i" "length (tl_ids l) < terminal_buffer"
      "terminal_forward l rg = (l\<lparr>tl_hand := None, tl_ids := tl_ids l @ [i]\<rparr>, rg)"
    | (full) i where "tl_hand l = Some i" "terminal_buffer \<le> length (tl_ids l)" "terminal_forward l rg = (l, rg)"
    | (idle) "tl_hand l = None" "buffer_of (tl_sub l) rg = []" "terminal_forward l rg = (l, rg)"
    | (take) h h' ev evs where "tl_hand l = None" "buffer_of (tl_sub l) rg = ev # evs" "rg_hub rg = Some h"
      "receive (tl_sub l) h = Some (ev, h')" "buffer_of (tl_sub l) (rg\<lparr>rg_hub := Some h'\<rparr>) = evs"
      "terminal_forward l rg = (l\<lparr>tl_hand := terminal_id ev\<rparr>, rg\<lparr>rg_hub := Some h'\<rparr>)"
proof (cases "tl_hand l")
  case (Some i)
  with push [of i] full [of i] show thesis by (cases "length (tl_ids l) < terminal_buffer") (auto simp: terminal_forward_def)
next
  case hand: None
  show thesis
  proof (cases "rg_hub rg")
    case None
    with hand idle show thesis by (simp add: terminal_forward_def buffer_of_def)
  next
    case (Some h)
    show thesis
    proof (cases "sb_buf (chans h (tl_sub l))")
      case Nil
      with hand Some idle show thesis by (simp add: terminal_forward_def buffer_of_def receive_def)
    next
      case (Cons ev evs)
      with hand Some take [of ev evs h] show thesis by (simp add: terminal_forward_def buffer_of_def receive_def)
    qed
  qed
qed

lemma forward_pending: "terminal_forward l rg = (l', rg') \<Longrightarrow> term_pending i l' rg' \<longleftrightarrow> term_pending i l rg"
  by (cases rule: forward_cases [of l rg]) (auto simp: term_pending_def)

section \<open>The reaper\<close>

lemma release_keeps_admitted:
  assumes inv: "eng_inv e" and i: "lookup_id e i = Some p" "admitted_w e p" and j: "j \<noteq> i"
  shows "lookup_id (release j sn now e) i = Some p \<and> admitted_w (release j sn now e) p"
proof -
  let ?e = "release_gates j (release_locked j e)"
  from inv have c: "core_inv e" and ok: "waiters_ok (queue e) e" by (auto simp: eng_inv_def core_inv_def)
  have "lookup_id ?e i = Some p \<and> admitted_w ?e p"
  proof (cases "lookup_id e j")
    case (Some r)
    with waiters_okD(6) [OF ok] i(1) j have "r \<noteq> p" by auto
    with Some i j show ?thesis by (auto simp: release_gates_def release_locked_def upd_waiter_def delete_conv')
  qed (use i in \<open>simp add: release_gates_def release_locked_def\<close>)
  moreover have "core_inv ?e" using c by (intro core_release_gates core_release_locked)
  ultimately show ?thesis
    using schedule_settled [of ?e p i sn now] by (simp add: release_def)
qed

lemma release_keeps_unknown: "lookup_id e i = None \<Longrightarrow> lookup_id (release j sn now e) i = None"
proof -
  assume n: "lookup_id e i = None"
  have "lookup_id (release_gates j (release_locked j e)) i = None"
    using n by (auto simp: release_gates_def release_locked_def upd_waiter_def delete_conv' split: option.splits)
  then show ?thesis by (simp add: release_def schedule_def sched_loop_unknown)
qed

lemma releases:
  assumes "eng_inv e"
  shows "eng_inv (foldl (\<lambda>e i. release i sn now e) e is) \<and>
    (\<forall>i\<in>set is. lookup_id (foldl (\<lambda>e i. release i sn now e) e is) i = None) \<and>
    (\<forall>i p. i \<notin> set is \<longrightarrow> lookup_id e i = Some p \<longrightarrow> admitted_w e p \<longrightarrow>
       lookup_id (foldl (\<lambda>e i. release i sn now e) e is) i = Some p \<and>
       admitted_w (foldl (\<lambda>e i. release i sn now e) e is) p)"
  using assms
proof (induction "is" arbitrary: e)
  case (Cons j js)
  let ?e = "release j sn now e"
  have inv: "eng_inv ?e" using Cons.prems by (rule inv_release)
  have "lookup_id (foldl (\<lambda>e i. release i sn now e) e' is) i = None" if "lookup_id e' i = None" for e' "is" i
    using that by (induction "is" arbitrary: e') (auto simp: release_keeps_unknown)
  with Cons.IH [OF inv] release_unknown [of j sn now e] release_keeps_admitted [OF Cons.prems]
  show ?case by auto
qed simp

text \<open>
  The reaper frees every slot whose owner is dead and no other.  After a pass, an id that was
  admitted with a positive pid is still held exactly if its pid was alive.
\<close>

theorem reaper_frees_exactly_dead:
  assumes "served pol e" and "lookup_id e i = Some p" and "admitted_w e p" and "0 < req_pid (w_req (waiters e p))"
  shows "i \<in> held (sem (egates (reap_dead_pids alive sn now e))) \<longleftrightarrow> alive (req_pid (w_req (waiters e p)))"
proof -
  from served_inv [OF assms(1)] have inv: "eng_inv e" by simp
  then have d: "distinct (map fst (by_id e))" by (auto simp: eng_inv_def core_inv_def dest: waiters_okD(1))
  from assms(2) have "(i, p) \<in> set (by_id e)" by (rule map_of_SomeD)
  then have mem: "i \<in> set (dead_slots alive e) \<longleftrightarrow> \<not> alive (req_pid (w_req (waiters e p)))"
    using assms(3,4) d by (auto simp: dead_slots_def held_slots_def image_iff dest: eq_key_imp_eq_value)
  let ?e = "reap_dead_pids alive sn now e"
  from releases [OF inv, of sn now "dead_slots alive e"]
  have r: "eng_inv ?e" "i \<in> set (dead_slots alive e) \<Longrightarrow> lookup_id ?e i = None"
    "i \<notin> set (dead_slots alive e) \<Longrightarrow> lookup_id ?e i = Some p \<and> admitted_w ?e p"
    using assms(2,3) by (auto simp: reap_dead_pids_def)
  show ?thesis
  proof (cases "alive (req_pid (w_req (waiters e p)))")
    case True
    with mem r(1,3) show ?thesis by (auto simp: eng_inv_def slots_ok_def holders_def)
  next
    case False
    with mem r(2) unknown_not_held [OF r(1)] show ?thesis by auto
  qed
qed

theorem reaper_frees_exactly_dead_witness:
  "\<exists>e. serve [OpAttach (ask ''a'') no_builds 5] (new_engine one_slot) = Some e \<and>
     ''a'' \<notin> held (sem (egates (reap_dead_pids (\<lambda>pid. pid \<noteq> 7) no_builds 9 e)))"
proof -
  let ?r = "serve [OpAttach (ask ''a'') no_builds 5] (new_engine one_slot)"
  have "map_option (\<lambda>e. (lookup_id e ''a'', w_state (waiters e 0), req_pid (w_req (waiters e 0)))) ?r =
      Some (Some 0, WsAdmitted, 7)"
    by (simp add: run_simps attach_def)
  then obtain e where e: "?r = Some e" "lookup_id e ''a'' = Some 0" "admitted_w e 0" "req_pid (w_req (waiters e 0)) = 7"
    by auto
  from reaper_frees_exactly_dead [OF serve_served [OF e(1) served.new] e(2,3), of "\<lambda>pid. pid \<noteq> 7" no_builds 9] e(1,4)
  show ?thesis by auto
qed

text \<open>
  The liveness test asks the registry before it asks the system, so a process whose pid was used by
  a build that has since ended counts as dead although it runs, and the reaper frees the slot of a live
  build.
\<close>

theorem pid_reuse_counts_as_dead:
  assumes "find_by_pid pid rg = Some b" and "is_terminal (b_state b)"
  shows "adapter_alive (\<lambda>_. SigOk) rg pid = False"
  using assms by (simp add: adapter_alive_def)

theorem pid_reuse_counts_as_dead_witness: "adapter_alive (\<lambda>_. SigOk) one_finished 5 = False"
  by (rule pid_reuse_counts_as_dead [of 5 one_finished finished_build])
     (simp_all add: find_by_pid_def by_pid_def one_finished_def finished_build_def)

end
