(* ===== verification/Http_Api.thy ===== *)
theory Http_Api
  imports Kill Bep_Provider Admission_Http
begin

text \<open>
  The HTTP front (\<open>internal/httpapi\<close>): routing, the bearer-token middleware, the live handlers over the
  registry, and the seams through which the killer, the metrics provider and the admission engine are
  plugged in.

  A request carries its path as it came over the wire (percent-encoded) and, for each type a handler
  decodes the body into, what the JSON decoder makes of it.  \<open>rq_upgrade\<close> is the answer of the WebSocket
  library to an upgrade: the status it refuses the request with, \<open>None\<close> if it accepts it.  \<open>None\<close> as the result of a handler is one
  that has not returned (a kill whose script of observations ends).
\<close>

section \<open>Requests and replies\<close>

record register_request =
  rr_id :: string
  rr_worktree :: string
  rr_targets :: "string list"
  rr_pid :: int
  rr_source :: string

record deregister_request =
  dq_id :: string
  dq_exit :: int

record http_request =
  rq_method :: string
  rq_escaped :: string
  rq_auth :: string
  rq_origin :: string
  rq_query :: "string \<Rightarrow> string"
  rq_register :: "register_request option"
  rq_deregister :: "deregister_request option"
  rq_admit :: "request option"
  rq_release :: string
  rq_kill :: "bool \<times> bool"
  rq_upgrade :: "nat option"

record health =
  he_status :: string
  he_builds :: nat
  he_queued :: nat
  he_total :: nat
  he_version :: string
  he_uptime :: int

record error_response =
  er_error :: string
  er_message :: string
  er_epic :: string

datatype reply_body =
    HealthBody health
  | BuildsBody "api_build list"
  | BuildBody api_build
  | ErrorBody error_response
  | KillBody kill_reply
  | ProviderBody provider_body
  | TextBody string
  | StatusBody engine_status
  | RedirectBody string

record reply =
  re_status :: nat
  re_body :: reply_body

definition reply_error :: "nat \<Rightarrow> string \<Rightarrow> string \<Rightarrow> reply" where
  "reply_error st code msg = \<lparr>re_status = st, re_body = ErrorBody \<lparr>er_error = code, er_message = msg, er_epic = []\<rparr>\<rparr>"

section \<open>Paths\<close>

text \<open>
  \<open>url.Parse\<close> refuses a path with a broken escape, so a request that reaches the server has a decoded
  path.
\<close>

definition hex_val :: "char \<Rightarrow> nat option" where
  "hex_val c =
     (let n = of_char c :: nat in
      if 48 \<le> n \<and> n \<le> 57 then Some (n - 48)
      else if 97 \<le> n \<and> n \<le> 102 then Some (n - 87)
      else if 65 \<le> n \<and> n \<le> 70 then Some (n - 55) else None)"

fun pct_decode :: "string \<Rightarrow> string option" where
  "pct_decode [] = Some []"
| "pct_decode (c # cs) =
     (if c = CHR ''%''
      then (case cs of
              a # b # rest \<Rightarrow>
                (case (hex_val a, hex_val b, pct_decode rest) of
                   (Some x, Some y, Some r) \<Rightarrow> Some (char_of (16 * x + y) # r)
                 | _ \<Rightarrow> None)
            | _ \<Rightarrow> None)
      else map_option (Cons c) (pct_decode cs))"

definition http_clean_path :: "string \<Rightarrow> string" where
  "http_clean_path p =
     (if p = [] then ''/''
      else let q = (if hd p \<noteq> CHR ''/'' then CHR ''/'' # p else p); np = path_clean q
           in if last q = CHR ''/'' \<and> np \<noteq> ''/'' then np @ ''/'' else np)"

text \<open>The segments after the leading slash, each decoded; a trailing slash is a last empty segment.\<close>

definition path_segments :: "string \<Rightarrow> string list option" where
  "path_segments p = those (map pct_decode (split_slash (drop 1 p)))"

section \<open>Routes\<close>

datatype pat = Lit string | Wild

datatype route_kind =
    RtHealthz | RtListBuilds | RtGetBuild | RtRegister | RtDeregisterPath | RtDeregister | RtEvents | RtKillBuild
  | RtMetricsOfBuild | RtProfileOfBuild | RtMetricsList | RtProfileFile | RtDiskCache
  | RtAdmit | RtRelease | RtPause | RtResume | RtDrain | RtAdmissionStatus

definition routes :: "(string \<times> pat list \<times> route_kind) list" where
  "routes =
    [(''GET'', [Lit ''healthz''], RtHealthz),
     (''GET'', [Lit ''builds''], RtListBuilds),
     (''GET'', [Lit ''builds'', Wild], RtGetBuild),
     (''POST'', [Lit ''builds''], RtRegister),
     (''DELETE'', [Lit ''builds'', Wild], RtDeregisterPath),
     (''POST'', [Lit ''register''], RtRegister),
     (''POST'', [Lit ''deregister''], RtDeregister),
     (''GET'', [Lit ''events''], RtEvents),
     (''POST'', [Lit ''builds'', Wild, Lit ''kill''], RtKillBuild),
     (''GET'', [Lit ''builds'', Wild, Lit ''metrics''], RtMetricsOfBuild),
     (''GET'', [Lit ''builds'', Wild, Lit ''profile''], RtProfileOfBuild),
     (''GET'', [Lit ''metrics''], RtMetricsList),
     (''GET'', [Lit ''profile'', Wild, Wild], RtProfileFile),
     (''GET'', [Lit ''diskcache''], RtDiskCache),
     (''POST'', [Lit ''admission''], RtAdmit),
     (''POST'', [Lit ''admission'', Lit ''release''], RtRelease),
     (''POST'', [Lit ''admission'', Lit ''pause''], RtPause),
     (''POST'', [Lit ''admission'', Lit ''resume''], RtResume),
     (''POST'', [Lit ''admission'', Lit ''drain''], RtDrain),
     (''GET'', [Lit ''admission'', Lit ''status''], RtAdmissionStatus)]"

text \<open>A wildcard takes one segment that is not empty.\<close>

fun match_segs :: "pat list \<Rightarrow> string list \<Rightarrow> string list option" where
  "match_segs [] [] = Some []"
| "match_segs (Lit l # ps) (s # ss) = (if s = l then match_segs ps ss else None)"
| "match_segs (Wild # ps) (s # ss) = (if s \<noteq> [] then map_option (Cons s) (match_segs ps ss) else None)"
| "match_segs _ _ = None"

datatype handler = Redirect string | Found route_kind "string list" | MethodNotAllowed | NotFound

definition method_matches :: "string \<Rightarrow> string \<Rightarrow> bool" where
  "method_matches rm m \<longleftrightarrow> rm = m \<or> rm = ''GET'' \<and> m = ''HEAD''"

definition match_route :: "string \<Rightarrow> string list \<Rightarrow> (string \<times> pat list \<times> route_kind) \<Rightarrow> (route_kind \<times> string list) option" where
  "match_route m ss r =
     (case r of (rm, ps, k) \<Rightarrow> if method_matches rm m then map_option (Pair k) (match_segs ps ss) else None)"

text \<open>The mux redirects a path that is not clean, except for CONNECT, which no route takes.\<close>

definition find_handler :: "string \<Rightarrow> string \<Rightarrow> handler" where
  "find_handler m esc =
     (let path = (if m = ''CONNECT'' then esc else http_clean_path esc) in
      if path \<noteq> esc then Redirect path
      else case path_segments path of
             None \<Rightarrow> NotFound
           | Some ss \<Rightarrow>
               (case List.map_filter (match_route m ss) routes of
                  (k, as) # _ \<Rightarrow> Found k as
                | [] \<Rightarrow> if \<exists>(rm, ps, k)\<in>set routes. match_segs ps ss \<noteq> None then MethodNotAllowed else NotFound))"

section \<open>Authentication\<close>

definition auth_exempt :: "string \<Rightarrow> bool" where
  "auth_exempt path \<longleftrightarrow> path = ''/healthz'' \<or> has_prefix path ''/profile/''"

definition authorize :: "string \<Rightarrow> string \<Rightarrow> bool" where
  "authorize token header =
     (if \<not> has_prefix header ''Bearer '' then False
      else let got = trim_space (drop 7 header)
           in if got = [] \<or> token = [] then False else got = token)"

section \<open>The live handlers\<close>

definition to_domain :: "register_request \<Rightarrow> build" where
  "to_domain r =
     empty_build\<lparr>b_id := rr_id r, b_worktree := rr_worktree r, b_targets := rr_targets r, b_pid := rr_pid r,
       b_source := (if rr_source r = [] then source_registered else rr_source r)\<rparr>"

definition handle_healthz :: "string \<Rightarrow> gotime \<Rightarrow> gotime \<Rightarrow> 'm registry \<Rightarrow> reply" where
  "handle_healthz version boot now rg =
     \<lparr>re_status = 200, re_body = HealthBody \<lparr>he_status = ''ok'', he_builds = c_building (rg_counts rg),
        he_queued = c_queued (rg_counts rg), he_total = c_total (rg_counts rg), he_version = version,
        he_uptime = dur_milliseconds (time_sub now boot)\<rparr>\<rparr>"

definition handle_list_builds :: "gotime \<Rightarrow> 'm registry \<Rightarrow> reply" where
  "handle_list_builds now rg = \<lparr>re_status = 200, re_body = BuildsBody (snapshot_api now rg)\<rparr>"

definition handle_get_build :: "gotime \<Rightarrow> string \<Rightarrow> 'm registry \<Rightarrow> reply" where
  "handle_get_build now i rg =
     (case rg_get i rg of
        None \<Rightarrow> reply_error 404 ''not_found'' []
      | Some b \<Rightarrow> \<lparr>re_status = 200, re_body = BuildBody (to_api b now)\<rparr>)"

text \<open>
  The text of a registry error is its Go message.  Neither \<open>Register\<close> nor \<open>Deregister\<close> returns a store
  error, only the hydration at boot does, which no handler calls.
\<close>

fun registry_message :: "registry_error \<Rightarrow> string" where
  "registry_message MissingId = ''invocation_id is required''"
| "registry_message MissingWorktree = ''worktree is required''"
| "registry_message MissingIdOrPid = ''upsert needs invocation_id or pid''"
| "registry_message (StoreFailed _) = []"

definition handle_register :: "bool \<Rightarrow> gotime \<Rightarrow> register_request option \<Rightarrow> 'm registry \<Rightarrow> reply \<times> 'm registry" where
  "handle_register ok now req rg =
     (case req of
        None \<Rightarrow> (reply_error 400 ''bad_request'' ''invalid JSON body'', rg)
      | Some r \<Rightarrow>
          if rr_id r = [] \<or> rr_worktree r = []
          then (reply_error 400 ''bad_request'' ''invocation_id and worktree are required'', rg)
          else case rg_register ok (to_domain r) now rg of
                 (Inl e, rg') \<Rightarrow> (reply_error 400 ''bad_request'' (registry_message e), rg')
               | (Inr s, rg') \<Rightarrow> (\<lparr>re_status = 200, re_body = BuildBody (to_api s now)\<rparr>, rg'))"

text \<open>What both deregister routes make of the result of \<open>Deregister\<close>.\<close>

definition deregister_reply :: "gotime \<Rightarrow> registry_error + build option \<Rightarrow> reply" where
  "deregister_reply now r =
     (case r of
        Inl e \<Rightarrow> reply_error 400 ''bad_request'' (registry_message e)
      | Inr None \<Rightarrow> reply_error 404 ''not_found'' []
      | Inr (Some s) \<Rightarrow> \<lparr>re_status = 200, re_body = BuildBody (to_api s now)\<rparr>)"

definition handle_deregister :: "bool \<Rightarrow> gotime \<Rightarrow> deregister_request option \<Rightarrow> 'm registry \<Rightarrow> reply \<times> 'm registry" where
  "handle_deregister ok now req rg =
     (case req of
        None \<Rightarrow> (reply_error 400 ''bad_request'' ''invalid JSON body'', rg)
      | Some r \<Rightarrow>
          if dq_id r = [] then (reply_error 400 ''bad_request'' ''invocation_id is required'', rg)
          else let (s, rg') = rg_deregister ok (dq_id r) (dq_exit r) now rg in (deregister_reply now s, rg'))"

text \<open>\<open>strconv.Atoi\<close>.\<close>

definition go_atoi :: "string \<Rightarrow> int option" where
  "go_atoi s =
     (let (neg, ds) = (case s of [] \<Rightarrow> (False, []) | c # cs \<Rightarrow> if c = CHR ''-'' then (True, cs) else if c = CHR ''+'' then (False, cs) else (False, s))
      in if ds = [] \<or> \<not> list_all is_digit ds then None
         else let n = (if neg then - int (dec_val ds) else int (dec_val ds)) in if in64 n then Some n else None)"

definition handle_deregister_path :: "bool \<Rightarrow> gotime \<Rightarrow> string \<Rightarrow> string \<Rightarrow> 'm registry \<Rightarrow> reply \<times> 'm registry" where
  "handle_deregister_path ok now i exit_code rg =
     (let ex = (if exit_code \<noteq> [] then (case go_atoi exit_code of Some n \<Rightarrow> n | None \<Rightarrow> 0) else 0);
          (s, rg') = rg_deregister ok i ex now rg
      in (deregister_reply now s, rg'))"

section \<open>Seams\<close>

text \<open>A seam handler takes the time, the request, the wildcards of its route and the state.\<close>

type_synonym 's seam = "gotime \<Rightarrow> http_request \<Rightarrow> string list \<Rightarrow> 's \<Rightarrow> (reply \<times> 's) option"

definition default501 :: "string \<Rightarrow> 's seam" where
  "default501 epic now rq as s =
     Some (\<lparr>re_status = 501, re_body = ErrorBody \<lparr>er_error = ''not_implemented'', er_message = ''owned by '' @ epic, er_epic = epic\<rparr>\<rparr>, s)"

record 's seams =
  sm_killer :: "'s seam"
  sm_metrics :: "route_kind \<Rightarrow> 's seam"
  sm_admitter :: "route_kind \<Rightarrow> 's seam"

definition default_seams :: "'s seams" where
  "default_seams = \<lparr>sm_killer = default501 ''E3'', sm_metrics = (\<lambda>_. default501 ''E4''), sm_admitter = (\<lambda>_. default501 ''E5'')\<rparr>"

section \<open>The server\<close>

record broker =
  bk_reg :: "metrics_json registry"
  bk_engine :: engine

record server =
  sv_token :: string
  sv_version :: string
  sv_started :: gotime
  sv_seams :: "broker seams"

definition on_reg :: "reply \<times> metrics_json registry \<Rightarrow> broker \<Rightarrow> (reply \<times> broker) option" where
  "on_reg r s = Some (fst r, s\<lparr>bk_reg := snd r\<rparr>)"

definition is_metrics_route :: "route_kind \<Rightarrow> bool" where
  "is_metrics_route k \<longleftrightarrow> k \<in> {RtMetricsOfBuild, RtProfileOfBuild, RtMetricsList, RtProfileFile, RtDiskCache}"

text \<open>The upgrade of \<open>GET /events\<close>; the frames after it are in the theory of the event stream.\<close>

definition handle_events :: "http_request \<Rightarrow> reply" where
  "handle_events rq = \<lparr>re_status = (case rq_upgrade rq of None \<Rightarrow> 101 | Some st \<Rightarrow> st), re_body = TextBody []\<rparr>"

definition handle_route :: "server \<Rightarrow> bool \<Rightarrow> gotime \<Rightarrow> http_request \<Rightarrow> route_kind \<Rightarrow> string list \<Rightarrow> broker \<Rightarrow> (reply \<times> broker) option" where
  "handle_route sv ok now rq k as s =
     (case k of
        RtHealthz \<Rightarrow> Some (handle_healthz (sv_version sv) (sv_started sv) now (bk_reg s), s)
      | RtListBuilds \<Rightarrow> Some (handle_list_builds now (bk_reg s), s)
      | RtGetBuild \<Rightarrow> Some (handle_get_build now (hd as) (bk_reg s), s)
      | RtRegister \<Rightarrow> on_reg (handle_register ok now (rq_register rq) (bk_reg s)) s
      | RtDeregisterPath \<Rightarrow> on_reg (handle_deregister_path ok now (hd as) (rq_query rq ''exit_code'') (bk_reg s)) s
      | RtDeregister \<Rightarrow> on_reg (handle_deregister ok now (rq_deregister rq) (bk_reg s)) s
      | RtEvents \<Rightarrow> Some (handle_events rq, s)
      | RtKillBuild \<Rightarrow> sm_killer (sv_seams sv) now rq as s
      | _ \<Rightarrow> if is_metrics_route k then sm_metrics (sv_seams sv) k now rq as s else sm_admitter (sv_seams sv) k now rq as s)"

definition serve_mux :: "server \<Rightarrow> bool \<Rightarrow> gotime \<Rightarrow> http_request \<Rightarrow> broker \<Rightarrow> (reply \<times> broker) option" where
  "serve_mux sv ok now rq s =
     (case find_handler (rq_method rq) (rq_escaped rq) of
        Redirect p \<Rightarrow> Some (\<lparr>re_status = 301, re_body = RedirectBody p\<rparr>, s)
      | Found k as \<Rightarrow> handle_route sv ok now rq k as s
      | MethodNotAllowed \<Rightarrow> Some (\<lparr>re_status = 405, re_body = TextBody ''Method Not Allowed''\<rparr>, s)
      | NotFound \<Rightarrow> Some (\<lparr>re_status = 404, re_body = TextBody ''404 page not found''\<rparr>, s))"

definition serve_http :: "server \<Rightarrow> bool \<Rightarrow> gotime \<Rightarrow> http_request \<Rightarrow> broker \<Rightarrow> (reply \<times> broker) option" where
  "serve_http sv ok now rq s =
     (case pct_decode (rq_escaped rq) of
        None \<Rightarrow> Some (\<lparr>re_status = 400, re_body = TextBody ''400 Bad Request''\<rparr>, s)
      | Some path \<Rightarrow>
          if auth_exempt path then serve_mux sv ok now rq s
          else if \<not> authorize (sv_token sv) (rq_auth rq) then Some (reply_error 401 ''unauthorized'' [], s)
          else serve_mux sv ok now rq s)"

text \<open>The recovering middleware: a panic becomes a 500.\<close>

datatype 'a outcome_of = Returned 'a | Panicked

definition recoverer :: "(reply \<times> 's) outcome_of \<Rightarrow> 's \<Rightarrow> reply \<times> 's" where
  "recoverer r s = (case r of Returned x \<Rightarrow> x | Panicked \<Rightarrow> (reply_error 500 ''internal'' [], s))"

text \<open>The status the log line reports: the first one written, 200 if none was.\<close>

record status_writer =
  sw_status :: nat
  sw_wrote :: bool

definition write_header :: "nat \<Rightarrow> status_writer \<Rightarrow> status_writer" where
  "write_header code w = (if \<not> sw_wrote w then \<lparr>sw_status = code, sw_wrote = True\<rparr> else w)"

end
