(* ===== verification/Http_Props.thy ===== *)
theory Http_Props
  imports Http_Api
begin

text \<open>
  The broker's own seams plugged into the server, the stream of \<open>GET /events\<close>, and what holds of a request
  on its way through middleware, router and handlers.
\<close>

section \<open>The broker's seams\<close>

text \<open>
  What the handlers of a request see of the outside: the script of observations of a kill, the time it
  took, the outcome of the scan before it, the parameters of the metrics provider and the fresh report
  of the disk cache.
\<close>

record outside =
  os_kill_cfg :: kill_config
  os_freshen :: "(metrics_json registry \<Rightarrow> metrics_json registry) option"
  os_kill_env :: kill_env
  os_kill_took :: duration
  os_provider :: provider
  os_store_ok :: bool
  os_cache_dir :: string
  os_fresh_view :: "disk_view option"

definition kill_seam :: "outside \<Rightarrow> broker seam" where
  "kill_seam w now rq as s =
     (case handle_kill (os_kill_cfg w) (os_freshen w) (hd as) (rq_kill rq) (os_kill_env w) (os_kill_took w) (bk_reg s) of
        None \<Rightarrow> None
      | Some (KillError st code msg, sent, rg) \<Rightarrow> Some (reply_error st code msg, s\<lparr>bk_reg := rg\<rparr>)
      | Some (KillReply st k, sent, rg) \<Rightarrow>
          Some (\<lparr>re_status = st, re_body = KillBody (KillReply st k)\<rparr>, s\<lparr>bk_reg := rg\<rparr>))"

text \<open>The report made for a request is stored before it is served.\<close>

definition keep_report :: "outside \<Rightarrow> store \<Rightarrow> broker \<Rightarrow> broker" where
  "keep_report w st s =
     (case os_fresh_view w of
        None \<Rightarrow> s
      | Some v \<Rightarrow> s\<lparr>bk_reg := (bk_reg s)\<lparr>rg_store := Some (persist_report (os_store_ok w) v st)\<rparr>\<rparr>)"

text \<open>The store the provider reads is the registry's.\<close>

definition metrics_seam :: "outside \<Rightarrow> store \<Rightarrow> route_kind \<Rightarrow> broker seam" where
  "metrics_seam w st k now rq as s =
     (let p = os_provider w; ok = os_store_ok w;
          r = (case k of
                 RtMetricsOfBuild \<Rightarrow> write_metrics p ok st (hd as)
               | RtProfileOfBuild \<Rightarrow> handle_build_profile p ok st (hd as)
               | RtMetricsList \<Rightarrow> handle_metrics_list p ok st (rq_query rq ''invocation_id'')
               | RtProfileFile \<Rightarrow> handle_profile_file p ok st (rq_origin rq) (as ! 0) (as ! 1)
               | _ \<Rightarrow> handle_disk_cache p (os_cache_dir w) (os_fresh_view w) ok st)
      in Some (\<lparr>re_status = pv_status r, re_body = ProviderBody (pv_body r)\<rparr>,
               if k = RtDiskCache then keep_report w st s else s))"

definition of_text :: "http_response \<times> engine \<Rightarrow> broker \<Rightarrow> (reply \<times> broker) option" where
  "of_text r s = Some (\<lparr>re_status = hr_status (fst r), re_body = TextBody (hr_body (fst r))\<rparr>, s\<lparr>bk_engine := snd r\<rparr>)"

definition admission_seam :: "route_kind \<Rightarrow> broker seam" where
  "admission_seam k now rq as s =
     (let sn = snapshot_active (bk_reg s); e = bk_engine s
      in case k of
           RtAdmit \<Rightarrow> of_text (handle_admit (rq_admit rq) sn now e) s
         | RtRelease \<Rightarrow> of_text (handle_release (rq_release rq) sn now e) s
         | RtPause \<Rightarrow> of_text (handle_pause sn now e) s
         | RtResume \<Rightarrow> of_text (handle_resume sn now e) s
         | RtDrain \<Rightarrow> of_text (handle_drain sn now e) s
         | _ \<Rightarrow> (let r = handle_status e in Some (\<lparr>re_status = sr_status r, re_body = StatusBody (sr_body r)\<rparr>, s)))"

text \<open>The broker stops at boot if it cannot open its store, so no request is served without one.  The options \<open>WithKiller\<close>, \<open>WithMetrics\<close> and \<open>WithAdmitter\<close> with the broker's implementations.\<close>

definition broker_seams :: "outside \<Rightarrow> broker seams" where
  "broker_seams w =
     \<lparr>sm_killer = kill_seam w,
      sm_metrics = (\<lambda>k now rq as s. case rg_store (bk_reg s) of
                      None \<Rightarrow> None | Some st \<Rightarrow> metrics_seam w st k now rq as s),
      sm_admitter = admission_seam\<rparr>"

section \<open>What the router finds\<close>

lemma pct_decode_append: "pct_decode a = Some x \<Longrightarrow> pct_decode (a @ b) = map_option ((@) x) (pct_decode b)"
proof (induction a arbitrary: x rule: pct_decode.induct)
  case 1
  then show ?case by (cases "pct_decode b") auto
next
  case (2 c cs)
  show ?case
  proof (cases "c = CHR 0x25")
    case True
    with 2(3) obtain p q r u v y where cs: "cs = p # q # r" "hex_val p = Some u" "hex_val q = Some v"
      "pct_decode r = Some y" "x = char_of (16 * u + v) # y"
      by (auto split: list.splits option.splits)
    from 2(1) [OF True cs(1) refl cs(4)] True cs show ?thesis by (cases "pct_decode b") auto
  next
    case False
    with 2(3) obtain y where "pct_decode cs = Some y" "x = c # y" by auto
    with 2(2) [OF False this(1)] False show ?thesis by (cases "pct_decode b") auto
  qed
qed

lemma join_slash_Cons: "join_slash (c # cs) = (if cs = [] then c else c @ CHR ''/'' # join_slash cs)"
  by (cases cs) auto

lemma join_split: "join_slash (split_slash s) = s"
  by (induction s) (auto simp: join_slash_Cons split: list.splits)

lemma join_slash_first: "CHR ''/'' \<notin> set c \<Longrightarrow> takeWhile (\<lambda>x. x \<noteq> CHR ''/'') (join_slash (c # cs)) = c"
  by (auto simp: join_slash_Cons takeWhile_no_slash takeWhile_eq_all_conv)

lemma decode_join:
  "those (map pct_decode cs) = Some ss \<Longrightarrow> pct_decode (join_slash cs) = Some (join_slash ss) \<and> length ss = length cs"
proof (induction cs arbitrary: ss rule: join_slash.induct)
  case (2 c)
  then show ?case by (auto split: option.splits)
next
  case (3 c d cs)
  from 3(2) obtain x ys where x: "pct_decode c = Some x" "those (map pct_decode (d # cs)) = Some ys" "ss = x # ys"
    by (auto split: option.splits)
  from 3(1) [OF x(2)] have y: "pct_decode (join_slash (d # cs)) = Some (join_slash ys)" "length ys = length (d # cs)"
    by simp_all
  from y(2) obtain u us where u: "ys = u # us" by (cases ys) auto
  show ?case using y u x by (simp add: pct_decode_append)
qed simp

lemma decode_segments:
  assumes "path_segments (CHR ''/'' # s) = Some ss"
  shows "pct_decode (CHR ''/'' # s) = Some (CHR ''/'' # join_slash ss)" and "ss \<noteq> []"
  using decode_join [of "split_slash s" ss] assms by (auto simp: path_segments_def join_split)

lemma path_clean_rooted: "\<exists>s. path_clean (CHR ''/'' # q) = CHR ''/'' # s"
  by (simp add: path_clean_def Let_def)

lemma clean_rooted: "\<exists>s. http_clean_path e = CHR ''/'' # s"
proof (cases "e = []")
  case False
  then have "\<exists>q. (if hd e \<noteq> CHR ''/'' then CHR ''/'' # e else e) = CHR ''/'' # q" by (cases e) auto
  then obtain q where q: "(if hd e \<noteq> CHR ''/'' then CHR ''/'' # e else e) = CHR ''/'' # q" ..
  obtain s where "path_clean (CHR ''/'' # q) = CHR ''/'' # s" using path_clean_rooted by blast
  with False q show ?thesis unfolding http_clean_path_def by (simp add: Let_def)
qed (simp add: http_clean_path_def)

lemma found_route:
  assumes "find_handler m e = Found k as"
  obtains s ss rm ps where "e = CHR ''/'' # s" "path_segments e = Some ss" "(rm, ps, k) \<in> set routes"
    "match_segs ps ss = Some as" "method_matches rm m"
proof -
  let ?p = "if m = ''CONNECT'' then e else http_clean_path e"
  from assms have p: "?p = e" by (auto simp: find_handler_def Let_def split: if_splits)
  with assms obtain ss where ss: "path_segments e = Some ss"
    by (auto simp: find_handler_def Let_def split: option.splits)
  with assms p obtain rest where f: "List.map_filter (match_route m ss) routes = (k, as) # rest"
    by (auto simp: find_handler_def Let_def split: list.splits if_splits)
  then have "(k, as) \<in> set (List.map_filter (match_route m ss) routes)" by simp
  then obtain rm ps where r: "(rm, ps, k) \<in> set routes" "match_segs ps ss = Some as" "method_matches rm m"
    by (auto simp: map_filter_def match_route_def split: if_splits)
  have "m \<noteq> ''CONNECT''" using r(1,3) by (auto simp: routes_def method_matches_def)
  with p have "http_clean_path e = e" by simp
  with clean_rooted [of e] obtain s where "e = CHR ''/'' # s" by auto
  from that [OF this ss r] show ?thesis .
qed

lemma exempt_routes:
  assumes "find_handler m e = Found k as" and "pct_decode e = Some p" and "auth_exempt p"
  shows "k = RtHealthz \<or> k = RtProfileFile"
proof -
  from assms(1) obtain s ss rm ps where e: "e = CHR ''/'' # s" and ss: "path_segments e = Some ss"
    and r: "(rm, ps, k) \<in> set routes" and m: "match_segs ps ss = Some as" by (rule found_route)
  from decode_segments [of s ss] ss e assms(2) have p: "p = CHR ''/'' # join_slash ss" "ss \<noteq> []" by auto
  then obtain x xs where x: "ss = x # xs" by (cases ss) auto
  have "\<exists>l qs. ps = Lit l # qs \<and> CHR ''/'' \<notin> set l \<and> (l = ''healthz'' \<longrightarrow> k = RtHealthz) \<and>
      (l = ''profile'' \<longrightarrow> k = RtProfileFile)"
    using r unfolding routes_def by auto
  with m x obtain l qs where l: "x = l" "CHR ''/'' \<notin> set x" "l = ''healthz'' \<longrightarrow> k = RtHealthz"
    "l = ''profile'' \<longrightarrow> k = RtProfileFile" by (auto split: if_splits)
  have "takeWhile (\<lambda>c. c \<noteq> CHR ''/'') (tl p) = x" using p(1) x join_slash_first [OF l(2)] by simp
  moreover have "p = ''/healthz'' \<or> (\<exists>u. p = ''/profile/'' @ u)"
    using assms(3) by (auto simp: auth_exempt_def elim: has_prefixE)
  ultimately have "x = ''healthz'' \<or> x = ''profile''" by auto
  then show ?thesis using l by auto
qed

section \<open>Authentication\<close>

text \<open>
  The replies that need no token: the health document, a profile page or file or the refusal of one, a
  redirect to the clean path, and the two fixed texts of the router.  The empty body of an upgrade to the
  event stream is none of them.
\<close>

definition public_reply :: "reply \<Rightarrow> bool" where
  "public_reply r =
     (case re_body r of
        HealthBody _ \<Rightarrow> re_status r = 200
      | ProviderBody pb \<Rightarrow> (case pb of ShimBody _ _ \<Rightarrow> True | FileBody _ \<Rightarrow> True | FailBody _ _ \<Rightarrow> True | _ \<Rightarrow> False)
      | RedirectBody _ \<Rightarrow> re_status r = 301
      | TextBody t \<Rightarrow> re_status r = 405 \<and> t = ''Method Not Allowed'' \<or> re_status r = 404 \<and> t = ''404 page not found''
      | _ \<Rightarrow> False)"

lemma profile_file_body:
  "public_reply \<lparr>re_status = n, re_body = ProviderBody (pv_body (handle_profile_file p ok st origin i name))\<rparr>"
  by (simp add: public_reply_def handle_profile_file_def add_headers_def serve_shim_def pv_fail_def write_json_def
      split: sum.split option.split)

lemma profile_file_status: "pv_status (handle_profile_file p ok st origin i name) \<noteq> 101"
  by (simp add: handle_profile_file_def add_headers_def serve_shim_def pv_fail_def write_json_def
      split: sum.split option.split)

lemma exempt_handler:
  assumes "k = RtHealthz \<or> k = RtProfileFile" and "sv_seams sv = broker_seams w"
    and "handle_route sv ok now rq k as s = Some (r, s')"
  shows "s' = s \<and> public_reply r \<and> re_status r \<noteq> 101"
  using assms(1)
proof
  assume k: "k = RtHealthz"
  from assms(3) show ?thesis by (auto simp: k handle_route_def handle_healthz_def public_reply_def)
next
  assume k: "k = RtProfileFile"
  from assms(3) profile_file_body profile_file_status show ?thesis
    by (auto simp: k handle_route_def is_metrics_route_def assms(2) broker_seams_def metrics_seam_def Let_def
        split: option.splits)
qed

lemma mux_cases:
  assumes "serve_mux sv ok now rq s = Some (r, s')"
  obtains (route) k as where "find_handler (rq_method rq) (rq_escaped rq) = Found k as"
      "handle_route sv ok now rq k as s = Some (r, s')"
  | (none) "\<nexists>k as. find_handler (rq_method rq) (rq_escaped rq) = Found k as" "s' = s" "re_status r \<in> {301, 404, 405}" "public_reply r"
proof (cases "find_handler (rq_method rq) (rq_escaped rq)")
  case (Found k as)
  from route [OF Found] assms Found show ?thesis by (simp add: serve_mux_def)
qed (use assms none in \<open>auto simp: serve_mux_def public_reply_def\<close>)

lemma http_cases:
  assumes "serve_http sv ok now rq s = Some (r, s')"
  obtains (bad) "pct_decode (rq_escaped rq) = None" "s' = s" "re_status r = 400" "re_body r = TextBody ''400 Bad Request''"
  | (denied) p where "pct_decode (rq_escaped rq) = Some p" "\<not> auth_exempt p" "\<not> authorize (sv_token sv) (rq_auth rq)"
      "s' = s" "r = reply_error 401 ''unauthorized'' []"
  | (served) p where "pct_decode (rq_escaped rq) = Some p" "auth_exempt p \<or> authorize (sv_token sv) (rq_auth rq)"
      "serve_mux sv ok now rq s = Some (r, s')"
proof (cases "pct_decode (rq_escaped rq)")
  case None
  with assms bad show ?thesis by (auto simp: serve_http_def)
next
  case (Some p)
  show ?thesis
  proof (cases "auth_exempt p \<or> authorize (sv_token sv) (rq_auth rq)")
    case True
    with assms Some served show ?thesis by (auto simp: serve_http_def split: if_splits)
  next
    case False
    with assms Some denied show ?thesis by (auto simp: serve_http_def)
  qed
qed

text \<open>
  C21: nobody without the token reads or changes anything.  A request whose Authorization header does not
  carry the configured token leaves the broker as it is, and its reply is the 401 document unless its decoded path is
  \<open>/healthz\<close> or starts with \<open>/profile/\<close>: there it is the health document, a profile page or file or
  the refusal of one, a redirect, or a fixed text of the router.  No such request is upgraded to the event
  stream, and encoded slashes and dot segments in the path do not get around the check.  A path that does not decode is
  the server's own 400.
\<close>

theorem unauthorized_changes_nothing:
  assumes "\<not> authorize (sv_token sv) (rq_auth rq)" and "sv_seams sv = broker_seams w"
    and "serve_http sv ok now rq s = Some (r, s')"
  shows "s' = s \<and> re_status r \<noteq> 101 \<and>
    (case pct_decode (rq_escaped rq) of
       None \<Rightarrow> r = \<lparr>re_status = 400, re_body = TextBody ''400 Bad Request''\<rparr>
     | Some p \<Rightarrow> if p = ''/healthz'' \<or> has_prefix p ''/profile/'' then public_reply r
                 else r = reply_error 401 ''unauthorized'' [])"
  using assms(3)
proof (cases rule: http_cases)
  case bad
  then show ?thesis by simp
next
  case (denied p)
  then show ?thesis by (simp add: auth_exempt_def reply_error_def)
next
  case (served p)
  with assms(1) have e: "auth_exempt p" by simp
  from served(3) have "s' = s \<and> public_reply r \<and> re_status r \<noteq> 101"
  proof (cases rule: mux_cases)
    case (route k as)
    from exempt_routes [OF route(1) served(1) e] assms(2) route(2) show ?thesis by (rule exempt_handler)
  next
    case none
    from none(3) have "re_status r \<noteq> 101" by (elim insertE) simp_all
    with none(2,4) show ?thesis by blast
  qed
  with served(1) e show ?thesis by (simp add: auth_exempt_def)
qed

section \<open>Statuses\<close>

text \<open>
  What a route answers with when the broker's seams are plugged in; a refused upgrade has the status of the
  WebSocket library.
\<close>

fun route_statuses :: "route_kind \<Rightarrow> nat set" where
  "route_statuses RtHealthz = {200}"
| "route_statuses RtListBuilds = {200}"
| "route_statuses RtGetBuild = {200, 404}"
| "route_statuses RtRegister = {200, 400}"
| "route_statuses RtDeregisterPath = {200, 404}"
| "route_statuses RtDeregister = {200, 400, 404}"
| "route_statuses RtEvents = {}"
| "route_statuses RtKillBuild = {200, 404, 409, 500}"
| "route_statuses RtMetricsOfBuild = {200, 404, 500}"
| "route_statuses RtProfileOfBuild = {200, 500}"
| "route_statuses RtMetricsList = {200, 404, 500}"
| "route_statuses RtProfileFile = {200, 404, 500}"
| "route_statuses RtDiskCache = {200, 500}"
| "route_statuses RtAdmit = {200, 202, 400, 403}"
| "route_statuses RtRelease = {204}"
| "route_statuses RtPause = {200}"
| "route_statuses RtResume = {200}"
| "route_statuses RtDrain = {200}"
| "route_statuses RtAdmissionStatus = {200}"

definition statuses_for :: "http_request \<Rightarrow> route_kind \<Rightarrow> nat set" where
  "statuses_for rq k =
     (if k = RtEvents then {case rq_upgrade rq of None \<Rightarrow> 101 | Some st \<Rightarrow> st} else route_statuses k)"

text \<open>
  When a route refuses its request: a body that does not decode or lacks the id, or the worktree where one is
  registered; for the event route, an upgrade that the WebSocket library refuses with that status.
\<close>

definition bad_request :: "http_request \<Rightarrow> route_kind \<Rightarrow> bool" where
  "bad_request rq k =
     (case k of
        RtRegister \<Rightarrow> (case rq_register rq of None \<Rightarrow> True | Some q \<Rightarrow> rr_id q = [] \<or> rr_worktree q = [])
      | RtDeregister \<Rightarrow> (case rq_deregister rq of None \<Rightarrow> True | Some q \<Rightarrow> dq_id q = [])
      | RtAdmit \<Rightarrow> (case rq_admit rq of None \<Rightarrow> True | Some q \<Rightarrow> req_id q = [])
      | RtEvents \<Rightarrow> rq_upgrade rq = Some 400
      | _ \<Rightarrow> False)"

text \<open>The id that a request for one build of the registry names.\<close>

definition build_routes :: "route_kind set" where
  "build_routes = {RtGetBuild, RtDeregisterPath, RtDeregister}"

definition named_id :: "http_request \<Rightarrow> route_kind \<Rightarrow> string list \<Rightarrow> string" where
  "named_id rq k as = (if k = RtDeregister then dq_id (the (rq_deregister rq)) else hd as)"

lemma wild_nonempty: "match_segs ps ss = Some as \<Longrightarrow> [] \<notin> set as"
  by (induction ps ss arbitrary: as rule: match_segs.induct) (auto split: if_splits)

lemma wild_count: "match_segs ps ss = Some as \<Longrightarrow> length as = length (filter (\<lambda>p. p = Wild) ps)"
  by (induction ps ss arbitrary: as rule: match_segs.induct) (auto split: if_splits)

definition one_wild :: "route_kind set" where
  "one_wild = {RtGetBuild, RtDeregisterPath, RtKillBuild, RtMetricsOfBuild, RtProfileOfBuild}"

lemma found_wild:
  assumes "find_handler m e = Found k as" and "k \<in> one_wild"
  shows "\<exists>i. as = [i] \<and> i \<noteq> []"
proof -
  from assms(1) obtain rm ps ss where r: "(rm, ps, k) \<in> set routes" "match_segs ps ss = Some as"
    by (rule found_route)
  from r(1) assms(2) have "length (filter (\<lambda>p. p = Wild) ps) = 1"
    unfolding routes_def one_wild_def by auto
  with wild_count [OF r(2)] have "length as = 1" by simp
  then obtain i where "as = [i]" by (auto simp: length_Suc_conv)
  with wild_nonempty [OF r(2)] show ?thesis by auto
qed

lemma deregister_status:
  assumes "fst (rg_deregister ok i ex now rg) = d" and "i \<noteq> []"
  shows "re_status (deregister_reply now d) \<in> {200, 404}"
  using assms by (auto simp: rg_deregister_def deregister_core_def deregister_reply_def reply_error_def Let_def
      split: option.splits if_splits)

lemma verdict_status: "hr_status (verdict_response v) \<in> {200, 202, 403}"
  by (cases v) (simp_all add: verdict_response_def)

lemma admit_status: "hr_status (fst (handle_admit b sn t e)) \<in> {200, 202, 400, 403}"
  using verdict_status by (auto simp: handle_admit_def split_beta)

lemma admission_status:
  assumes "k \<in> {RtAdmit, RtRelease, RtPause, RtResume, RtDrain, RtAdmissionStatus}"
    and "admission_seam k t rq as s = Some (r, s')"
  shows "re_status r \<in> route_statuses k"
proof (cases "k = RtAdmit")
  case True
  with assms(2) have "re_status r = hr_status (fst (handle_admit (rq_admit rq) (snapshot_active (bk_reg s)) t (bk_engine s)))"
    by (auto simp: admission_seam_def of_text_def Let_def)
  with admit_status True show ?thesis by simp
next
  case False
  with assms show ?thesis
    by (auto simp: admission_seam_def of_text_def handle_release_def handle_pause_def handle_resume_def handle_drain_def
        handle_status_def Let_def)
qed

lemmas provider_handlers = handle_build_profile_def handle_metrics_list_def handle_profile_file_def
  handle_disk_cache_def add_headers_def serve_shim_def pv_fail_def write_json_def

lemma provider_statuses:
  "i \<noteq> [] \<Longrightarrow> pv_status (write_metrics p ok st i) \<in> {200, 404, 500}"
  "pv_status (handle_build_profile p ok st i) \<in> {200, 500}"
  "pv_status (handle_metrics_list p ok st q) \<in> {200, 404, 500}"
  "pv_status (handle_profile_file p ok st org i name) \<in> {200, 404, 500}"
  "pv_status (handle_disk_cache p dir view ok st) \<in> {200, 500}"
  by (auto simp: provider_handlers write_metrics_def split: sum.split option.split)

lemma metrics_status:
  assumes "k \<in> {RtMetricsOfBuild, RtProfileOfBuild, RtMetricsList, RtProfileFile, RtDiskCache}"
    and "k = RtMetricsOfBuild \<longrightarrow> hd as \<noteq> []" and "metrics_seam w st k now rq as s = Some (r, s')"
  shows "re_status r \<in> route_statuses k"
proof -
  consider "k = RtMetricsOfBuild" | "k = RtProfileOfBuild" | "k = RtMetricsList" | "k = RtProfileFile" | "k = RtDiskCache"
    using assms(1) by auto
  then show ?thesis
  proof cases
    case 1
    with assms(2,3) provider_statuses(1) [of "hd as" "os_provider w" "os_store_ok w" st] show ?thesis
      by (auto simp: metrics_seam_def Let_def)
  next
    case 2
    with assms(3) provider_statuses(2) [of "os_provider w" "os_store_ok w" st "hd as"] show ?thesis
      by (auto simp: metrics_seam_def Let_def)
  next
    case 3
    with assms(3) provider_statuses(3) [of "os_provider w" "os_store_ok w" st "rq_query rq ''invocation_id''"] show ?thesis
      by (auto simp: metrics_seam_def Let_def)
  next
    case 4
    with assms(3) provider_statuses(4) [of "os_provider w" "os_store_ok w" st "rq_origin rq" "as ! 0" "as ! 1"] show ?thesis
      by (auto simp: metrics_seam_def Let_def)
  next
    case 5
    with assms(3) provider_statuses(5) [of "os_provider w" "os_cache_dir w" "os_fresh_view w" "os_store_ok w" st] show ?thesis
      by (auto simp: metrics_seam_def Let_def)
  qed
qed

lemma registry_status:
  assumes "k \<in> {RtGetBuild, RtRegister, RtDeregisterPath, RtDeregister}"
    and "k \<in> one_wild \<longrightarrow> hd as \<noteq> []" and "handle_route sv ok now rq k as s = Some (r, s')"
  shows "re_status r \<in> route_statuses k"
proof -
  consider "k = RtGetBuild" | "k = RtRegister" | "k = RtDeregisterPath" | "k = RtDeregister" using assms(1) by auto
  then show ?thesis
  proof cases
    case 1
    with assms(3) show ?thesis by (auto simp: handle_route_def handle_get_build_def reply_error_def split: option.splits)
  next
    case 2
    with assms(3) show ?thesis
      by (auto simp: handle_route_def on_reg_def handle_register_def reply_error_def split: option.splits sum.splits prod.splits if_splits)
  next
    case 3
    with assms(2,3) deregister_status [OF refl, of "hd as"] show ?thesis
      by (auto simp: handle_route_def on_reg_def handle_deregister_path_def one_wild_def Let_def split_beta)
  next
    case 4
    show ?thesis
    proof (cases "rq_deregister rq")
      case None
      with 4 assms(3) show ?thesis by (auto simp: handle_route_def on_reg_def handle_deregister_def reply_error_def)
    next
      case (Some q)
      with 4 assms(3) deregister_status [OF refl, of "dq_id q"] show ?thesis
        by (auto simp: handle_route_def on_reg_def handle_deregister_def reply_error_def split_beta split: if_splits)
    qed
  qed
qed

lemma kill_status:
  assumes "hd as \<noteq> []" and "kill_seam w now rq as s = Some (r, s')"
  shows "re_status r \<in> route_statuses RtKillBuild"
  using assms
  by (auto simp: kill_seam_def handle_kill_def reply_error_def Let_def split_beta
      split: option.splits kill_reply.splits prod.splits if_splits)

lemma plain_status:
  assumes "k \<in> {RtHealthz, RtListBuilds, RtEvents}" and "handle_route sv ok now rq k as s = Some (r, s')"
  shows "re_status r \<in> statuses_for rq k"
  using assms by (auto simp: statuses_for_def handle_route_def handle_healthz_def handle_list_builds_def handle_events_def)

lemma route_status:
  assumes "find_handler m e = Found k as" and "sv_seams sv = broker_seams w"
    and "handle_route sv ok now rq k as s = Some (r, s')"
  shows "re_status r \<in> statuses_for rq k"
proof -
  have hd: "k \<in> one_wild \<longrightarrow> hd as \<noteq> []" using found_wild [OF assms(1)] by auto
  consider "k \<in> {RtHealthz, RtListBuilds, RtEvents}" | "k \<in> {RtGetBuild, RtRegister, RtDeregisterPath, RtDeregister}"
    | "k = RtKillBuild" | "k \<in> {RtMetricsOfBuild, RtProfileOfBuild, RtMetricsList, RtProfileFile, RtDiskCache}"
    | "k \<in> {RtAdmit, RtRelease, RtPause, RtResume, RtDrain, RtAdmissionStatus}" by (cases k) auto
  then show ?thesis
  proof cases
    case 1
    from plain_status [OF 1 assms(3)] show ?thesis .
  next
    case 2
    from registry_status [OF 2 hd assms(3)] 2 show ?thesis by (auto simp: statuses_for_def)
  next
    case 3
    with assms(2,3) hd kill_status [of as w now rq s r s'] show ?thesis
      by (simp add: statuses_for_def handle_route_def broker_seams_def one_wild_def)
  next
    case 4
    then have "handle_route sv ok now rq k as s = sm_metrics (sv_seams sv) k now rq as s"
      by (auto simp: handle_route_def is_metrics_route_def)
    with assms(2,3) obtain st where "metrics_seam w st k now rq as s = Some (r, s')"
      by (auto simp: broker_seams_def split: option.splits)
    with metrics_status [OF 4 _ this] hd 4 show ?thesis by (auto simp: statuses_for_def one_wild_def)
  next
    case 5
    then have "handle_route sv ok now rq k as s = sm_admitter (sv_seams sv) k now rq as s"
      by (auto simp: handle_route_def is_metrics_route_def)
    with assms(2,3) admission_status [OF 5] 5 show ?thesis by (auto simp: statuses_for_def broker_seams_def)
  qed
qed

lemma deregister_404:
  assumes "i \<noteq> []"
  shows "re_status (deregister_reply now (fst (rg_deregister ok i ex now rg))) = 404 \<longleftrightarrow> map_of (rg_builds rg) i = None"
  using assms by (auto simp: rg_deregister_def deregister_core_def deregister_reply_def reply_error_def Let_def
      split: option.splits)

lemma unknown_404:
  assumes "k \<in> build_routes" and "k \<in> one_wild \<longrightarrow> hd as \<noteq> []" and "handle_route sv ok now rq k as s = Some (r, s')"
  shows "re_status r = 404 \<longleftrightarrow> \<not> bad_request rq k \<and> map_of (rg_builds (bk_reg s)) (named_id rq k as) = None"
proof -
  consider "k = RtGetBuild" | "k = RtDeregisterPath" | "k = RtDeregister" using assms(1) by (auto simp: build_routes_def)
  then show ?thesis
  proof cases
    case 1
    with assms(3) show ?thesis
      by (auto simp: handle_route_def handle_get_build_def reply_error_def bad_request_def named_id_def rg_get_def split: option.splits)
  next
    case 2
    with assms(2,3) deregister_404 [of "hd as"] show ?thesis
      by (auto simp: handle_route_def on_reg_def handle_deregister_path_def one_wild_def Let_def split_beta bad_request_def named_id_def)
  next
    case 3
    show ?thesis
    proof (cases "rq_deregister rq")
      case None
      with 3 assms(3) show ?thesis
        by (auto simp: handle_route_def on_reg_def handle_deregister_def reply_error_def bad_request_def)
    next
      case (Some q)
      with 3 assms(3) deregister_404 [of "dq_id q"] show ?thesis
        by (auto simp: handle_route_def on_reg_def handle_deregister_def reply_error_def split_beta bad_request_def named_id_def
            split: if_splits)
    qed
  qed
qed

lemma register_ok: "b_id b \<noteq> [] \<Longrightarrow> b_worktree b \<noteq> [] \<Longrightarrow> \<exists>s bs'. register_core b now bs = Inr (s, bs')"
  by (simp add: register_core_def Let_def)

lemma register_400:
  assumes "handle_route sv ok now rq RtRegister as s = Some (r, s')"
  shows "re_status r = 400 \<longleftrightarrow> bad_request rq RtRegister"
proof (cases "rq_register rq")
  case None
  with assms show ?thesis by (auto simp: handle_route_def on_reg_def handle_register_def reply_error_def bad_request_def)
next
  case (Some q)
  show ?thesis
  proof (cases "rr_id q = [] \<or> rr_worktree q = []")
    case True
    with Some assms show ?thesis
      by (auto simp: handle_route_def on_reg_def handle_register_def reply_error_def bad_request_def)
  next
    case False
    then have n: "b_id (to_domain q) \<noteq> []" "b_worktree (to_domain q) \<noteq> []" by (simp_all add: to_domain_def)
    obtain b bs where "register_core (to_domain q) now (rg_builds (bk_reg s)) = Inr (b, bs)"
      using register_ok [OF n] by blast
    with False Some assms show ?thesis
      by (auto simp: handle_route_def on_reg_def handle_register_def bad_request_def rg_register_def)
  qed
qed

lemma admit_400:
  assumes "admission_seam RtAdmit now rq as s = Some (r, s')"
  shows "re_status r = 400 \<longleftrightarrow> bad_request rq RtAdmit"
proof -
  have v: "hr_status (verdict_response v) \<noteq> 400" for v using verdict_status [of v] by auto
  from assms have "re_status r = hr_status (fst (handle_admit (rq_admit rq) (snapshot_active (bk_reg s)) now (bk_engine s)))"
    by (auto simp: admission_seam_def of_text_def Let_def)
  also have "\<dots> = 400 \<longleftrightarrow> bad_request rq RtAdmit"
    using v by (auto simp: handle_admit_def bad_request_def split_beta split: option.splits)
  finally show ?thesis .
qed

lemma route_400:
  assumes "re_status r \<in> statuses_for rq k" and "sv_seams sv = broker_seams w" and "k \<in> one_wild \<longrightarrow> hd as \<noteq> []"
    and "handle_route sv ok now rq k as s = Some (r, s')"
  shows "re_status r = 400 \<longleftrightarrow> bad_request rq k"
proof -
  have d: "re_status r = 400 \<longleftrightarrow> bad_request rq RtDeregister" if "k = RtDeregister"
  proof (cases "rq_deregister rq")
    case None
    with that assms(4) show ?thesis by (auto simp: handle_route_def on_reg_def handle_deregister_def reply_error_def bad_request_def)
  next
    case (Some q)
    have n: "re_status (deregister_reply now (fst (rg_deregister ok (dq_id q) ex now rg))) \<noteq> 400"
      if "dq_id q \<noteq> []" for ok ex and rg :: "metrics_json registry"
    proof -
      have "re_status (deregister_reply now (fst (rg_deregister ok (dq_id q) ex now rg))) \<in> {200, 404}"
        by (rule deregister_status [OF refl that])
      then show ?thesis by auto
    qed
    from Some that assms(4) n show ?thesis
      by (auto simp: handle_route_def on_reg_def handle_deregister_def reply_error_def split_beta bad_request_def split: if_splits)
  qed
  have a: "re_status r = 400 \<longleftrightarrow> bad_request rq RtAdmit" if "k = RtAdmit"
    using that assms(4) admit_400 by (auto simp: handle_route_def is_metrics_route_def assms(2) broker_seams_def)
  have g: "re_status r = 400 \<longleftrightarrow> bad_request rq RtRegister" if "k = RtRegister"
    using assms(4) that by (simp add: register_400)
  from assms(1) d a g show ?thesis
    by (cases k) (auto simp: statuses_for_def bad_request_def split: option.splits)
qed


section \<open>A build registered over HTTP\<close>

definition plain_id :: "string \<Rightarrow> bool" where
  "plain_id i \<longleftrightarrow> comp_ok i \<and> CHR 0x25 \<notin> set i"

lemma plain_decode: "CHR 0x25 \<notin> set s \<Longrightarrow> pct_decode s = Some s"
  by (induction s) auto

lemma plain_path:
  assumes "\<forall>c\<in>set cs. plain_id c" and "cs \<noteq> []"
  shows "http_clean_path (abs_path cs) = abs_path cs" "path_segments (abs_path cs) = Some cs"
    "pct_decode (abs_path cs) = Some (abs_path cs)"
proof -
  have ok: "\<forall>c\<in>set cs. comp_ok c" using assms(1) by (simp add: plain_id_def)
  have no: "\<forall>c\<in>set cs. CHR ''/'' \<notin> set c" using ok by (simp add: comp_ok_def)
  have "last (abs_path cs) \<noteq> CHR ''/''"
  proof -
    obtain ds d where d: "cs = ds @ [d]" using assms(2) by (metis rev_exhaust)
    with ok have "d \<noteq> []" "CHR ''/'' \<notin> set d" by (simp_all add: comp_ok_def)
    then have "last (abs_path (ds @ [d])) = last d" by (cases "ds = []") (simp_all add: abs_path_def join_slash_snoc)
    with \<open>d \<noteq> []\<close> \<open>CHR ''/'' \<notin> set d\<close> show ?thesis unfolding d by (metis last_in_set)
  qed
  then show "http_clean_path (abs_path cs) = abs_path cs"
    using clean_abs [OF ok] by (simp add: http_clean_path_def Let_def abs_path_def)
  have seg: "split_slash (drop 1 (abs_path cs)) = cs" using split_join [OF assms(2) no] by (simp add: abs_path_def)
  have "\<forall>c\<in>set cs. pct_decode c = Some c" using assms(1) by (simp add: plain_id_def plain_decode)
  then have dec: "those (map pct_decode cs) = Some cs" by (induction cs) auto
  with seg show "path_segments (abs_path cs) = Some cs" by (simp add: path_segments_def)
  from decode_join [OF dec] show "pct_decode (abs_path cs) = Some (abs_path cs)" by (simp add: abs_path_def)
qed

lemma find_plain:
  assumes "\<forall>c\<in>set cs. plain_id c" and "cs \<noteq> []" and "m \<noteq> ''CONNECT''"
    and "List.map_filter (match_route m cs) routes = (k, as) # rest"
  shows "find_handler m (abs_path cs) = Found k as"
  using plain_path [OF assms(1,2)] assms(3,4) by (simp add: find_handler_def Let_def)

lemma plain_builds [simp]: "plain_id ''builds''"
  by (simp add: plain_id_def comp_ok_def)

lemma find_post_builds: "find_handler ''POST'' (abs_path [''builds'']) = Found RtRegister []"
  by (rule find_plain [where rest = "[]"])
    (simp_all add: routes_def map_filter_def match_route_def method_matches_def)

lemma find_get_build: "plain_id i \<Longrightarrow> find_handler ''GET'' (abs_path [''builds'', i]) = Found RtGetBuild [i]"
  by (rule find_plain [where rest = "[]"])
    (auto simp: routes_def map_filter_def match_route_def method_matches_def plain_id_def comp_ok_def)

lemma serve_plain:
  assumes "\<forall>c\<in>set cs. plain_id c" and "cs \<noteq> []" and "authorize (sv_token sv) (rq_auth rq)"
    and "rq_escaped rq = abs_path cs" and "find_handler (rq_method rq) (abs_path cs) = Found k as"
  shows "serve_http sv ok now rq s = handle_route sv ok now rq k as s"
  using plain_path(3) [OF assms(1,2)] assms(3-5) by (simp add: serve_http_def serve_mux_def)

lemma register_stored:
  assumes "register_core b now bs = Inr (s, bs')"
  shows "map_of bs' (b_id b) = Some s" "b_worktree s = b_worktree b" "b_targets b \<noteq> [] \<Longrightarrow> b_targets s = b_targets b"
    "is_terminal (b_state s) \<or> b_state s = state_running"
  using assms by (auto simp: register_core_def Let_def update_conv' split: if_splits)

text \<open>
  What was registered is what is served.  A POST to \<open>/builds\<close> with an id and a worktree is
  accepted whatever the store does, and a GET of \<open>/builds/<id>\<close> after it returns the build that the
  first reply showed, with the worktree and targets of the request, running unless it had ended.
\<close>

theorem registered_build_is_served:
  assumes tok: "authorize (sv_token sv) (rq_auth rq)" "authorize (sv_token sv) (rq_auth rq')"
    and post: "rq_method rq = ''POST''" "rq_escaped rq = ''/builds''" "rq_register rq = Some req"
    and get: "rq_method rq' = ''GET''" "rq_escaped rq' = ''/builds/'' @ rr_id req"
    and req: "plain_id (rr_id req)" "rr_worktree req \<noteq> []"
  shows "\<exists>b s'. serve_http sv ok now rq s = Some (\<lparr>re_status = 200, re_body = BuildBody (to_api b now)\<rparr>, s') \<and>
     serve_http sv ok' now' rq' s' = Some (\<lparr>re_status = 200, re_body = BuildBody (to_api b now')\<rparr>, s') \<and>
     b_worktree b = rr_worktree req \<and> (rr_targets req \<noteq> [] \<longrightarrow> b_targets b = rr_targets req) \<and>
     (is_terminal (b_state b) \<or> b_state b = state_running)"
proof -
  let ?d = "to_domain req"
  have d: "b_id ?d = rr_id req" "b_worktree ?d = rr_worktree req" "b_targets ?d = rr_targets req"
    by (simp_all add: to_domain_def)
  have i: "rr_id req \<noteq> []" using req(1) by (auto simp: plain_id_def comp_ok_def)
  with req(2) d register_ok obtain b bs where b: "register_core ?d now (rg_builds (bk_reg s)) = Inr (b, bs)" by metis
  let ?s = "s\<lparr>bk_reg := publish ok now b ((bk_reg s)\<lparr>rg_builds := bs\<rparr>)\<rparr>"
  have "serve_http sv ok now rq s = handle_route sv ok now rq RtRegister [] s"
    by (rule serve_plain [where cs = "[''builds'']"])
      (use tok(1) post find_post_builds in \<open>simp_all add: abs_path_def\<close>)
  also have "\<dots> = Some (\<lparr>re_status = 200, re_body = BuildBody (to_api b now)\<rparr>, ?s)"
    using b post(3) i req(2) by (simp add: handle_route_def on_reg_def handle_register_def rg_register_def)
  finally have 1: "serve_http sv ok now rq s = Some (\<lparr>re_status = 200, re_body = BuildBody (to_api b now)\<rparr>, ?s)" .
  have "serve_http sv ok' now' rq' ?s = handle_route sv ok' now' rq' RtGetBuild [rr_id req] ?s"
    by (rule serve_plain [where cs = "[''builds'', rr_id req]"])
      (use tok(2) get req(1) find_get_build [OF req(1)] in \<open>simp_all add: abs_path_def\<close>)
  also have "\<dots> = Some (\<lparr>re_status = 200, re_body = BuildBody (to_api b now')\<rparr>, ?s)"
    using register_stored(1) [OF b] d by (simp add: handle_route_def handle_get_build_def rg_get_def)
  finally show ?thesis using 1 register_stored(2-4) [OF b] d by metis
qed

section \<open>Concrete requests\<close>

definition idle_request :: http_request where
  "idle_request = \<lparr>rq_method = ''GET'', rq_escaped = ''/healthz'', rq_auth = [], rq_origin = [], rq_query = (\<lambda>_. []),
     rq_register = None, rq_deregister = None, rq_admit = None, rq_release = [], rq_kill = (False, False), rq_upgrade = Some 426\<rparr>"

definition quiet_outside :: outside where
  "quiet_outside = \<lparr>os_kill_cfg = plain_cfg, os_freshen = None, os_kill_env = quiet_env, os_kill_took = 0,
     os_provider = plain_provider, os_store_ok = True, os_cache_dir = [], os_fresh_view = None\<rparr>"

definition plain_server :: server where
  "plain_server = \<lparr>sv_token = ''t'', sv_version = ''0.1.0'', sv_started = 0, sv_seams = broker_seams quiet_outside\<rparr>"

definition fresh_broker :: broker where
  "fresh_broker = \<lparr>bk_reg = new_registry (Some empty_store) (Some new_hub), bk_engine = new_engine default_policy\<rparr>"

lemma bearer_t: "authorize (sv_token plain_server) ''Bearer t''"
  by (simp add: authorize_def plain_server_def trim_simps)

theorem unauthorized_changes_nothing_witness:
  "serve_http plain_server True 1 (idle_request\<lparr>rq_escaped := ''/events'', rq_upgrade := None\<rparr>) fresh_broker
     = Some (reply_error 401 ''unauthorized'' [], fresh_broker)"
proof -
  let ?rq = "idle_request\<lparr>rq_escaped := ''/events'', rq_upgrade := None\<rparr>"
  have a: "\<not> authorize (sv_token plain_server) (rq_auth ?rq)" by (simp add: authorize_def idle_request_def has_prefix_def)
  then have "serve_http plain_server True 1 ?rq fresh_broker \<noteq> None"
    by (simp add: serve_http_def plain_decode idle_request_def auth_exempt_def has_prefix_def)
  then obtain r s' where r: "serve_http plain_server True 1 ?rq fresh_broker = Some (r, s')" by auto
  from unauthorized_changes_nothing [OF a _ r, of quiet_outside] r show ?thesis
    by (simp add: plain_server_def plain_decode idle_request_def has_prefix_def)
qed


definition reg_a :: register_request where
  "reg_a = \<lparr>rr_id = ''a'', rr_worktree = ''/w'', rr_targets = [''//x''], rr_pid = 0, rr_source = []\<rparr>"

theorem registered_build_is_served_witness:
  "\<exists>b s'. serve_http plain_server False 5
       (idle_request\<lparr>rq_auth := ''Bearer t'', rq_method := ''POST'', rq_escaped := ''/builds'', rq_register := Some reg_a\<rparr>) fresh_broker
       = Some (\<lparr>re_status = 200, re_body = BuildBody (to_api b 5)\<rparr>, s') \<and>
     serve_http plain_server True 6 (idle_request\<lparr>rq_auth := ''Bearer t'', rq_escaped := ''/builds/a''\<rparr>) s'
       = Some (\<lparr>re_status = 200, re_body = BuildBody (to_api b 6)\<rparr>, s') \<and> b_worktree b = ''/w'' \<and> b_targets b = [''//x'']"
  using registered_build_is_served [of plain_server
      "idle_request\<lparr>rq_auth := ''Bearer t'', rq_method := ''POST'', rq_escaped := ''/builds'', rq_register := Some reg_a\<rparr>"
      "idle_request\<lparr>rq_auth := ''Bearer t'', rq_escaped := ''/builds/a''\<rparr>" reg_a False 5 fresh_broker True 6]
    bearer_t
  by (auto simp: reg_a_def idle_request_def plain_id_def comp_ok_def)

end
