(* ===== verification/Daemon_Config.thy ===== *)
theory Daemon_Config
  imports Go_Path Engine
begin

text \<open>
  The configuration file (\<open>internal/config/config.go\<close>), what \<open>brokerctl\<close> reads of it
  (\<open>internal/cli/config.go\<close>) and what the daemon makes of it at start (\<open>cmd/broker/main.go\<close>).

  A JSON file is the value of each key the code knows, \<open>None\<close> where the key is absent; unknown keys
  are ignored by both readers.  The environment and the file system are explicit.
\<close>

section \<open>Environment and files\<close>

record environment =
  en_config :: string
  en_xdg_config :: string
  en_xdg_state :: string
  en_home :: "string option"

record config_json =
  cj_host :: "string option"
  cj_port :: "int option"
  cj_token :: "string option"
  cj_profile_open :: "string option"
  cj_disk_cache :: "string option"
  cj_max_concurrency :: "int option"
  cj_db_path :: "string option"
  cj_log_path :: "string option"

datatype cfg_file = NoFile | Unreadable | BadJson | Json config_json

type_synonym files = "string \<Rightarrow> cfg_file"

datatype config_error =
    NoHome
  | ReadFailed string
  | ParseFailed string
  | InvalidPort int
  | NoToken
  | NoDbPath
  | NoLogPath
  | TokenFailed
  | MkdirFailed
  | WriteFailed string

section \<open>Paths\<close>

definition app_dir :: string where "app_dir = ''bazel-broker''"
definition cfg_name :: string where "cfg_name = ''config.json''"
definition default_port :: int where "default_port = 8765"
definition default_host :: string where "default_host = ''127.0.0.1''"
definition default_profile_open :: string where "default_profile_open = ''perfetto''"

definition config_dir :: "environment \<Rightarrow> config_error + string" where
  "config_dir env =
     (if en_xdg_config env \<noteq> [] then Inr (path_join [en_xdg_config env, app_dir])
      else case en_home env of
             None \<Rightarrow> Inl NoHome
           | Some home \<Rightarrow> Inr (path_join [home, ''.config'', app_dir]))"

definition state_dir :: "environment \<Rightarrow> config_error + string" where
  "state_dir env =
     (if en_xdg_state env \<noteq> [] then Inr (path_join [en_xdg_state env, app_dir])
      else case en_home env of
             None \<Rightarrow> Inl NoHome
           | Some home \<Rightarrow> Inr (path_join [home, ''.local'', ''state'', app_dir]))"

definition config_path :: "environment \<Rightarrow> config_error + string" where
  "config_path env =
     (if en_config env \<noteq> [] then Inr (en_config env)
      else case config_dir env of Inl e \<Rightarrow> Inl e | Inr dir \<Rightarrow> Inr (path_join [dir, cfg_name]))"

section \<open>The daemon's configuration\<close>

record config =
  cf_host :: string
  cf_port :: int
  cf_token :: string
  cf_profile_open :: string
  cf_disk_cache :: string
  cf_max_concurrency :: int
  cf_db_path :: string
  cf_log_path :: string

definition empty_config :: config where
  "empty_config = \<lparr>cf_host = [], cf_port = 0, cf_token = [], cf_profile_open = [], cf_disk_cache = [],
     cf_max_concurrency = 0, cf_db_path = [], cf_log_path = []\<rparr>"

text \<open>The fields set before an error is found stay set, as \<open>Default\<close> ignores the error.\<close>

definition default_scalars :: "config \<Rightarrow> config" where
  "default_scalars c =
     (let c1 = (if cf_host c = [] then c\<lparr>cf_host := default_host\<rparr> else c);
          c2 = (if cf_port c1 = 0 then c1\<lparr>cf_port := default_port\<rparr> else c1)
      in if cf_profile_open c2 = [] then c2\<lparr>cf_profile_open := default_profile_open\<rparr> else c2)"

definition apply_defaults :: "environment \<Rightarrow> config \<Rightarrow> config_error option \<times> config" where
  "apply_defaults env c =
     (let c3 = default_scalars c
      in if cf_db_path c3 = [] \<or> cf_log_path c3 = []
         then case state_dir env of
                Inl e \<Rightarrow> (Some e, c3)
              | Inr sd \<Rightarrow>
                  let c4 = (if cf_db_path c3 = [] then c3\<lparr>cf_db_path := path_join [sd, ''broker.db'']\<rparr> else c3);
                      c5 = (if cf_log_path c4 = [] then c4\<lparr>cf_log_path := path_join [sd, ''broker.log'']\<rparr> else c4)
                  in (None, c5)
         else (None, c3))"

definition default_config :: "environment \<Rightarrow> config" where
  "default_config env = snd (apply_defaults env empty_config)"

definition validate :: "config \<Rightarrow> config_error option" where
  "validate c =
     (if cf_port c < 1 \<or> 65535 < cf_port c then Some (InvalidPort (cf_port c))
      else if cf_token c = [] then Some NoToken
      else if cf_db_path c = [] then Some NoDbPath
      else if cf_log_path c = [] then Some NoLogPath
      else None)"

text \<open>\<open>json.Unmarshal\<close> into the defaults: a key that is absent leaves its field.\<close>

definition unmarshal :: "config_json \<Rightarrow> config \<Rightarrow> config" where
  "unmarshal j c =
     \<lparr>cf_host = (case cj_host j of None \<Rightarrow> cf_host c | Some v \<Rightarrow> v),
      cf_port = (case cj_port j of None \<Rightarrow> cf_port c | Some v \<Rightarrow> v),
      cf_token = (case cj_token j of None \<Rightarrow> cf_token c | Some v \<Rightarrow> v),
      cf_profile_open = (case cj_profile_open j of None \<Rightarrow> cf_profile_open c | Some v \<Rightarrow> v),
      cf_disk_cache = (case cj_disk_cache j of None \<Rightarrow> cf_disk_cache c | Some v \<Rightarrow> v),
      cf_max_concurrency = (case cj_max_concurrency j of None \<Rightarrow> cf_max_concurrency c | Some v \<Rightarrow> v),
      cf_db_path = (case cj_db_path j of None \<Rightarrow> cf_db_path c | Some v \<Rightarrow> v),
      cf_log_path = (case cj_log_path j of None \<Rightarrow> cf_log_path c | Some v \<Rightarrow> v)\<rparr>"

definition marshal :: "config \<Rightarrow> config_json" where
  "marshal c =
     \<lparr>cj_host = Some (cf_host c), cj_port = Some (cf_port c), cj_token = Some (cf_token c),
      cj_profile_open = Some (cf_profile_open c), cj_disk_cache = Some (cf_disk_cache c),
      cj_max_concurrency = Some (cf_max_concurrency c), cj_db_path = Some (cf_db_path c),
      cj_log_path = Some (cf_log_path c)\<rparr>"

definition hex_digit :: "nat \<Rightarrow> char" where
  "hex_digit n = (if n < 10 then char_of (48 + n) else char_of (87 + n))"

definition hex_encode :: "nat list \<Rightarrow> string" where
  "hex_encode bs = concat (map (\<lambda>b. [hex_digit (b div 16), hex_digit (b mod 16)]) bs)"

text \<open>\<open>rnd\<close> is what the random source delivers for 32 bytes, \<open>None\<close> if it fails.\<close>

definition generate_token :: "nat list option \<Rightarrow> config_error + string" where
  "generate_token rnd = (case rnd of None \<Rightarrow> Inl TokenFailed | Some bs \<Rightarrow> Inr (hex_encode bs))"

text \<open>
  \<open>os.WriteFile\<close> creates or truncates the file and then writes it: an error between the two leaves a
  file that is empty or cut off, which does not parse.
\<close>

datatype write_outcome = WriteOk | WriteRefused | WriteCut

definition save :: "bool \<Rightarrow> write_outcome \<Rightarrow> string \<Rightarrow> config \<Rightarrow> files \<Rightarrow> config_error option \<times> files" where
  "save mkdir_ok wr path c fs =
     (if \<not> mkdir_ok then (Some MkdirFailed, fs)
      else case wr of
             WriteRefused \<Rightarrow> (Some (WriteFailed path), fs)
           | WriteCut \<Rightarrow> (Some (WriteFailed path), fs(path := BadJson))
           | WriteOk \<Rightarrow> (None, fs(path := Json (marshal c))))"

definition bootstrap ::
  "environment \<Rightarrow> nat list option \<Rightarrow> bool \<Rightarrow> write_outcome \<Rightarrow> string \<Rightarrow> files \<Rightarrow> (config_error + config) \<times> files" where
  "bootstrap env rnd mkdir_ok wr path fs =
     (case generate_token rnd of
        Inl e \<Rightarrow> (Inl e, fs)
      | Inr tok \<Rightarrow>
          (case apply_defaults env ((default_config env)\<lparr>cf_token := tok\<rparr>) of
             (Some e, c) \<Rightarrow> (Inl e, fs)
           | (None, c) \<Rightarrow>
               (case validate c of
                  Some e \<Rightarrow> (Inl e, fs)
                | None \<Rightarrow>
                    (case save mkdir_ok wr path c fs of
                       (Some e, fs') \<Rightarrow> (Inl e, fs')
                     | (None, fs') \<Rightarrow> (Inr c, fs')))))"

definition load ::
  "environment \<Rightarrow> nat list option \<Rightarrow> bool \<Rightarrow> write_outcome \<Rightarrow> files \<Rightarrow> (config_error + config) \<times> files" where
  "load env rnd mkdir_ok wr fs =
     (case config_path env of
        Inl e \<Rightarrow> (Inl e, fs)
      | Inr path \<Rightarrow>
          (case fs path of
             NoFile \<Rightarrow> bootstrap env rnd mkdir_ok wr path fs
           | Unreadable \<Rightarrow> (Inl (ReadFailed path), fs)
           | BadJson \<Rightarrow> (Inl (ParseFailed path), fs)
           | Json j \<Rightarrow>
               (case apply_defaults env (unmarshal j (default_config env)) of
                  (Some e, c) \<Rightarrow> (Inl e, fs)
                | (None, c) \<Rightarrow> (case validate c of Some e \<Rightarrow> (Inl e, fs) | None \<Rightarrow> (Inr c, fs)))))"

text \<open>The admission policy the daemon starts the engine with.\<close>

definition broker_policy :: "config \<Rightarrow> policy" where
  "broker_policy c =
     (if 0 < cf_max_concurrency c then default_policy\<lparr>max_concurrent := cf_max_concurrency c\<rparr> else default_policy)"

section \<open>The command line's view\<close>

record cli_config =
  cc_host :: string
  cc_port :: int
  cc_token :: string

datatype cli_config_error = CliResolve config_error | CliMissing string | CliRead string | CliParse string | CliIncomplete string

definition resolve_config_path :: "environment \<Rightarrow> string \<Rightarrow> config_error + string" where
  "resolve_config_path env explicit = (if explicit \<noteq> [] then Inr explicit else config_path env)"

definition load_config :: "environment \<Rightarrow> string \<Rightarrow> files \<Rightarrow> cli_config_error + cli_config" where
  "load_config env explicit fs =
     (case resolve_config_path env explicit of
        Inl e \<Rightarrow> Inl (CliResolve e)
      | Inr path \<Rightarrow>
          (case fs path of
             NoFile \<Rightarrow> Inl (CliMissing path)
           | Unreadable \<Rightarrow> Inl (CliRead path)
           | BadJson \<Rightarrow> Inl (CliParse path)
           | Json j \<Rightarrow>
               let c = \<lparr>cc_host = (case cj_host j of None \<Rightarrow> [] | Some v \<Rightarrow> v),
                        cc_port = (case cj_port j of None \<Rightarrow> 0 | Some v \<Rightarrow> v),
                        cc_token = (case cj_token j of None \<Rightarrow> [] | Some v \<Rightarrow> v)\<rparr>
               in if cc_port c = 0 \<or> cc_token c = [] then Inl (CliIncomplete path) else Inr c))"

section \<open>Properties\<close>

lemma clean_step_nonempty: "[] \<notin> set acc \<Longrightarrow> [] \<notin> set (clean_step r acc c)"
  by (cases acc) (auto simp: clean_step_def)

lemma clean_fold_nonempty: "[] \<notin> set acc \<Longrightarrow> [] \<notin> set (foldl (clean_step r) acc cs)"
  by (induction cs arbitrary: acc) (simp_all add: clean_step_nonempty)

lemma join_slash_nonempty: "cs \<noteq> [] \<Longrightarrow> [] \<notin> set cs \<Longrightarrow> join_slash cs \<noteq> []"
  by (cases cs rule: join_slash.cases) auto

lemma path_clean_nonempty: "path_clean s \<noteq> []"
proof -
  have n: "(if r then CHR ''/'' # join_slash cs else if cs = [] then ''.'' else join_slash cs) \<noteq> []"
    if "[] \<notin> set cs" for r cs using that join_slash_nonempty [of cs] by auto
  show ?thesis unfolding path_clean_def Let_def by (rule n) (simp add: clean_fold_nonempty)
qed

lemma path_join_nonempty: "x \<noteq> [] \<Longrightarrow> path_join [sd, x] \<noteq> []"
  by (simp add: path_join_def path_clean_nonempty)

text \<open>What the defaults fill in: a field that is set stays, the others are set afterwards.\<close>

lemma default_scalars_set:
  "cf_host (default_scalars c) \<noteq> []" "cf_port (default_scalars c) \<noteq> 0" "cf_profile_open (default_scalars c) \<noteq> []"
  "cf_token (default_scalars c) = cf_token c"
  by (simp_all add: default_scalars_def default_port_def default_host_def default_profile_open_def Let_def)

lemma defaults_result:
  assumes "apply_defaults env c = (None, d)"
  shows "cf_host d \<noteq> []" "cf_port d \<noteq> 0" "cf_profile_open d \<noteq> []" "cf_db_path d \<noteq> []" "cf_log_path d \<noteq> []"
    "cf_token d = cf_token c"
proof -
  have n: "path_join [sd, ''broker.db''] \<noteq> []" "path_join [sd, ''broker.log''] \<noteq> []" for sd
    by (simp_all add: path_join_nonempty)
  show "cf_host d \<noteq> []" "cf_port d \<noteq> 0" "cf_profile_open d \<noteq> []" "cf_db_path d \<noteq> []" "cf_log_path d \<noteq> []"
    "cf_token d = cf_token c"
    using assms default_scalars_set [of c] n unfolding apply_defaults_def Let_def by (auto split: if_splits sum.splits)
qed

lemma defaults_fixed:
  assumes "cf_host d \<noteq> []" "cf_port d \<noteq> 0" "cf_profile_open d \<noteq> []" "cf_db_path d \<noteq> []" "cf_log_path d \<noteq> []"
  shows "apply_defaults env d = (None, d)"
  using assms by (simp add: apply_defaults_def default_scalars_def Let_def)

lemma unmarshal_marshal [simp]: "unmarshal (marshal c) d = c"
  by (simp add: unmarshal_def marshal_def)

lemma bootstrap_result:
  assumes "bootstrap env rnd mkdir_ok wr path fs = (Inr c, fs')"
  shows "fs' = fs(path := Json (marshal c))" "validate c = None" "apply_defaults env2 c = (None, c)"
    "\<exists>bs. rnd = Some bs \<and> cf_token c = hex_encode bs"
proof -
  from assms obtain tok d where t: "generate_token rnd = Inr tok"
    "apply_defaults env ((default_config env)\<lparr>cf_token := tok\<rparr>) = (None, d)" "validate d = None"
    "save mkdir_ok wr path d fs = (None, fs')" "c = d"
    by (auto simp: bootstrap_def split: sum.splits prod.splits option.splits)
  from t(4,5) show "fs' = fs(path := Json (marshal c))"
    by (auto simp: save_def split: if_splits write_outcome.splits)
  from t show "validate c = None" by simp
  show "apply_defaults env2 c = (None, c)" using defaults_result [OF t(2)] t(5) by (simp add: defaults_fixed)
  from t(1) defaults_result(6) [OF t(2)] t(5) show "\<exists>bs. rnd = Some bs \<and> cf_token c = hex_encode bs"
    by (auto simp: generate_token_def split: option.splits)
qed

lemma load_saved:
  assumes "config_path env = Inr path" and "fs path = Json (marshal c)" and "validate c = None"
    and "apply_defaults env c = (None, c)"
  shows "load env rnd mkdir_ok wr fs = (Inr c, fs)"
  using assms by (simp add: load_def)

text \<open>
  C34: the first run's configuration survives a restart and is the one the command line uses.  If \<open>Load\<close>
  found no file and succeeded, it has written one; loading again, under any outcome of the random source
  and the file system, returns the same configuration and writes nothing, and \<open>brokerctl\<close> reads the same
  host, port and token from it.  The token is the random bytes in hex.
\<close>

theorem first_run_survives_restart:
  assumes "config_path env = Inr path" and "fs path = NoFile" and "load env rnd mkdir_ok wr fs = (Inr c, fs')"
  shows "load env rnd' mkdir_ok' wr' fs' = (Inr c, fs') \<and>
    load_config env [] fs' = Inr \<lparr>cc_host = cf_host c, cc_port = cf_port c, cc_token = cf_token c\<rparr> \<and>
    (\<exists>bs. rnd = Some bs \<and> cf_token c = hex_encode bs)"
proof -
  from assms have b: "bootstrap env rnd mkdir_ok wr path fs = (Inr c, fs')" by (simp add: load_def)
  note r = bootstrap_result [OF b]
  from r(1) have f: "fs' path = Json (marshal c)" by simp
  from r(2) have "cf_port c \<noteq> 0" "cf_token c \<noteq> []" by (auto simp: validate_def split: if_splits)
  with f assms(1) have "load_config env [] fs' = Inr \<lparr>cc_host = cf_host c, cc_port = cf_port c, cc_token = cf_token c\<rparr>"
    by (simp add: load_config_def resolve_config_path_def marshal_def Let_def)
  with load_saved [where fs = fs' and path = path, OF assms(1) f r(2) r(3)] r(4) show ?thesis by simp
qed

definition home_env :: environment where
  "home_env = \<lparr>en_config = [], en_xdg_config = [], en_xdg_state = [], en_home = Some ''/h''\<rparr>"

definition home_path :: string where "home_path = ''/h/.config/bazel-broker/config.json''"

lemma home_config_path: "config_path home_env = Inr home_path"
  by (simp add: config_path_def config_dir_def home_env_def home_path_def app_dir_def cfg_name_def path_join_def
      path_clean_def clean_step_def)

lemma home_state_dir: "state_dir home_env = Inr ''/h/.local/state/bazel-broker''"
  by (simp add: state_dir_def home_env_def app_dir_def path_join_def path_clean_def clean_step_def)

definition home_config :: "string \<Rightarrow> config" where
  "home_config tok = \<lparr>cf_host = default_host, cf_port = default_port, cf_token = tok, cf_profile_open = default_profile_open,
     cf_disk_cache = [], cf_max_concurrency = 0, cf_db_path = ''/h/.local/state/bazel-broker/broker.db'',
     cf_log_path = ''/h/.local/state/bazel-broker/broker.log''\<rparr>"

lemma home_defaults: "apply_defaults home_env ((default_config home_env)\<lparr>cf_token := tok\<rparr>) = (None, home_config tok)"
proof -
  have "default_config home_env = home_config []"
    by (simp add: default_config_def apply_defaults_def default_scalars_def empty_config_def home_state_dir
        home_config_def path_join_def path_clean_def clean_step_def)
  moreover have "apply_defaults home_env (home_config tok) = (None, home_config tok)"
    by (rule defaults_fixed) (simp_all add: home_config_def default_host_def default_port_def default_profile_open_def)
  ultimately show ?thesis by (simp add: home_config_def)
qed

lemma home_valid: "tok \<noteq> [] \<Longrightarrow> validate (home_config tok) = None"
  by (simp add: validate_def home_config_def default_port_def)

theorem first_run_survives_restart_witness:
  "\<exists>fs'. load home_env (Some [171, 5]) True WriteOk (\<lambda>_. NoFile) = (Inr (home_config ''ab05''), fs') \<and>
     load home_env None False WriteCut fs' = (Inr (home_config ''ab05''), fs')"
proof -
  have tok: "hex_encode [171, 5] = ''ab05''" by (simp add: hex_encode_def hex_digit_def) code_simp
  obtain fs' where l: "load home_env (Some [171, 5]) True WriteOk (\<lambda>_. NoFile) = (Inr (home_config ''ab05''), fs')"
    by (simp add: load_def home_config_path bootstrap_def generate_token_def tok home_defaults home_valid save_def)
  from first_run_survives_restart [OF home_config_path _ l, of None False WriteCut] l show ?thesis by simp
qed

text \<open>
  Daemon and command line disagree on a file without a port.  The daemon fills the port in and
  starts; \<open>brokerctl\<close> calls the same file incomplete, and the flags that override the port do not help, as
  the file is checked before them.
\<close>

theorem port_default_not_shared:
  "\<exists>fs c. load home_env None True WriteOk fs = (Inr c, fs) \<and> cf_port c = default_port \<and> cf_token c = ''t'' \<and>
     load_config home_env [] fs = Inl (CliIncomplete home_path)"
proof -
  let ?j = "(marshal (home_config ''t''))\<lparr>cj_port := None\<rparr>"
  let ?fs = "(\<lambda>_. NoFile)(home_path := Json ?j)"
  have "default_config home_env = home_config []" using home_defaults [of "[]"]
    by (simp add: default_config_def apply_defaults_def default_scalars_def empty_config_def home_state_dir
        home_config_def path_join_def path_clean_def clean_step_def)
  then have "unmarshal ?j (default_config home_env) = home_config ''t''"
    by (simp add: unmarshal_def marshal_def home_config_def)
  moreover have "apply_defaults home_env (home_config ''t'') = (None, home_config ''t'')"
    by (rule defaults_fixed) (simp_all add: home_config_def default_host_def default_port_def default_profile_open_def)
  ultimately have "load home_env None True WriteOk ?fs = (Inr (home_config ''t''), ?fs)"
    using home_valid [of "''t''"] by (simp add: load_def home_config_path)
  moreover have "load_config home_env [] ?fs = Inl (CliIncomplete home_path)"
    by (simp add: load_config_def resolve_config_path_def home_config_path marshal_def)
  ultimately show ?thesis by (metis (no_types, lifting) config.select_convs(2,3) home_config_def)
qed

text \<open>
  A first run that is cut off while it writes its configuration stops every later one.  The file is
  there but does not parse, \<open>Load\<close> does not bootstrap again, and no retry gets past it.
\<close>

theorem cut_bootstrap_sticks:
  "\<exists>fs. load home_env (Some [171, 5]) True WriteCut (\<lambda>_. NoFile) = (Inl (WriteFailed home_path), fs) \<and>
     (\<forall>rnd mk wr. load home_env rnd mk wr fs = (Inl (ParseFailed home_path), fs))"
proof -
  have "hex_encode [171, 5] \<noteq> []" by (simp add: hex_encode_def)
  then show ?thesis
    by (simp add: load_def home_config_path bootstrap_def generate_token_def home_defaults home_valid save_def)
qed

end
