(* ===== verification/Api_Client.thy ===== *)
theory Api_Client
  imports Http_Props Daemon_Config
begin

text \<open>
  The typed client of the broker (\<open>internal/apiclient/apiclient.go\<close>): base URLs, the request every
  method sends, and the errors it turns replies into.

  What the libraries make of a call is a value: the body could not be encoded, the request could not be
  built (a path that is no URL), the connection failed, or an answer came whose body
  decodes as an error document or not and, where a result is expected, as the result or not.  The
  error document is taken from the first 4096 bytes of the body.
\<close>

section \<open>Client and errors\<close>

record client =
  ac_base :: string
  ac_ws_base :: string
  ac_token :: string

definition join_host_port :: "string \<Rightarrow> string \<Rightarrow> string" where
  "join_host_port host port = (if CHR '':'' \<in> set host then ''['' @ host @ '']:'' @ port else host @ '':'' @ port)"

definition new_client :: "string \<Rightarrow> int \<Rightarrow> string \<Rightarrow> client" where
  "new_client host port token =
     (let h = (if host = [] then ''127.0.0.1'' else host); authority = join_host_port h (itoa port)
      in \<lparr>ac_base = ''http://'' @ authority, ac_ws_base = ''ws://'' @ authority, ac_token = token\<rparr>)"

record status_error =
  se_method :: string
  se_path :: string
  se_status :: nat
  se_code :: string
  se_message :: string
  se_epic :: string

definition se_detail :: "status_error \<Rightarrow> string" where
  "se_detail e =
     (let detail = (if se_message e = [] then se_code e else se_message e)
      in if se_epic e \<noteq> [] \<and> \<not> str_contains detail (se_epic e)
         then trim_space (detail @ '' (owner '' @ se_epic e @ '')'') else detail)"

definition se_error :: "status_error \<Rightarrow> string" where
  "se_error e =
     (let d = se_detail e; pre = se_method e @ '' '' @ se_path e @ '': HTTP '' @ itoa (int (se_status e))
      in if d \<noteq> [] then pre @ '': '' @ d else pre)"

datatype client_error =
    StatusErr status_error
  | TransportErr string string string
  | DecodeErr string string string
  | MarshalErr string string string
  | RequestErr string string string

definition te_error :: "string \<Rightarrow> string \<Rightarrow> string \<Rightarrow> string" where
  "te_error meth path err = meth @ '' '' @ path @ '': broker unreachable: '' @ err"

fun client_error_text :: "client_error \<Rightarrow> string" where
  "client_error_text (StatusErr e) = se_error e"
| "client_error_text (TransportErr m p err) = te_error m p err"
| "client_error_text (DecodeErr m p err) = ''decode '' @ m @ '' '' @ p @ '' response: '' @ err"
| "client_error_text (MarshalErr m p err) = ''marshal '' @ m @ '' '' @ p @ '' body: '' @ err"
| "client_error_text (RequestErr m p err) = ''build '' @ m @ '' '' @ p @ '' request: '' @ err"

section \<open>A call\<close>

record 'a answer =
  an_status :: nat
  an_error :: "error_response option"
  an_raw :: string
  an_result :: "string + 'a"

datatype 'a wire = BodyRefused string | RequestRefused string | Unreachable string | Answered "'a answer"

definition new_status_error :: "string \<Rightarrow> string \<Rightarrow> 'a answer \<Rightarrow> status_error" where
  "new_status_error meth path a =
     (let (code, msg, epic) = (case an_error a of None \<Rightarrow> ([], [], []) | Some e \<Rightarrow> (er_error e, er_message e, er_epic e));
          msg' = (if code = [] \<and> msg = [] then trim_space (an_raw a) else msg)
      in \<lparr>se_method = meth, se_path = path, se_status = an_status a, se_code = code, se_message = msg', se_epic = epic\<rparr>)"

text \<open>\<open>wants\<close> says whether the caller passed a place for the result.\<close>

definition client_do :: "bool \<Rightarrow> string \<Rightarrow> string \<Rightarrow> 'a wire \<Rightarrow> client_error + 'a option" where
  "client_do wants meth path w =
     (case w of
        BodyRefused err \<Rightarrow> Inl (MarshalErr meth path err)
      | RequestRefused err \<Rightarrow> Inl (RequestErr meth path err)
      | Unreachable err \<Rightarrow> Inl (TransportErr meth path err)
      | Answered a \<Rightarrow>
          if 400 \<le> an_status a then Inl (StatusErr (new_status_error meth path a))
          else if wants
          then (case an_result a of Inl err \<Rightarrow> Inl (DecodeErr meth path err) | Inr v \<Rightarrow> Inr (Some v))
          else Inr None)"

section \<open>The typed methods\<close>

datatype api_call = CallHealthz | CallListBuilds | CallGetBuild string | CallKill string | CallDrain | CallPause
  | CallResume | CallProfile string | CallEvents

fun call_method :: "api_call \<Rightarrow> string" where
  "call_method (CallKill i) = ''POST''"
| "call_method CallDrain = ''POST''"
| "call_method CallPause = ''POST''"
| "call_method CallResume = ''POST''"
| "call_method _ = ''GET''"

fun call_path :: "api_call \<Rightarrow> string" where
  "call_path CallHealthz = ''/healthz''"
| "call_path CallListBuilds = ''/builds''"
| "call_path (CallGetBuild i) = ''/builds/'' @ i"
| "call_path (CallKill i) = ''/builds/'' @ i @ ''/kill''"
| "call_path CallDrain = ''/admission/drain''"
| "call_path CallPause = ''/admission/pause''"
| "call_path CallResume = ''/admission/resume''"
| "call_path (CallProfile i) = ''/builds/'' @ i @ ''/profile''"
| "call_path CallEvents = ''/events''"

fun call_wants :: "api_call \<Rightarrow> bool" where
  "call_wants CallDrain = False"
| "call_wants CallPause = False"
| "call_wants CallResume = False"
| "call_wants _ = True"

definition client_call :: "api_call \<Rightarrow> 'a wire \<Rightarrow> client_error + 'a option" where
  "client_call c w = client_do (call_wants c) (call_method c) (call_path c) w"

text \<open>
  The request as it arrives at the broker: no body, the bearer header, the path as written; the dial of the
  event stream carries the upgrade the server accepts.
\<close>

definition call_request :: "client \<Rightarrow> api_call \<Rightarrow> http_request" where
  "call_request cl c =
     \<lparr>rq_method = call_method c, rq_escaped = call_path c, rq_auth = ''Bearer '' @ ac_token cl, rq_origin = [],
      rq_query = (\<lambda>_. []), rq_register = None, rq_deregister = None, rq_admit = None, rq_release = [],
      rq_kill = (False, False), rq_upgrade = None\<rparr>"

text \<open>
  \<open>StreamEvents\<close>: the dial answers with the upgrade, with another status, or not at all, for whatever reason.
\<close>

definition stream_events :: "'a wire \<Rightarrow> client_error option" where
  "stream_events w =
     (case w of
        Answered a \<Rightarrow>
          if an_status a = 101 then None
          else if 400 \<le> an_status a then Some (StatusErr (new_status_error ''GET'' ''/events'' a))
          else Some (TransportErr ''GET'' ''/events'' (an_raw a))
      | BodyRefused err \<Rightarrow> Some (TransportErr ''GET'' ''/events'' err)
      | RequestRefused err \<Rightarrow> Some (TransportErr ''GET'' ''/events'' err)
      | Unreachable err \<Rightarrow> Some (TransportErr ''GET'' ''/events'' err))"

section \<open>Client and server\<close>

text \<open>The route each method is meant for, with the wildcards it fills.\<close>

fun call_route :: "api_call \<Rightarrow> route_kind \<times> string list" where
  "call_route CallHealthz = (RtHealthz, [])"
| "call_route CallListBuilds = (RtListBuilds, [])"
| "call_route (CallGetBuild i) = (RtGetBuild, [i])"
| "call_route (CallKill i) = (RtKillBuild, [i])"
| "call_route CallDrain = (RtDrain, [])"
| "call_route CallPause = (RtPause, [])"
| "call_route CallResume = (RtResume, [])"
| "call_route (CallProfile i) = (RtProfileOfBuild, [i])"
| "call_route CallEvents = (RtEvents, [])"

fun call_id :: "api_call \<Rightarrow> string option" where
  "call_id (CallGetBuild i) = Some i"
| "call_id (CallKill i) = Some i"
| "call_id (CallProfile i) = Some i"
| "call_id _ = None"

fun call_segs :: "api_call \<Rightarrow> string list" where
  "call_segs CallHealthz = [''healthz'']"
| "call_segs CallListBuilds = [''builds'']"
| "call_segs (CallGetBuild i) = [''builds'', i]"
| "call_segs (CallKill i) = [''builds'', i, ''kill'']"
| "call_segs CallDrain = [''admission'', ''drain'']"
| "call_segs CallPause = [''admission'', ''pause'']"
| "call_segs CallResume = [''admission'', ''resume'']"
| "call_segs (CallProfile i) = [''builds'', i, ''profile'']"
| "call_segs CallEvents = [''events'']"

lemma call_path_segs: "call_path c = abs_path (call_segs c)"
  by (cases c) (simp_all add: abs_path_def)

lemma call_segs_plain: "(\<And>i. call_id c = Some i \<Longrightarrow> plain_id i) \<Longrightarrow> \<forall>s\<in>set (call_segs c). plain_id s"
  by (cases c) (auto simp: plain_id_def comp_ok_def)

lemma call_found:
  assumes "\<And>i. call_id c = Some i \<Longrightarrow> plain_id i"
  shows "find_handler (call_method c) (call_path c) = (case call_route c of (k, as) \<Rightarrow> Found k as)"
proof -
  have ne: "call_segs c \<noteq> []" "call_method c \<noteq> ''CONNECT''" by (cases c; simp)+
  have i: "call_id c = Some i \<Longrightarrow> i \<noteq> []" for i using assms by (auto simp: plain_id_def comp_ok_def)
  have "\<exists>rest. List.map_filter (match_route (call_method c) (call_segs c)) routes = call_route c # rest"
    using i by (cases c) (simp_all add: routes_def map_filter_def match_route_def method_matches_def)
  then obtain k as rest where "List.map_filter (match_route (call_method c) (call_segs c)) routes = (k, as) # rest"
    "call_route c = (k, as)" by (metis prod.collapse)
  from find_plain [OF call_segs_plain [OF assms] ne this(1)] this(2) show ?thesis by (simp add: call_path_segs)
qed

end
