(* ===== verification/Events_Stream.thy ===== *)
theory Events_Stream
  imports Registry_Sync
begin

text \<open>
  The event stream of \<open>GET /events\<close> (\<open>internal/httpapi/events.go\<close>): one snapshot frame, then the events
  of a subscription, numbered per connection, with pings between them.

  A connection is a step function over what its \<open>select\<close> wakes up to; whether a write or a ping reaches
  the client is part of the step.  The frames sent are kept in order.
\<close>

section \<open>A connection\<close>

definition ping_interval :: duration where "ping_interval = 30 * second"

datatype conn_end = WriteFailure | SlowConsumer | PingFailure | ContextDone

record 'm conn =
  cn_sub :: nat
  cn_seq :: nat
  cn_frames :: "'m event list"
  cn_end :: "conn_end option"

definition snapshot_frame :: "gotime \<Rightarrow> 'm registry \<Rightarrow> 'm event" where
  "snapshot_frame now rg =
     \<lparr>ev_type = EventSnapshot, ev_seq = 0, ev_build = None, ev_builds = snapshot_api now rg, ev_ts = format_time now,
      ev_metrics = None, ev_alert = None\<rparr>"

text \<open>
  The handler takes the snapshot and writes it, and only then subscribes: \<open>open_conn\<close> is the first part,
  \<open>subscribe_conn\<close> the second, on the registry as it is by then.
\<close>

definition open_conn :: "bool \<Rightarrow> gotime \<Rightarrow> 'm registry \<Rightarrow> 'm conn" where
  "open_conn ok now rg =
     (if ok then \<lparr>cn_sub = 0, cn_seq = 0, cn_frames = [snapshot_frame now rg], cn_end = None\<rparr>
      else \<lparr>cn_sub = 0, cn_seq = 0, cn_frames = [], cn_end = Some WriteFailure\<rparr>)"

definition subscribe_conn :: "'m conn \<Rightarrow> 'm registry \<Rightarrow> 'm conn \<times> 'm registry" where
  "subscribe_conn c rg =
     (case rg_hub rg of
        None \<Rightarrow> (c, rg)
      | Some h \<Rightarrow> if cn_end c \<noteq> None then (c, rg)
                  else (c\<lparr>cn_sub := fst (subscribe h)\<rparr>, rg\<lparr>rg_hub := Some (snd (subscribe h))\<rparr>))"

definition unsubscribe_conn :: "'m conn \<Rightarrow> 'm registry \<Rightarrow> 'm registry" where
  "unsubscribe_conn c rg =
     (case rg_hub rg of None \<Rightarrow> rg | Some h \<Rightarrow> rg\<lparr>rg_hub := Some (drop_sub (cn_sub c) h)\<rparr>)"

text \<open>What the \<open>select\<close> of the loop takes: \<open>WakeEvent\<close> and \<open>WakeTick\<close> carry whether the write succeeds.\<close>

datatype wake = WakeDone | WakeEvent bool | WakeTick bool

text \<open>Leaving the handler unsubscribes, by the deferred call.\<close>

definition end_conn :: "conn_end \<Rightarrow> 'm conn \<Rightarrow> 'm registry \<Rightarrow> 'm conn \<times> 'm registry" where
  "end_conn r c rg = (c\<lparr>cn_end := Some r\<rparr>, unsubscribe_conn c rg)"

definition conn_step :: "wake \<Rightarrow> 'm conn \<Rightarrow> 'm registry \<Rightarrow> 'm conn \<times> 'm registry" where
  "conn_step w c rg =
     (if cn_end c \<noteq> None then (c, rg)
      else case w of
        WakeDone \<Rightarrow> end_conn ContextDone c rg
      | WakeTick ok \<Rightarrow> if ok then (c, rg) else end_conn PingFailure c rg
      | WakeEvent ok \<Rightarrow>
          (case rg_hub rg of
             None \<Rightarrow> (c, rg)
           | Some h \<Rightarrow>
               (case receive (cn_sub c) h of
                  None \<Rightarrow> if sb_closed (chans h (cn_sub c)) then end_conn SlowConsumer c rg else (c, rg)
                | Some (ev, h') \<Rightarrow>
                    let rg' = rg\<lparr>rg_hub := Some h'\<rparr>; c' = c\<lparr>cn_seq := Suc (cn_seq c)\<rparr>
                    in if ok then (c'\<lparr>cn_frames := cn_frames c @ [ev\<lparr>ev_seq := Suc (cn_seq c)\<rparr>]\<rparr>, rg')
                       else end_conn WriteFailure c' rg')))"

text \<open>Registry operations, other publications and the steps of the connection, in any order.\<close>

datatype 'm act = ActOp bool reg_op | ActSend "'m event" gotime | ActConn wake

fun act_step :: "'m act \<Rightarrow> 'm conn \<times> 'm registry \<Rightarrow> 'm conn \<times> 'm registry" where
  "act_step (ActOp ok a) (c, rg) = (c, reg_apply ok a rg)"
| "act_step (ActSend ev now) (c, rg) = (c, rg_broadcast ev now rg)"
| "act_step (ActConn w) (c, rg) = conn_step w c rg"

definition acts_run :: "'m act list \<Rightarrow> 'm conn \<times> 'm registry \<Rightarrow> 'm conn \<times> 'm registry" where
  "acts_run acts s = foldl (\<lambda>s a. act_step a s) s acts"

text \<open>A connection opened with nothing happening between the snapshot and the subscription.\<close>

definition connect :: "gotime \<Rightarrow> 'm registry \<Rightarrow> 'm conn \<times> 'm registry" where
  "connect now rg = subscribe_conn (open_conn True now rg) rg"

section \<open>The watching client\<close>

text \<open>
  \<open>applyEvent\<close> of \<open>internal/cli/watch.go\<close>; the map is an association list whose order is that of one
  iteration.
\<close>

type_synonym watch_state = "(string \<times> api_build) list"

definition apply_event :: "'m event \<Rightarrow> watch_state \<Rightarrow> watch_state" where
  "apply_event ev st =
     (if ev_type ev = EventSnapshot then foldl (\<lambda>m b. AList.update (a_id b) b m) [] (ev_builds ev)
      else if ev_type ev = EventBuild
      then (case ev_build ev of None \<Rightarrow> st | Some b \<Rightarrow> AList.update (a_id b) b st)
      else st)"

definition watch_frames :: "'m event list \<Rightarrow> watch_state" where
  "watch_frames evs = foldl (\<lambda>st ev. apply_event ev st) [] evs"

lemma watch_frames_snoc [simp]: "watch_frames (evs @ [ev]) = apply_event ev (watch_frames evs)"
  by (simp add: watch_frames_def)

section \<open>What the client sees\<close>

text \<open>The elapsed time of a running build changes with the clock and is left out of the comparison.\<close>

definition unclocked :: "api_build \<Rightarrow> api_build" where
  "unclocked a = a\<lparr>a_elapsed := 0\<rparr>"

definition client_view :: "watch_state \<Rightarrow> string \<Rightarrow> api_build option" where
  "client_view st = (\<lambda>i. map_option unclocked (map_of st i))"

definition registry_view :: "builds \<Rightarrow> string \<Rightarrow> api_build option" where
  "registry_view bs = (\<lambda>i. map_option (\<lambda>b. unclocked (to_api b time_zero)) (map_of bs i))"

definition set_view :: "(string \<Rightarrow> api_build option) \<Rightarrow> build \<Rightarrow> string \<Rightarrow> api_build option" where
  "set_view m b = m(b_id b \<mapsto> unclocked (to_api b time_zero))"

lemma unclocked_state [simp]: "a_state (unclocked a) = a_state a"
  by (simp add: unclocked_def)

lemma unclocked_to_api: "unclocked (to_api b t) = unclocked (to_api b u)"
  by (simp add: unclocked_def to_api_def)

lemma apply_build [simp]: "client_view (apply_event (build_event n b now) st) = set_view (client_view st) b"
  by (auto simp: apply_event_def build_event_def client_view_def set_view_def update_conv' fun_eq_iff
      intro: unclocked_to_api)

lemma apply_renumbered [simp]: "apply_event (ev\<lparr>ev_seq := n, ev_ts := t\<rparr>) = apply_event ev"
  "apply_event (ev\<lparr>ev_seq := n\<rparr>) = apply_event ev"
  by (simp_all add: apply_event_def fun_eq_iff)

lemma view_writes:
  "map_of bs' = map_of bs ++ map_of (rev (writes ws)) \<Longrightarrow> registry_view bs' = foldl set_view (registry_view bs) ws"
proof (induction ws arbitrary: bs' rule: rev_induct)
  case (snoc w ws)
  let ?bs = "rev (writes ws) @ bs"
  have "registry_view ?bs = foldl set_view (registry_view bs) ws"
    by (rule snoc.IH) (simp add: map_of_append)
  moreover have "registry_view bs' = set_view (registry_view ?bs) w"
    using snoc.prems by (auto simp: set_view_def registry_view_def writes_def fun_eq_iff map_add_def)
  ultimately show ?case by (simp only: foldl_append foldl.simps)
qed (simp add: registry_view_def writes_def)

lemma map_of_updates:
  "map_of (foldl (\<lambda>m b. AList.update (a_id b) b m) m bs) = map_of m ++ map_of (rev (map (\<lambda>b. (a_id b, b)) bs))"
  by (induction bs arbitrary: m) (simp_all add: update_conv' map_add_def fun_eq_iff split: option.split)

lemma snapshot_table:
  assumes "keyed (rg_builds rg)"
  shows "map_of (rev (map (\<lambda>b. (a_id b, b)) (snapshot_api now rg))) = map_of (map (\<lambda>(i, b). (i, to_api b now)) (rg_builds rg))"
    (is "map_of ?xs = map_of ?ys")
proof -
  let ?L = "map (\<lambda>(i, b). to_api b now) (rg_builds rg)"
  from assms have d: "distinct (map fst (rg_builds rg))" and id: "\<And>p. p \<in> set (rg_builds rg) \<Longrightarrow> b_id (snd p) = fst p"
    by (auto simp: keyed_def)
  have l: "map (\<lambda>b. (a_id b, b)) ?L = ?ys" using id by (simp add: case_prod_unfold)
  have "mset (snapshot_api now rg) = mset ?L" by (simp only: snapshot_api_def mset_rev mset_sort)
  then have m: "mset ?xs = mset (map (\<lambda>b. (a_id b, b)) ?L)" by (simp only: mset_rev mset_map)
  note m = m [unfolded l]
  have f: "map fst ?ys = map fst (rg_builds rg)" by (rule nth_equalityI) (simp_all add: case_prod_unfold)
  then have dy: "distinct (map fst ?ys)" using d by argo
  have e: "mset (map fst ?xs) = mset (map fst ?ys)" unfolding mset_map m ..
  have dx: "distinct (map fst ?xs)" using dy mset_eq_imp_distinct_iff [OF e] by iprover
  from map_of_inject_set [OF dx dy] mset_eq_setD [OF m] show ?thesis by simp
qed

lemma snapshot_view:
  assumes "keyed (rg_builds rg)"
  shows "client_view (watch_frames [snapshot_frame now rg]) = registry_view (rg_builds rg)"
proof
  fix i
  have "watch_frames [snapshot_frame now rg] = foldl (\<lambda>m b. AList.update (a_id b) b m) [] (snapshot_api now rg)"
    by (simp add: watch_frames_def apply_event_def snapshot_frame_def)
  then have "map_of (watch_frames [snapshot_frame now rg]) i = map_option (\<lambda>b. to_api b now) (map_of (rg_builds rg) i)"
    by (simp add: map_of_updates snapshot_table [OF assms] map_of_map)
  then show "client_view (watch_frames [snapshot_frame now rg]) i = registry_view (rg_builds rg) i"
    using unclocked_to_api [of _ now time_zero] by (simp add: client_view_def registry_view_def option.map_comp comp_def)
qed

section \<open>The connection keeps the client in step\<close>

definition pending_view :: "'m conn \<Rightarrow> 'm registry \<Rightarrow> string \<Rightarrow> api_build option" where
  "pending_view c rg = client_view (foldl (\<lambda>st ev. apply_event ev st) (watch_frames (cn_frames c)) (buffer_of (cn_sub c) rg))"

definition closed_sub :: "nat \<Rightarrow> 'm registry \<Rightarrow> bool" where
  "closed_sub s rg \<longleftrightarrow> (case rg_hub rg of None \<Rightarrow> False | Some h \<Rightarrow> sb_closed (chans h s))"

definition conn_inv :: "'m conn \<Rightarrow> 'm registry \<Rightarrow> bool" where
  "conn_inv c rg \<longleftrightarrow> keyed (rg_builds rg) \<and> hub_ok rg \<and> map ev_seq (cn_frames c) = [0..<length (cn_frames c)] \<and>
     (cn_end c = None \<longrightarrow> length (cn_frames c) = Suc (cn_seq c) \<and> (attached (cn_sub c) rg \<or> closed_sub (cn_sub c) rg) \<and>
        (attached (cn_sub c) rg \<longrightarrow> pending_view c rg = registry_view (rg_builds rg)))"

lemma broadcast_other:
  assumes "hub_wf h" and "s \<in> set (subs h) \<or> sb_closed (chans h s)"
  shows "s \<in> set (subs (broadcast ev h)) \<or> sb_closed (chans (broadcast ev h) s)"
  using assms(2) broadcast_loop_result [of "subs h" h ev] assms(1)
  by (auto simp: hub_wf_def broadcast_def)

lemma hub_publish:
  assumes "hub_ok rg" and "rg_hub rg = Some h" and "rg_hub rg' = Some (broadcast ev h)"
  shows "hub_ok rg'" and "attached s rg \<or> closed_sub s rg \<Longrightarrow> attached s rg' \<or> closed_sub s rg'"
    and "attached s rg' \<Longrightarrow> attached s rg \<and> buffer_of s rg' = buffer_of s rg @ [ev]"
proof -
  from assms(1,2) have wf: "hub_wf h" by (simp add: hub_ok_def)
  show "hub_ok rg'" using hub_wf_broadcast [OF wf] assms(3) by (simp add: hub_ok_def)
  show "attached s rg' \<or> closed_sub s rg'" if "attached s rg \<or> closed_sub s rg"
    using that broadcast_other [OF wf, of s ev] assms(2,3) by (simp add: attached_def closed_sub_def)
  show "attached s rg \<and> buffer_of s rg' = buffer_of s rg @ [ev]" if "attached s rg'"
    using that broadcast_attached [OF wf, of s ev] assms(2,3) by (simp add: attached_def buffer_of_def)
qed

text \<open>A publication appends to the buffer of a subscriber that stays attached.\<close>

lemma publish_all_buffer:
  assumes "hub_ok rg"
  shows "hub_ok (publish_all ok now ws rg) \<and>
    (attached s rg \<or> closed_sub s rg \<longrightarrow> attached s (publish_all ok now ws rg) \<or> closed_sub s (publish_all ok now ws rg)) \<and>
    (attached s (publish_all ok now ws rg) \<longrightarrow> attached s rg \<and>
       client_view (foldl (\<lambda>st ev. apply_event ev st) st (buffer_of s (publish_all ok now ws rg))) =
       foldl set_view (client_view (foldl (\<lambda>st ev. apply_event ev st) st (buffer_of s rg))) ws)"
  using assms
proof (induction ws arbitrary: rg)
  case (Cons w ws)
  let ?rg = "publish ok now w rg"
  have p: "publish_all ok now (w # ws) rg = publish_all ok now ws ?rg" by (simp add: publish_all_def)
  show ?case
  proof (cases "rg_hub rg")
    case None
    then have "rg_hub ?rg = None" by (simp add: publish_def broadcast_build_def)
    then have "hub_ok ?rg" "\<not> attached s ?rg" "\<not> closed_sub s ?rg" "\<not> attached s rg" "\<not> closed_sub s rg"
      using None by (simp_all add: hub_ok_def attached_def closed_sub_def)
    with Cons.IH [of ?rg] show ?thesis unfolding p by auto
  next
    case (Some h)
    let ?ev = "build_event (Suc (rg_seq (persist ok w rg))) w now"
    have h: "rg_hub ?rg = Some (broadcast ?ev h)" using Some by (simp add: publish_def broadcast_build_def)
    note k = hub_publish [OF Cons.prems Some h]
    from Cons.IH [OF k(1)] k(2) [of s] k(3) [of s] show ?thesis unfolding p by auto
  qed
qed (simp add: publish_all_def)

lemma inv_op: assumes "conn_inv c rg" shows "conn_inv c (reg_apply ok a rg)"
proof -
  from assms have k: "keyed (rg_builds rg)" and h: "hub_ok rg" by (simp_all add: conn_inv_def)
  obtain ws bs where o: "op_core a (rg_builds rg) = (ws, bs)" by fastforce
  let ?rg = "rg\<lparr>rg_builds := bs\<rparr>"
  have e: "reg_apply ok a rg = publish_all ok (op_time a) ws ?rg" by (simp add: reg_apply_core o)
  have cl: "closed_sub s ?rg = closed_sub s rg" for s by (simp add: closed_sub_def)
  from core_writes [OF k o] have w: "map_of bs = map_of (rg_builds rg) ++ map_of (rev (writes ws))" and kb: "keyed bs"
    by simp_all
  show ?thesis
    using assms kb h view_writes [OF w] cl
      publish_all_buffer [of ?rg ok "op_time a" ws "cn_sub c" "watch_frames (cn_frames c)"]
    unfolding e conn_inv_def pending_view_def by auto
qed

text \<open>The publications that are not about builds: metrics and alerts.\<close>

definition side_event :: "'m event \<Rightarrow> bool" where
  "side_event ev \<longleftrightarrow> ev_type ev \<in> {EventMetrics, EventAlert}"

lemma inv_send:
  assumes "conn_inv c rg" and "side_event ev" shows "conn_inv c (rg_broadcast ev now rg)"
proof (cases "rg_hub rg")
  case None
  with assms(1) show ?thesis by (simp add: rg_broadcast_def)
next
  case (Some h)
  let ?rg = "rg_broadcast ev now rg"
  obtain ev' where ev': "rg_hub ?rg = Some (broadcast ev' h)" "apply_event ev' = id"
    using Some assms(2) by (auto simp: rg_broadcast_def Let_def side_event_def apply_event_def fun_eq_iff)
  have b: "rg_builds ?rg = rg_builds rg" by (simp add: rg_broadcast_def Let_def split: option.split)
  from assms(1) have "hub_ok rg" by (simp add: conn_inv_def)
  note k = hub_publish [OF this Some ev'(1)]
  from assms(1) k(1) k(2) [of "cn_sub c"] k(3) [of "cn_sub c"] ev'(2) show ?thesis
    unfolding conn_inv_def pending_view_def b by auto
qed

lemma inv_end: "conn_inv c rg \<Longrightarrow> conn_inv (fst (end_conn r c rg)) (snd (end_conn r c rg))"
  by (auto simp: conn_inv_def end_conn_def unsubscribe_conn_def hub_ok_def hub_wf_drop split: option.split)

lemma inv_conn: assumes "conn_inv c rg" shows "conn_inv (fst (conn_step w c rg)) (snd (conn_step w c rg))"
proof (cases "cn_end c = None \<and> (\<exists>ok. w = WakeEvent ok)")
  case False
  with assms inv_end [OF assms] show ?thesis by (cases w) (auto simp: conn_step_def)
next
  case True
  then obtain ok where w: "w = WakeEvent ok" and n: "cn_end c = None" by auto
  show ?thesis
  proof (cases "rg_hub rg")
    case (Some h)
    show ?thesis
    proof (cases "receive (cn_sub c) h")
      case None
      with Some assms inv_end [OF assms] w n show ?thesis by (auto simp: conn_step_def)
    next
      case (Some r)
      then obtain ev h' where r: "receive (cn_sub c) h = Some (ev, h')" by (cases r) auto
      then have b: "sb_buf (chans h (cn_sub c)) = ev # sb_buf (chans h' (cn_sub c))" "subs h' = subs h"
        "sb_closed (chans h' (cn_sub c)) = sb_closed (chans h (cn_sub c))"
        by (auto simp: receive_def split: list.splits)
      let ?rg = "rg\<lparr>rg_hub := Some h'\<rparr>" and ?c = "c\<lparr>cn_seq := Suc (cn_seq c)\<rparr>"
      let ?c' = "?c\<lparr>cn_frames := cn_frames c @ [ev\<lparr>ev_seq := Suc (cn_seq c)\<rparr>]\<rparr>"
      have wf: "hub_ok ?rg" using assms \<open>rg_hub rg = Some h\<close> hub_wf_receive [OF _ r] by (simp add: conn_inv_def hub_ok_def)
      have "conn_inv ?c' ?rg"
        using assms wf n b \<open>rg_hub rg = Some h\<close>
        by (auto simp: conn_inv_def attached_def closed_sub_def pending_view_def buffer_of_def)
      moreover have "conn_inv (fst (end_conn WriteFailure ?c ?rg)) (snd (end_conn WriteFailure ?c ?rg))"
        using assms wf by (auto simp: conn_inv_def end_conn_def unsubscribe_conn_def hub_ok_def hub_wf_drop)
      ultimately show ?thesis using w n r \<open>rg_hub rg = Some h\<close> by (simp add: conn_step_def Let_def)
    qed
  qed (use assms w n in \<open>simp add: conn_step_def\<close>)
qed

fun act_ok :: "'m act \<Rightarrow> bool" where
  "act_ok (ActSend ev now) = side_event ev"
| "act_ok _ = True"

lemma inv_step: "conn_inv (fst s) (snd s) \<Longrightarrow> act_ok a \<Longrightarrow> conn_inv (fst (act_step a s)) (snd (act_step a s))"
  by (cases s; cases a) (simp_all add: inv_op inv_send inv_conn)

lemma inv_acts:
  "conn_inv (fst s) (snd s) \<Longrightarrow> \<forall>a\<in>set acts. act_ok a \<Longrightarrow> conn_inv (fst (acts_run acts s)) (snd (acts_run acts s))"
proof (induction acts arbitrary: s)
  case (Cons a acts)
  from Cons.IH [OF inv_step [OF Cons.prems(1), of a]] Cons.prems(2) show ?case by (simp add: acts_run_def)
qed (simp add: acts_run_def)

lemma inv_subscribe:
  assumes "keyed (rg_builds rg)" and "rg_hub rg = Some h" and "hub_wf h"
    and "cn_end c = None" "cn_seq c = 0" "cn_frames c = [f]" "ev_seq f = 0"
    and "client_view (watch_frames [f]) = registry_view (rg_builds rg)"
  shows "conn_inv (fst (subscribe_conn c rg)) (snd (subscribe_conn c rg))"
proof -
  have "sb_buf (chans (snd (subscribe h)) (next_sub h)) = []" "next_sub h \<in> set (subs (snd (subscribe h)))"
    by (simp_all add: subscribe_def)
  then show ?thesis
    using assms hub_wf_subscribe [OF assms(3)]
    by (simp add: subscribe_conn_def conn_inv_def hub_ok_def attached_def pending_view_def buffer_of_def subscribe_def)
qed

lemma inv_connect:
  assumes "keyed (rg_builds rg)" and "rg_hub rg = Some h" and "hub_wf h"
  shows "conn_inv (fst (connect now rg)) (snd (connect now rg))"
  unfolding connect_def
  by (rule inv_subscribe [where f = "snapshot_frame now rg"])
    (use assms snapshot_view [OF assms(1)] in \<open>simp_all add: open_conn_def snapshot_frame_def\<close>)

text \<open>
  What \<open>brokerctl watch\<close> shows is what the registry holds.  A client that connects and folds the
  frames of its connection with \<open>applyEvent\<close> has, whenever its connection is alive and its buffer
  drained, the builds of the registry, whatever operations, metrics and alerts were interleaved with its
  reads.  The frames are numbered from 0 without a gap.  A connection that is alive but was dropped by the
  hub has its channel closed, so its next read on an empty buffer ends it.
\<close>

theorem watch_follows_registry:
  assumes "keyed (rg_builds rg)" and "rg_hub rg = Some h" and "hub_wf h" and "\<forall>a\<in>set acts. act_ok a"
    and "acts_run acts (connect now rg) = (c, rg')"
  shows "map ev_seq (cn_frames c) = [0..<length (cn_frames c)] \<and>
    (cn_end c = None \<longrightarrow>
       (attached (cn_sub c) rg' \<longrightarrow> buffer_of (cn_sub c) rg' = [] \<longrightarrow>
          (\<forall>i. map_option unclocked (map_of (watch_frames (cn_frames c)) i) =
               map_option (\<lambda>b. unclocked (to_api b time_zero)) (rg_get i rg'))) \<and>
       (\<not> attached (cn_sub c) rg' \<longrightarrow> buffer_of (cn_sub c) rg' = [] \<longrightarrow>
          cn_end (fst (conn_step (WakeEvent True) c rg')) = Some SlowConsumer))"
proof -
  from inv_acts [OF inv_connect [OF assms(1-3)] assms(4), of now] assms(5) have inv: "conn_inv c rg'" by simp
  have 1: "map_option unclocked (map_of (watch_frames (cn_frames c)) i) =
      map_option (\<lambda>b. unclocked (to_api b time_zero)) (rg_get i rg')"
    if "cn_end c = None" "attached (cn_sub c) rg'" "buffer_of (cn_sub c) rg' = []" for i
  proof -
    have "client_view (watch_frames (cn_frames c)) i = registry_view (rg_builds rg') i"
      using inv that by (simp add: conn_inv_def pending_view_def)
    then show ?thesis by (simp add: client_view_def registry_view_def rg_get_def)
  qed
  have 2: "cn_end (fst (conn_step (WakeEvent True) c rg')) = Some SlowConsumer"
    if "cn_end c = None" "\<not> attached (cn_sub c) rg'" "buffer_of (cn_sub c) rg' = []"
  proof -
    from inv that(1,2) have "closed_sub (cn_sub c) rg'" by (simp add: conn_inv_def)
    then obtain h' where "rg_hub rg' = Some h'" "sb_closed (chans h' (cn_sub c))"
      by (auto simp: closed_sub_def split: option.splits)
    with that show ?thesis by (simp add: conn_step_def receive_def buffer_of_def end_conn_def)
  qed
  from inv 1 2 show ?thesis by (simp add: conn_inv_def)
qed

definition one_running :: "unit registry" where
  "one_running = \<lparr>rg_builds = [(''a'', sample_build\<lparr>b_state := state_running\<rparr>)], rg_store = None, rg_hub = Some new_hub, rg_seq = 0\<rparr>"

lemma one_running_ok: "keyed (rg_builds one_running)" "rg_hub one_running = Some new_hub"
  by (simp_all add: one_running_def keyed_def sample_build_def)

theorem watch_follows_registry_witness:
  "let (c, rg') = acts_run [ActOp True (DeregisterOp ''a'' 1 9), ActConn (WakeTick True), ActConn (WakeEvent True)]
       (connect 8 one_running)
   in map ev_seq (cn_frames c) = [0, 1] \<and> map_option a_state (map_of (watch_frames (cn_frames c)) ''a'') = Some state_failed"
proof -
  let ?acts = "[ActOp True (DeregisterOp ''a'' 1 9), ActConn (WakeTick True), ActConn (WakeEvent True)]"
  obtain c rg' where r: "acts_run ?acts (connect 8 one_running) = (c, rg')" by fastforce
  from one_running_ok(2) have "cn_end c = None \<and> attached (cn_sub c) rg' \<and> buffer_of (cn_sub c) rg' = [] \<and>
      length (cn_frames c) = 2 \<and> map_option b_state (rg_get ''a'' rg') = Some state_failed"
    using r [symmetric]
    by (simp add: acts_run_def connect_def open_conn_def subscribe_conn_def one_running_def rg_deregister_def
        deregister_core_def sample_build_def Let_def publish_def persist_def broadcast_build_def broadcast_def hub_defs
        sub_buffer_size_def conn_step_def attached_def buffer_of_def rg_get_def empty_build_def)
  moreover from watch_follows_registry [OF one_running_ok hub_wf_new _ r] calculation
  have "map ev_seq (cn_frames c) = [0..<2]"
    "map_option unclocked (map_of (watch_frames (cn_frames c)) ''a'') =
       map_option (\<lambda>b. unclocked (to_api b time_zero)) (rg_get ''a'' rg')"
    by simp_all
  moreover from this(2) have "map_option a_state (map_of (watch_frames (cn_frames c)) ''a'') = map_option b_state (rg_get ''a'' rg')"
    by (cases "map_of (watch_frames (cn_frames c)) ''a''"; cases "rg_get ''a'' rg'") (auto dest!: arg_cong [where f = a_state])
  ultimately show ?thesis by (auto simp add: r numeral_2_eq_2 upt_rec)
qed

text \<open>
  A build that changes while a client connects can be shown wrongly from then on.  The handler writes
  the snapshot before it subscribes; a build that ends in between is in neither the snapshot nor the
  subscription, and the client shows it running, although the connection is alive and its buffer is empty.
\<close>

theorem connect_race_loses_event:
  "\<exists>c rg'. (let c0 = open_conn True 8 one_running; rg1 = reg_apply True (DeregisterOp ''a'' 1 9) one_running
            in subscribe_conn c0 rg1) = (c, rg') \<and>
     cn_end c = None \<and> attached (cn_sub c) rg' \<and> buffer_of (cn_sub c) rg' = [] \<and>
     map_option a_state (map_of (watch_frames (cn_frames c)) ''a'') = Some state_running \<and>
     map_option b_state (rg_get ''a'' rg') = Some state_failed"
  by (simp add: open_conn_def subscribe_conn_def one_running_def rg_deregister_def deregister_core_def sample_build_def
      Let_def publish_def persist_def broadcast_build_def broadcast_def hub_defs attached_def buffer_of_def
      watch_frames_def apply_event_def snapshot_frame_def snapshot_api_def rg_get_def empty_build_def to_api_def)

end
