(* ===== verification/Cli.thy ===== *)
theory Cli
  imports Api_Client Events_Stream
begin

text \<open>
  The command line tool \<open>brokerctl\<close>: exit codes (\<open>internal/cli/exit.go\<close>, \<open>client.go\<close>), rendering
  (\<open>render.go\<close>), the profile command (\<open>profile.go\<close>), the watch loop (\<open>watch.go\<close>) and the commands of
  \<open>cmd/brokerctl\<close>.

  A command returns what it writes to its output and its error.  JSON documents are kept as the values
  that are encoded; the table writer of the library aligns the columns of the rows given here.
\<close>

section \<open>Errors and exit codes\<close>

definition exit_ok :: nat where "exit_ok = 0"
definition exit_usage :: nat where "exit_usage = 1"
definition exit_config :: nat where "exit_config = 2"
definition exit_unavailable :: nat where "exit_unavailable = 3"
definition exit_auth :: nat where "exit_auth = 4"
definition exit_broker :: nat where "exit_broker = 5"
definition exit_not_implemented :: nat where "exit_not_implemented = 6"
definition exit_open :: nat where "exit_open = 7"

lemmas exit_defs = exit_ok_def exit_usage_def exit_config_def exit_unavailable_def exit_auth_def exit_broker_def
  exit_not_implemented_def exit_open_def

text \<open>A \<open>cliError\<close> carries its code; any other error is its text.\<close>

datatype cli_err = Coded nat string | Uncoded string

definition exit_code_for :: "cli_err option \<Rightarrow> nat \<times> string" where
  "exit_code_for err =
     (case err of
        None \<Rightarrow> (exit_ok, [])
      | Some (Coded code msg) \<Rightarrow> (code, ''brokerctl: '' @ msg)
      | Some (Uncoded msg) \<Rightarrow> (exit_usage, ''brokerctl: '' @ msg))"

definition em_dash :: string where "em_dash = [CHR 0xE2, CHR 0x80, CHR 0x94]"

definition map_err :: "client_error \<Rightarrow> cli_err" where
  "map_err err =
     (case err of
        TransportErr m p e \<Rightarrow> Coded exit_unavailable (te_error m p e)
      | StatusErr se \<Rightarrow>
          if se_status se = 401
          then Coded exit_auth (''broker rejected token (401) '' @ em_dash @ '' check the token in your config'')
          else if se_status se = 501
          then Coded exit_not_implemented
            (se_method se @ '' '' @ se_path se @ '': not available on this broker yet ('' @ se_detail se @ '')'')
          else if se_status se = 404
          then Coded exit_broker (se_method se @ '' '' @ se_path se @ '': not found (404: '' @ se_detail se @ '')'')
          else Coded exit_broker (se_error se)
      | _ \<Rightarrow> Coded exit_broker (client_error_text err))"

text \<open>The typed methods of the wrapping client: the call with its error mapped.\<close>

definition cli_call :: "api_call \<Rightarrow> 'a wire \<Rightarrow> cli_err + 'a option" where
  "cli_call c w = (case client_call c w of Inl e \<Rightarrow> Inl (map_err e) | Inr v \<Rightarrow> Inr v)"

section \<open>Global options and the client\<close>

record global_opts =
  go_json :: bool
  go_config :: string
  go_port :: int
  go_token :: string

text \<open>Resolving the path fails only for want of a home directory; the system's own texts are left out.\<close>

fun config_error_text :: "config_error \<Rightarrow> string" where
  "config_error_text NoHome = ''$HOME is not defined''"
| "config_error_text _ = []"

definition cli_config_err :: "cli_config_error \<Rightarrow> cli_err" where
  "cli_config_err e = Coded exit_config
     (case e of
        CliResolve r \<Rightarrow> ''resolve config path: '' @ config_error_text r
      | CliMissing p \<Rightarrow> ''no config at '' @ p @ '' '' @ em_dash @
          '' is the broker installed/running? (the daemon writes this file on first run)''
      | CliRead p \<Rightarrow> ''read config '' @ p
      | CliParse p \<Rightarrow> ''parse config '' @ p
      | CliIncomplete p \<Rightarrow> ''config '' @ p @ '' missing port or token'')"

definition cli_client :: "global_opts \<Rightarrow> environment \<Rightarrow> files \<Rightarrow> cli_err + client" where
  "cli_client opt env fs =
     (case load_config env (go_config opt) fs of
        Inl e \<Rightarrow> Inl (cli_config_err e)
      | Inr cfg \<Rightarrow>
          Inr (new_client (cc_host cfg)
                (if go_port opt \<noteq> 0 then go_port opt else cc_port cfg)
                (if go_token opt \<noteq> [] then go_token opt else cc_token cfg)))"

section \<open>Rendering\<close>

definition short_id :: "string \<Rightarrow> string" where
  "short_id i = (if 8 < length i then take 8 i else i)"

definition worktree_label :: "api_build \<Rightarrow> string" where
  "worktree_label b =
     (if a_worktree_name b \<noteq> [] then a_worktree_name b
      else if a_worktree b = [] then ''-'' else path_base (a_worktree b))"

definition join_targets :: "string list \<Rightarrow> string" where
  "join_targets ts =
     (case ts of
        [] \<Rightarrow> ''-''
      | [t] \<Rightarrow> t
      | t # us \<Rightarrow> t @ '' (+'' @ itoa (int (length us)) @ '')'')"

text \<open>
  \<open>%.1f\<close> of \<open>Duration.Seconds\<close>: the float sum of the whole seconds and the rest, rounded to the nearest
  tenth by its exact binary value, a tie to the even digit.
\<close>

definition tenths :: "int \<Rightarrow> int" where
  "tenths ms =
     rne (fl64 (rat_of_int (ms div 1000) + fl64 (rat_of_int ((ms mod 1000) * 1000000) / 1000000000)) * 10)"

definition pad2 :: "int \<Rightarrow> string" where
  "pad2 n = (if 0 \<le> n \<and> n < 10 then CHR ''0'' # itoa n else itoa n)"

definition humanize_elapsed_ms :: "int \<Rightarrow> string" where
  "humanize_elapsed_ms ms0 =
     (let ms = (if ms0 < 0 then 0 else ms0); d = wrap64 (ms * millisecond)
      in if d < second then itoa ms @ ''ms''
         else if d < minute then itoa (tenths (d div millisecond) div 10) @ ''.'' @ itoa (tenths (d div millisecond) mod 10) @ ''s''
         else if d < 60 * minute then itoa (d div minute) @ ''m'' @ pad2 (d div second mod 60) @ ''s''
         else itoa (d div (60 * minute)) @ ''h'' @ pad2 (d div minute mod 60) @ ''m'')"

definition table_row :: "api_build \<Rightarrow> string list" where
  "table_row b = [short_id (a_id b), worktree_label b, a_state b, humanize_elapsed_ms (a_elapsed b), join_targets (a_targets b)]"

datatype 'v shown = OutLine string | OutTable "string list list" | OutJson 'v | OutClear

definition render_builds_table :: "api_build list \<Rightarrow> 'v shown" where
  "render_builds_table bs =
     (if bs = [] then OutLine ''no active builds''
      else OutTable ([''ID'', ''WORKTREE'', ''STATE'', ''ELAPSED'', ''TARGETS''] # map table_row bs))"

text \<open>The comparison of \<open>sortBuilds\<close>, and a stable sort by it.\<close>

definition build_before :: "api_build \<Rightarrow> api_build \<Rightarrow> bool" where
  "build_before b c \<longleftrightarrow> (if a_start b \<noteq> a_start c then a_start c < a_start b else a_id b < a_id c)"

fun insert_stable :: "('a \<Rightarrow> 'a \<Rightarrow> bool) \<Rightarrow> 'a \<Rightarrow> 'a list \<Rightarrow> 'a list" where
  "insert_stable lt x [] = [x]"
| "insert_stable lt x (y # ys) = (if lt y x then y # insert_stable lt x ys else x # y # ys)"

definition sort_builds :: "api_build list \<Rightarrow> api_build list" where
  "sort_builds bs = foldr (insert_stable build_before) bs []"

definition sorted_slice :: "watch_state \<Rightarrow> api_build list" where
  "sorted_slice st = sort_builds (map snd st)"

section \<open>Watch\<close>

definition watch_counts :: "api_build list \<Rightarrow> nat \<times> nat" where
  "watch_counts bs =
     foldl (\<lambda>(building, queued) b.
              if a_state b = state_queued then (building, Suc queued)
              else if a_state b \<in> {state_finished, state_failed, state_killed, state_gone} then (building, queued)
              else (Suc building, queued)) (0, 0) bs"

definition watch_header :: "string \<Rightarrow> api_build list \<Rightarrow> string" where
  "watch_header clock bs =
     (let (building, queued) = watch_counts bs; dot = [CHR 0xC2, CHR 0xB7]
      in itoa (int building) @ '' building '' @ dot @ '' '' @ itoa (int queued) @ '' queued '' @ dot @ '' updated '' @ clock)"

record watch_opts =
  wo_json :: bool
  wo_once :: bool
  wo_tty :: bool

definition draw_live :: "watch_opts \<Rightarrow> string \<Rightarrow> api_build list \<Rightarrow> 'v shown list" where
  "draw_live opt clock bs =
     (if wo_tty opt then [OutClear] else []) @ [OutLine (watch_header clock bs), render_builds_table bs]"

text \<open>
  One connection: the result of the dial, then the events until the read fails with \<open>err\<close>.  \<open>wr\<close> is the
  error of writing a line of JSON, if there is one.
\<close>

fun watch_loop :: "watch_opts \<Rightarrow> string \<Rightarrow> ('m event \<Rightarrow> cli_err option) \<Rightarrow> cli_err \<Rightarrow> 'm event list \<Rightarrow> watch_state
    \<Rightarrow> 'm event shown list \<times> cli_err" where
  "watch_loop opt clock wr err [] st = ([], err)"
| "watch_loop opt clock wr err (ev # evs) st =
     (let st' = apply_event ev st
      in if wo_json opt
         then (case wr ev of
                 Some e \<Rightarrow> ([], e)
               | None \<Rightarrow> let (out, e) = watch_loop opt clock wr err evs st' in (OutJson ev # out, e))
         else let (out, e) = watch_loop opt clock wr err evs st' in (draw_live opt clock (sorted_slice st') @ out, e))"

definition watch_once :: "watch_opts \<Rightarrow> string \<Rightarrow> ('m event \<Rightarrow> cli_err option) \<Rightarrow> client_error option \<Rightarrow> 'm event list \<Rightarrow> cli_err
    \<Rightarrow> 'm event shown list \<times> cli_err" where
  "watch_once opt clock wr dial evs err =
     (case dial of Some e \<Rightarrow> ([], map_err e) | None \<Rightarrow> watch_loop opt clock wr err evs [])"

definition is_auth_err :: "cli_err \<Rightarrow> bool" where
  "is_auth_err e \<longleftrightarrow> (case e of Coded c m \<Rightarrow> c = exit_auth | Uncoded m \<Rightarrow> False)"

definition is_conn_closed :: "cli_err \<Rightarrow> bool" where
  "is_conn_closed e \<longleftrightarrow> (case e of Coded c m \<Rightarrow> False | Uncoded m \<Rightarrow> True)"

definition is_reconnectable :: "cli_err \<Rightarrow> bool" where
  "is_reconnectable e \<longleftrightarrow> is_conn_closed e \<or> (case e of Coded c m \<Rightarrow> c = exit_unavailable | Uncoded m \<Rightarrow> False)"

record backoff =
  bo_cur :: duration
  bo_max :: duration
  bo_base :: duration

definition new_backoff :: "duration \<Rightarrow> duration \<Rightarrow> backoff" where
  "new_backoff base mx = \<lparr>bo_cur = base, bo_max = mx, bo_base = base\<rparr>"

text \<open>The wait for a jitter drawn from 0 to half the interval, and the state after a sleep that was not cut.\<close>

definition backoff_range :: "backoff \<Rightarrow> duration" where
  "backoff_range b = (let d = min (bo_cur b) (bo_max b) in go_div d 2)"

definition backoff_wait :: "duration \<Rightarrow> backoff \<Rightarrow> duration" where
  "backoff_wait jitter b = backoff_range b + jitter"

definition backoff_next :: "backoff \<Rightarrow> backoff" where
  "backoff_next b = b\<lparr>bo_cur := (if bo_max b < bo_cur b * 2 then bo_max b else bo_cur b * 2)\<rparr>"

text \<open>
  One turn of the loop as seen from outside: the error the connection ended with, whether the context was
  cancelled by then, the jitter drawn, and whether the sleep was cut by a cancellation.
\<close>

record turn =
  tn_err :: cli_err
  tn_cancelled :: bool
  tn_jitter :: duration
  tn_cut :: bool

definition watch_backoff :: backoff where
  "watch_backoff = new_backoff (200 * millisecond) (5 * second)"

text \<open>\<open>None\<close>: the turns given are over and the loop goes on.  The waits are recorded.\<close>

fun run_watch :: "bool \<Rightarrow> backoff \<Rightarrow> turn list \<Rightarrow> cli_err option option \<times> duration list" where
  "run_watch once b [] = (None, [])"
| "run_watch once b (t # ts) =
     (if tn_cancelled t then (Some None, [])
      else if is_auth_err (tn_err t) then (Some (Some (tn_err t)), [])
      else if once then (Some (if is_conn_closed (tn_err t) then None else Some (tn_err t)), [])
      else if is_reconnectable (tn_err t)
      then (if tn_cut t then (Some None, [backoff_wait (tn_jitter t) b])
            else let (r, ws) = run_watch once (backoff_next b) ts in (r, backoff_wait (tn_jitter t) b # ws))
      else (Some (Some (tn_err t)), []))"

section \<open>Profile\<close>

record profile_opts =
  po_print :: bool
  po_json :: bool

record profile_ref =
  pr_perfetto :: string
  pr_local :: string

definition resolve_profile_target :: "cli_err + api_build \<Rightarrow> cli_err + profile_ref \<Rightarrow> cli_err + string" where
  "resolve_profile_target b ref =
     (case b of
        Inl e \<Rightarrow> Inl e
      | Inr a \<Rightarrow>
          if a_profile a \<noteq> [] then Inr (a_profile a)
          else case ref of
                 Inl e \<Rightarrow> Inl e
               | Inr p \<Rightarrow> Inr (if pr_perfetto p \<noteq> [] then pr_perfetto p else pr_local p))"

text \<open>\<open>quote\<close> is the quoting of \<open>%q\<close>, \<open>failure\<close> the error of the \<open>open\<close> command.\<close>

definition open_url :: "(string \<Rightarrow> string) \<Rightarrow> string option \<Rightarrow> string \<Rightarrow> cli_err option" where
  "open_url quote failure target =
     (case failure of None \<Rightarrow> None | Some e \<Rightarrow> Some (Coded exit_open (''open '' @ quote target @ '': '' @ e)))"

definition run_profile :: "(string \<Rightarrow> cli_err option) \<Rightarrow> profile_opts \<Rightarrow> string \<Rightarrow> cli_err + api_build \<Rightarrow> cli_err + profile_ref
    \<Rightarrow> (string \<times> string) shown list \<times> cli_err option" where
  "run_profile opener opt i b ref =
     (case resolve_profile_target b ref of
        Inl e \<Rightarrow> ([], Some e)
      | Inr target \<Rightarrow>
          if target = [] then ([], Some (Coded exit_broker (''no profile available for '' @ i @ '' yet (needs E4)'')))
          else if po_json opt then ([OutJson (i, target)], None)
          else if po_print opt then ([OutLine target], None)
          else case opener target of
                 Some e \<Rightarrow> ([], Some e)
               | None \<Rightarrow> ([OutLine (''opened profile for '' @ i @ '': '' @ target)], None))"

section \<open>Commands\<close>

definition run_admission :: "bool \<Rightarrow> string \<Rightarrow> cli_err + client \<Rightarrow> (client \<Rightarrow> cli_err + 'a option) \<Rightarrow> string shown list \<times> cli_err option" where
  "run_admission json verb cl call =
     (case cl of
        Inl e \<Rightarrow> ([], Some e)
      | Inr c \<Rightarrow>
          (case call c of
             Inl e \<Rightarrow> ([], Some e)
           | Inr _ \<Rightarrow> ([if json then OutJson verb else OutLine (''admission '' @ verb)], None)))"

definition run_kill :: "bool \<Rightarrow> string \<Rightarrow> cli_err + client \<Rightarrow> (client \<Rightarrow> cli_err + api_kill) \<Rightarrow> api_kill shown list \<times> cli_err option" where
  "run_kill json i cl call =
     (case cl of
        Inl e \<Rightarrow> ([], Some e)
      | Inr c \<Rightarrow>
          (case call c of
             Inl e \<Rightarrow> ([], Some e)
           | Inr res \<Rightarrow>
               ([if json then OutJson res
                 else OutLine (''kill '' @ i @ '': '' @ (if kr_outcome res = [] then ''killed'' else kr_outcome res))], None)))"

definition run_ls :: "bool \<Rightarrow> cli_err + client \<Rightarrow> (client \<Rightarrow> cli_err + api_build list) \<Rightarrow> api_build list shown list \<times> cli_err option" where
  "run_ls json cl call =
     (case cl of
        Inl e \<Rightarrow> ([], Some e)
      | Inr c \<Rightarrow>
          (case call c of
             Inl e \<Rightarrow> ([], Some e)
           | Inr bs \<Rightarrow> ([if json then OutJson bs else render_builds_table bs], None)))"

end
