(* ===== verification/Cli_Props.thy ===== *)
theory Cli_Props
  imports Cli
begin

text \<open>
  What \<open>brokerctl\<close> promises: exit codes, an order of the table that does not depend on the iteration
  order of a map, the waits between reconnects, and, with the broker on the other side, that a command
  has its effect and its exit code.
\<close>

section \<open>Exit codes\<close>

definition call_exit :: "cli_err + 'a option \<Rightarrow> nat" where
  "call_exit r = fst (exit_code_for (case r of Inl e \<Rightarrow> Some e | Inr v \<Rightarrow> None))"

text \<open>
  The exit code of a call is a function of the reply, the one the constants promise: 0 for a reply
  below 400 that decodes, 3 if the broker cannot be reached, 4 for 401, 6 for 501, and 5 for every other
  error status, 404 included, for a reply that does not decode and for a request that cannot be sent at all.
\<close>

definition reply_code :: "bool \<Rightarrow> 'a wire \<Rightarrow> nat" where
  "reply_code wants w =
     (case w of
        Unreachable _ \<Rightarrow> 3
      | BodyRefused _ \<Rightarrow> 5
      | RequestRefused _ \<Rightarrow> 5
      | Answered a \<Rightarrow>
          if an_status a = 401 then 4
          else if an_status a = 501 then 6
          else if 400 \<le> an_status a \<or> wants \<and> isl (an_result a) then 5
          else 0)"

lemma cli_call_code:
  "cli_call c w = Inl e \<Longrightarrow> \<exists>m. e = Coded (reply_code (call_wants c) w) m \<and> reply_code (call_wants c) w \<noteq> 0"
  "cli_call c w = Inr v \<Longrightarrow> reply_code (call_wants c) w = 0"
  by (auto simp: cli_call_def client_call_def client_do_def map_err_def reply_code_def exit_defs new_status_error_def
      Let_def case_prod_unfold split: wire.splits sum.splits if_splits)

theorem exit_code_of_reply: "call_exit (cli_call c w) = reply_code (call_wants c) w"
  using cli_call_code [of c w] by (cases "cli_call c w") (auto simp: call_exit_def exit_code_for_def exit_defs)

section \<open>The order of the table\<close>

lemma insert_stable_mset [simp]: "mset (insert_stable lt x ys) = add_mset x (mset ys)"
  by (induction ys) auto

lemma sort_builds_mset [simp]: "mset (sort_builds bs) = mset bs"
  by (induction bs) (simp_all add: sort_builds_def)

lemma before_irrefl: "\<not> build_before b b"
  by (simp add: build_before_def)

lemma before_trans: "build_before a b \<Longrightarrow> build_before b c \<Longrightarrow> build_before a c"
  by (auto simp: build_before_def split: if_splits)

lemma before_total: "a_id b \<noteq> a_id c \<Longrightarrow> build_before b c \<or> build_before c b"
  by (auto simp: build_before_def)

lemma insert_sorted:
  assumes "sorted_wrt build_before ys" and "a_id x \<notin> a_id ` set ys"
  shows "sorted_wrt build_before (insert_stable build_before x ys)"
  using assms
proof (induction ys)
  case (Cons y ys)
  have s: "set (insert_stable build_before x ys) = insert x (set ys)"
    by (metis insert_stable_mset set_mset_add_mset_insert set_mset_mset)
  from Cons.prems before_total [of x y] before_trans [of x y] Cons.IH show ?case by (auto simp: s)
qed simp

lemma sort_builds_sorted: "distinct (map a_id bs) \<Longrightarrow> sorted_wrt build_before (sort_builds bs)"
proof (induction bs)
  case (Cons b bs)
  have "set (sort_builds bs) = set bs" by (metis set_mset_mset sort_builds_mset)
  with Cons show ?case by (simp add: sort_builds_def insert_sorted)
qed (simp add: sort_builds_def)

lemma sorted_wrt_unique:
  assumes "\<And>a b. R a b \<Longrightarrow> \<not> R b a" and "sorted_wrt R xs" and "sorted_wrt R ys" and "mset xs = mset ys"
  shows "xs = ys"
  using assms(2-4)
proof (induction xs arbitrary: ys)
  case (Cons x xs)
  from Cons.prems(3) obtain y zs where ys: "ys = y # zs" by (cases ys) auto
  have "x = y"
  proof (rule ccontr)
    assume "x \<noteq> y"
    moreover have "set (x # xs) = set ys" using Cons.prems(3) by (metis set_mset_mset)
    ultimately have "x \<in> set zs" "y \<in> set xs" using ys by auto
    with Cons.prems(1,2) ys have "R x y" "R y x" by auto
    with assms(1) show False by blast
  qed
  with Cons.IH [of zs] Cons.prems ys show ?case by simp
qed simp

text \<open>
  The table of \<open>watch\<close> does not depend on the iteration order of the map.  Any two orders of the same
  builds, with different ids, sort to the same list; it holds each build once and is ordered newest
  first, then by id.
\<close>

theorem table_order_canonical:
  assumes "distinct (map a_id bs)" and "mset bs' = mset bs"
  shows "sort_builds bs' = sort_builds bs \<and> mset (sort_builds bs) = mset bs \<and>
    sorted_wrt (\<lambda>b c. a_start c < a_start b \<or> a_start b = a_start c \<and> a_id b < a_id c) (sort_builds bs)"
proof -
  have "mset (map a_id bs') = mset (map a_id bs)" using assms(2) by simp
  then have "distinct (map a_id bs')" using mset_eq_imp_distinct_iff assms(1) by blast
  from sort_builds_sorted [OF assms(1)] sort_builds_sorted [OF this] before_irrefl before_trans assms(2)
  have "sort_builds bs' = sort_builds bs" by (intro sorted_wrt_unique [of build_before]) auto
  moreover have "build_before = (\<lambda>b c. a_start c < a_start b \<or> a_start b = a_start c \<and> a_id b < a_id c)"
    by (auto simp: build_before_def fun_eq_iff)
  ultimately show ?thesis using sort_builds_sorted [OF assms(1)] by simp
qed

definition api_a :: api_build where "api_a = (to_api empty_build 0)\<lparr>a_id := ''a'', a_start := ''1''\<rparr>"
definition api_b :: api_build where "api_b = (to_api empty_build 0)\<lparr>a_id := ''b'', a_start := ''2''\<rparr>"

theorem table_order_canonical_witness:
  "sort_builds [api_a, api_b] = sort_builds [api_b, api_a] \<and> mset (sort_builds [api_b, api_a]) = mset [api_b, api_a]"
  using table_order_canonical [of "[api_b, api_a]" "[api_a, api_b]"] by (simp add: api_a_def api_b_def)

section \<open>The counts of the header\<close>

lemma watch_counts_filter:
  "foldl (\<lambda>(building, queued) b.
      if a_state b = state_queued then (building, Suc queued)
      else if a_state b \<in> {state_finished, state_failed, state_killed, state_gone} then (building, queued)
      else (Suc building, queued)) (m, n) bs =
   (m + length (filter (\<lambda>b. a_state b \<noteq> state_queued \<and> \<not> is_terminal (a_state b)) bs),
    n + length (filter (\<lambda>b. a_state b = state_queued) bs))"
  by (induction bs arbitrary: m n) (auto simp: is_terminal_def state_defs)

lemma length_filter_mset: "length (filter P (map f xs)) = size (filter_mset P (mset (map f xs)))"
  by (metis mset_filter size_mset)

lemma watch_counts_mset:
  "watch_counts bs = (size {#s \<in># mset (map a_state bs). s \<noteq> state_queued \<and> \<not> is_terminal s#},
     size {#s \<in># mset (map a_state bs). s = state_queued#})"
  unfolding length_filter_mset [symmetric] watch_counts_def watch_counts_filter by (simp add: filter_map comp_def)

lemma rg_counts_mset:
  "(c_building (rg_counts rg), c_queued (rg_counts rg)) =
     (size {#s \<in># mset (map b_state (map snd (rg_builds rg))). s \<noteq> state_queued \<and> \<not> is_terminal s#},
      size {#s \<in># mset (map b_state (map snd (rg_builds rg))). s = state_queued#})"
  unfolding length_filter_mset [symmetric] rg_counts_def counts_loop by (simp add: filter_map comp_def)

lemma same_values:
  assumes "distinct (map fst xs)" "distinct (map fst ys)"
    and "\<And>i. map_option f (map_of xs i) = map_option g (map_of ys i)"
  shows "mset (map f (map snd xs)) = mset (map g (map snd ys))"
proof -
  let ?x = "map (\<lambda>(k, v). (k, f v)) xs" and ?y = "map (\<lambda>(k, v). (k, g v)) ys"
  have k: "map fst ?x = map fst xs" "map fst ?y = map fst ys" by (simp_all add: comp_def case_prod_unfold)
  have "map_of ?x i = map_of ?y i" for i using assms(3) [of i] by (simp add: map_of_map)
  then have "map_of ?x = map_of ?y" by blast
  have kx: "distinct (map fst ?x)" "distinct (map fst ?y)" using assms(1,2) unfolding k by simp_all
  then have d: "distinct ?x" "distinct ?y" using distinct_map by blast+
  from \<open>map_of ?x = map_of ?y\<close> have "set ?x = set ?y" using map_of_inject_set [OF kx] by iprover
  then have "mset ?x = mset ?y" using set_eq_iff_mset_eq_distinct [OF d] by iprover
  then have "mset (map snd ?x) = mset (map snd ?y)" by (simp only: mset_map)
  moreover have "map snd ?x = map f (map snd xs)" "map snd ?y = map g (map snd ys)" by (simp_all add: case_prod_unfold)
  ultimately show ?thesis by argo
qed

lemma apply_event_distinct: "distinct (map fst st) \<Longrightarrow> distinct (map fst (apply_event ev st))"
proof -
  have "distinct (map fst (foldl (\<lambda>m b. AList.update (a_id b) b m) m bs))" if "distinct (map fst m)" for m and bs :: "api_build list"
    using that by (induction bs arbitrary: m) (simp_all add: distinct_update)
  then show "distinct (map fst st) \<Longrightarrow> ?thesis" by (auto simp: apply_event_def distinct_update split: option.split)
qed

lemma watch_frames_distinct: "distinct (map fst (watch_frames evs))"
  by (induction evs rule: rev_induct) (simp_all add: apply_event_distinct, simp add: watch_frames_def)

text \<open>
  The header of \<open>watch\<close> shows the numbers of \<open>/healthz\<close>.  On a connection that is alive and drained,
  the building and queued counts of the client's table are those of the registry.
\<close>

theorem watch_header_counts:
  assumes "keyed (rg_builds rg)" and "rg_hub rg = Some h" and "hub_wf h" and "\<forall>a\<in>set acts. act_ok a"
    and "acts_run acts (connect now rg) = (c, rg')"
    and "cn_end c = None" and "attached (cn_sub c) rg'" and "buffer_of (cn_sub c) rg' = []"
  shows "watch_counts (sorted_slice (watch_frames (cn_frames c))) = (c_building (rg_counts rg'), c_queued (rg_counts rg'))"
proof -
  let ?st = "watch_frames (cn_frames c)"
  from inv_acts [OF inv_connect [OF assms(1-3)] assms(4), of now] assms(5) have inv: "conn_inv c rg'" by simp
  with assms(6-8) have v: "client_view ?st = registry_view (rg_builds rg')" by (simp add: conn_inv_def pending_view_def)
  have "map_option a_state (map_of ?st i) = map_option b_state (map_of (rg_builds rg') i)" for i
    using fun_cong [OF v, of i]
    by (cases "map_of ?st i"; cases "map_of (rg_builds rg') i")
      (auto simp: client_view_def registry_view_def dest!: arg_cong [where f = a_state])
  moreover have "distinct (map fst (rg_builds rg'))" using inv by (simp add: conn_inv_def keyed_def)
  ultimately have "mset (map a_state (map snd ?st)) = mset (map b_state (map snd (rg_builds rg')))"
    by (intro same_values watch_frames_distinct)
  moreover have "mset (map a_state (sorted_slice ?st)) = mset (map a_state (map snd ?st))"
    by (simp only: sorted_slice_def mset_map sort_builds_mset)
  ultimately show ?thesis unfolding watch_counts_mset rg_counts_mset by argo
qed

theorem watch_header_counts_witness:
  "\<exists>c rg'. acts_run [] (connect 8 one_running) = (c, rg') \<and>
     watch_counts (sorted_slice (watch_frames (cn_frames c))) = (c_building (rg_counts rg'), c_queued (rg_counts rg'))"
proof -
  obtain c rg' where r: "acts_run [] (connect 8 one_running) = (c, rg')" by fastforce
  have "cn_end c = None \<and> attached (cn_sub c) rg' \<and> buffer_of (cn_sub c) rg' = []"
    using r [symmetric]
    by (simp add: acts_run_def connect_def open_conn_def subscribe_conn_def one_running_def hub_defs attached_def buffer_of_def)
  with watch_header_counts [OF one_running_ok hub_wf_new _ r] r show ?thesis by auto
qed

section \<open>Reconnecting\<close>

text \<open>The jitter of each turn is drawn from the range of its interval.\<close>

fun jitter_ok :: "backoff \<Rightarrow> turn list \<Rightarrow> bool" where
  "jitter_ok b [] = True"
| "jitter_ok b (t # ts) \<longleftrightarrow> 0 \<le> tn_jitter t \<and> tn_jitter t \<le> backoff_range b \<and> jitter_ok (backoff_next b) ts"

definition nth_interval :: "nat \<Rightarrow> duration" where
  "nth_interval n = min (200 * millisecond * 2 ^ n) (5 * second)"

definition nth_backoff :: "nat \<Rightarrow> backoff" where
  "nth_backoff n = \<lparr>bo_cur = nth_interval n, bo_max = 5 * second, bo_base = 200 * millisecond\<rparr>"

lemma backoff_first: "watch_backoff = nth_backoff 0"
  by (simp add: watch_backoff_def new_backoff_def nth_backoff_def nth_interval_def second_def millisecond_def)

lemma backoff_next: "backoff_next (nth_backoff n) = nth_backoff (Suc n)"
  by (simp add: backoff_next_def nth_backoff_def nth_interval_def min_def second_def millisecond_def)

lemma backoff_wait_bounds:
  assumes "0 \<le> j" "j \<le> backoff_range (nth_backoff n)"
  shows "nth_interval n div 2 \<le> backoff_wait j (nth_backoff n) \<and> backoff_wait j (nth_backoff n) \<le> nth_interval n"
proof -
  have p: "0 \<le> nth_interval n" by (simp add: nth_interval_def second_def millisecond_def)
  have "min (nth_interval n) (5 * second) = nth_interval n" by (simp add: nth_interval_def)
  then have "backoff_range (nth_backoff n) = nth_interval n div 2"
    using p go_div_nonneg [of "nth_interval n" 2] by (simp add: backoff_range_def nth_backoff_def)
  with assms p show ?thesis by (simp add: backoff_wait_def)
qed

lemma watch_waits:
  "jitter_ok (nth_backoff n) ts \<Longrightarrow> run_watch once (nth_backoff n) ts = (r, ws) \<Longrightarrow> i < length ws \<Longrightarrow>
     nth_interval (n + i) div 2 \<le> ws ! i \<and> ws ! i \<le> nth_interval (n + i)"
proof (induction ts arbitrary: n r ws i)
  case (Cons t ts)
  from Cons.prems(1) have j: "0 \<le> tn_jitter t" "tn_jitter t \<le> backoff_range (nth_backoff n)"
    "jitter_ok (nth_backoff (Suc n)) ts" by (simp_all add: backoff_next)
  note b = backoff_wait_bounds [OF j(1,2)]
  obtain r' ws' where r: "run_watch once (nth_backoff (Suc n)) ts = (r', ws')" by fastforce
  show ?case
  proof (cases i)
    case 0
    with Cons.prems b show ?thesis by (auto simp: backoff_next split: if_splits prod.splits)
  next
    case (Suc k)
    with Cons.prems r have "k < length ws'" "ws ! i = ws' ! k" by (auto simp: backoff_next split: if_splits)
    with Cons.IH [OF j(3) r, of k] Suc show ?thesis by simp
  qed
qed simp

lemma watch_end:
  "run_watch False b ts = (Some (Some e), ws) \<Longrightarrow> \<exists>c m. e = Coded c m \<and> c \<noteq> exit_unavailable"
proof (induction ts arbitrary: b ws)
  case (Cons t ts)
  obtain e0 cc j cut where t: "t = \<lparr>tn_err = e0, tn_cancelled = cc, tn_jitter = j, tn_cut = cut\<rparr>" by (cases t)
  from Cons.prems Cons.IH show ?case unfolding t
    by (cases e0) (auto simp: is_auth_err_def is_reconnectable_def is_conn_closed_def exit_defs
      split: if_splits prod.splits)
qed simp

text \<open>
  \<open>brokerctl watch\<close> keeps trying at a bounded pace.  It returns an error only for a coded one other than
  "unavailable" (so for 401 at once, never for a lost connection or a broker that is down), and before
  reconnect number i it waits between half and all of 200ms doubled i times, at most 5 seconds.
\<close>

theorem watch_reconnects:
  assumes "jitter_ok watch_backoff ts" and "run_watch False watch_backoff ts = (r, ws)"
  shows "(\<forall>i<length ws. min (200 * millisecond * 2 ^ i) (5 * second) div 2 \<le> ws ! i \<and>
                        ws ! i \<le> min (200 * millisecond * 2 ^ i) (5 * second)) \<and>
    (\<forall>e. r = Some (Some e) \<longrightarrow> (\<exists>c m. e = Coded c m \<and> c \<noteq> exit_unavailable))"
  using assms watch_waits [of 0 ts False r ws] watch_end [of watch_backoff ts] unfolding backoff_first nth_interval_def
  by auto

definition lost_turn :: turn where
  "lost_turn = \<lparr>tn_err = Uncoded ''EOF'', tn_cancelled = False, tn_jitter = 0, tn_cut = False\<rparr>"

theorem watch_reconnects_witness:
  "run_watch False watch_backoff [lost_turn, lost_turn, lost_turn\<lparr>tn_err := Coded exit_auth ''no''\<rparr>] =
     (Some (Some (Coded exit_auth ''no'')), [100 * millisecond, 200 * millisecond]) \<and>
   (\<exists>c m. Coded exit_auth ''no'' = Coded c m \<and> c \<noteq> exit_unavailable)"
proof -
  let ?ts = "[lost_turn, lost_turn, lost_turn\<lparr>tn_err := Coded exit_auth ''no''\<rparr>]"
  have j: "jitter_ok watch_backoff ?ts"
    by (simp add: lost_turn_def watch_backoff_def new_backoff_def backoff_range_def backoff_next_def go_div_def
        second_def millisecond_def)
  have r: "run_watch False watch_backoff ?ts = (Some (Some (Coded exit_auth ''no'')), [100 * millisecond, 200 * millisecond])"
    by (simp add: lost_turn_def watch_backoff_def new_backoff_def backoff_range_def backoff_next_def backoff_wait_def
        go_div_def second_def millisecond_def is_auth_err_def is_reconnectable_def is_conn_closed_def exit_defs)
  from watch_reconnects [OF j r] r show ?thesis by blast
qed

section \<open>With the broker on the other side\<close>

lemma authorize_own: "plain t \<Longrightarrow> t \<noteq> [] \<Longrightarrow> authorize t (''Bearer '' @ t)"
  using has_prefix_append [of "''Bearer ''" t] by (simp add: authorize_def)

lemma client_served:
  assumes "plain (ac_token cl)" and "ac_token cl \<noteq> []" and "sv_token sv = ac_token cl"
    and "\<And>i. call_id c = Some i \<Longrightarrow> plain_id i"
  shows "serve_http sv ok now (call_request cl c) s =
    (case call_route c of (k, as) \<Rightarrow> handle_route sv ok now (call_request cl c) k as s)"
proof -
  obtain k as where k: "call_route c = (k, as)" by fastforce
  have "call_segs c \<noteq> []" by (cases c) auto
  have "serve_http sv ok now (call_request cl c) s = handle_route sv ok now (call_request cl c) k as s"
    by (rule serve_plain [OF call_segs_plain [OF assms(4)] \<open>call_segs c \<noteq> []\<close>])
      (use authorize_own [OF assms(1,2)] assms(3) call_found [OF assms(4)] k in
        \<open>simp_all add: call_request_def call_path_segs\<close>)
  with k show ?thesis by simp
qed

text \<open>
  C40: client and router agree.  With the server's token, each method of the typed client is served by the
  handler of its own route, with the id it was given, for ids that need no escaping.
\<close>

theorem client_reaches_route:
  assumes "plain (ac_token cl)" and "ac_token cl \<noteq> []" and "sv_token sv = ac_token cl"
    and "\<And>i. call_id c = Some i \<Longrightarrow> plain_id i"
  shows "find_handler (call_method c) (call_path c) = (case call_route c of (k, as) \<Rightarrow> Found k as) \<and>
    serve_http sv ok now (call_request cl c) s =
      (case call_route c of (k, as) \<Rightarrow> handle_route sv ok now (call_request cl c) k as s)"
  using call_found [OF assms(4)] client_served [OF assms] by blast

theorem client_reaches_route_witness:
  "find_handler ''POST'' ''/builds/a/kill'' = Found RtKillBuild [''a''] \<and>
   serve_http plain_server True 1 (call_request (new_client [] 8765 ''t'') (CallKill ''a'')) fresh_broker =
     handle_route plain_server True 1 (call_request (new_client [] 8765 ''t'') (CallKill ''a'')) RtKillBuild [''a''] fresh_broker"
  using client_reaches_route [of "new_client [] 8765 ''t''" plain_server "CallKill ''a''" True 1 fresh_broker]
  by (simp add: new_client_def Let_def plain_server_def plain_char_def plain_id_def comp_ok_def)

text \<open>The reply as the client's library sees it; \<open>raw\<close> is the text of the body.\<close>

definition error_doc :: "reply_body \<Rightarrow> error_response option" where
  "error_doc b =
     (case b of
        ErrorBody e \<Rightarrow> Some e
      | ProviderBody (FailBody code msg) \<Rightarrow> Some \<lparr>er_error = code, er_message = msg, er_epic = ''E4''\<rparr>
      | TextBody _ \<Rightarrow> None
      | RedirectBody _ \<Rightarrow> None
      | _ \<Rightarrow> Some \<lparr>er_error = [], er_message = [], er_epic = []\<rparr>)"

definition reply_wire :: "string \<Rightarrow> reply \<Rightarrow> reply_body wire" where
  "reply_wire raw r = Answered \<lparr>an_status = re_status r, an_error = error_doc (re_body r), an_raw = raw, an_result = Inr (re_body r)\<rparr>"

lemma hex_digit_plain: "n < 16 \<Longrightarrow> plain_char (hex_digit n)"
  by (auto simp: hex_digit_def plain_char_def)

lemma hex_encode_plain: "\<forall>b\<in>set bs. b < 256 \<Longrightarrow> plain (hex_encode bs)"
  by (induction bs) (auto simp: hex_encode_def hex_digit_plain less_mult_imp_div_less)

text \<open>The engine after each of the three admission commands.\<close>

definition commanded :: "api_call \<Rightarrow> registry_snapshot \<Rightarrow> gotime \<Rightarrow> engine \<Rightarrow> engine" where
  "commanded c sn t e =
     (case c of CallDrain \<Rightarrow> set_draining True sn t e | CallPause \<Rightarrow> set_paused True sn t e | _ \<Rightarrow> resume sn t e)"

text \<open>
  C22: a fresh installation obeys the command line.  The daemon's first run wrote the configuration;
  \<open>brokerctl\<close>, started without flags, finds it, its drain, pause or resume is accepted with exit code 0, and
  the admission engine has made exactly that step, the registry being as before.
\<close>

theorem admission_command_end_to_end:
  assumes "config_path env = Inr path" and "fs path = NoFile"
    and "load env (Some bs) mkdir_ok wr fs = (Inr cfg, fs')" and "\<forall>b\<in>set bs. b < 256"
    and "go_config opt = []" "go_port opt = 0" "go_token opt = []"
    and "sv_token sv = cf_token cfg" and "sv_seams sv = broker_seams w" and "c \<in> {CallDrain, CallPause, CallResume}"
  shows "\<exists>cl r s'. cli_client opt env fs' = Inr cl \<and> serve_http sv ok now (call_request cl c) s = Some (r, s') \<and>
    call_exit (cli_call c (reply_wire raw r)) = exit_ok \<and>
    s' = s\<lparr>bk_engine := commanded c (snapshot_active (bk_reg s)) now (bk_engine s)\<rparr>"
proof -
  from assms(1-3) have b: "bootstrap env (Some bs) mkdir_ok wr path fs = (Inr cfg, fs')" by (simp add: load_def)
  note r = bootstrap_result [OF b]
  from r(4) have tok: "cf_token cfg = hex_encode bs" by simp
  from r(2) have v: "cf_port cfg \<noteq> 0" "cf_token cfg \<noteq> []" by (auto simp: validate_def split: if_splits)
  let ?cl = "new_client (cf_host cfg) (cf_port cfg) (cf_token cfg)"
  have "cli_client opt env fs' = Inr ?cl"
    using assms(1,5-7) r(1) v by (simp add: cli_client_def load_config_def resolve_config_path_def marshal_def Let_def)
  moreover have ct: "ac_token (new_client h p tk) = tk" for h p tk by (simp add: new_client_def Let_def)
  have "plain (ac_token ?cl)" "ac_token ?cl \<noteq> []" "sv_token sv = ac_token ?cl"
    using hex_encode_plain [OF assms(4)] v tok assms(8) unfolding ct by simp_all
  from client_served [OF this, of c] assms(10) have serve:
    "serve_http sv ok now (call_request ?cl c) s = (case call_route c of (k, as) \<Rightarrow> handle_route sv ok now (call_request ?cl c) k as s)"
    by auto
  have "\<exists>r. (case call_route c of (k, as) \<Rightarrow> handle_route sv ok now (call_request ?cl c) k as s) =
      Some (r, s\<lparr>bk_engine := commanded c (snapshot_active (bk_reg s)) now (bk_engine s)\<rparr>) \<and> re_status r = 200"
    using assms(9,10)
    by (auto simp: handle_route_def is_metrics_route_def broker_seams_def admission_seam_def of_text_def handle_drain_def
        handle_pause_def handle_resume_def commanded_def Let_def)
  then obtain rp where rp: "serve_http sv ok now (call_request ?cl c) s =
      Some (rp, s\<lparr>bk_engine := commanded c (snapshot_active (bk_reg s)) now (bk_engine s)\<rparr>)" "re_status rp = 200"
    unfolding serve by blast
  then have "call_exit (cli_call c (reply_wire raw rp)) = exit_ok" using assms(10)
    by (auto simp: call_exit_def cli_call_def client_call_def client_do_def reply_wire_def exit_code_for_def exit_ok_def)
  with rp(1) calculation show ?thesis by blast
qed

definition plain_opts :: global_opts where
  "plain_opts = \<lparr>go_json = False, go_config = [], go_port = 0, go_token = []\<rparr>"

theorem admission_command_end_to_end_witness:
  "\<exists>fs' cl r s'. load home_env (Some [171, 5]) True WriteOk (\<lambda>_. NoFile) = (Inr (home_config ''ab05''), fs') \<and>
     cli_client plain_opts home_env fs' = Inr cl \<and>
     serve_http (plain_server\<lparr>sv_token := ''ab05''\<rparr>) True 1 (call_request cl CallDrain) fresh_broker = Some (r, s') \<and>
     s' = fresh_broker\<lparr>bk_engine := commanded CallDrain (snapshot_active (bk_reg fresh_broker)) 1 (bk_engine fresh_broker)\<rparr>"
proof -
  have tok: "hex_encode [171, 5] = ''ab05''" by (simp add: hex_encode_def hex_digit_def) code_simp
  obtain fs' where l: "load home_env (Some [171, 5]) True WriteOk (\<lambda>_. NoFile) = (Inr (home_config ''ab05''), fs')"
    by (simp add: load_def home_config_path bootstrap_def generate_token_def tok home_defaults home_valid save_def)
  from admission_command_end_to_end [OF home_config_path _ l, of plain_opts "plain_server\<lparr>sv_token := ''ab05''\<rparr>"
      quiet_outside CallDrain True 1 fresh_broker "[]"] l
  show ?thesis by (auto simp: plain_opts_def plain_server_def home_config_def)
qed

text \<open>
  A token with a trailing space locks its owner out.  The middleware trims the header's token and
  compares it with the configured one as it is, so with such a configuration \<open>brokerctl\<close>, which sends the
  token of the same file, is told 401, whatever it asks.
\<close>

theorem spaced_token_locks_out:
  "serve_http (plain_server\<lparr>sv_token := ''t ''\<rparr>) ok now (call_request (new_client [] 8765 ''t '') CallListBuilds) s =
     Some (reply_error 401 ''unauthorized'' [], s)"
proof -
  have "\<not> authorize ''t '' ''Bearer t ''" by (simp add: authorize_def trim_simps)
  then show ?thesis
    by (simp add: serve_http_def call_request_def new_client_def Let_def plain_server_def auth_exempt_def has_prefix_def)
qed

end
