(* ===== verification/Store_Migration.thy ===== *)
theory Store_Migration
  imports Broker_Prelude
begin

text \<open>
  The schema migration of the store (\<open>migrate\<close> and \<open>migrateV2\<close> of \<open>internal/store/store.go\<close> with
  \<open>schema.sql\<close> and \<open>schema_v2.sql\<close>), as the sequence of SQL statements it executes.

  SQLite runs each of them in a transaction of its own, also those of one script, so a crash leaves the
  effect of a prefix.  A database is its \<open>user_version\<close>, the columns of its tables and its indexes.
\<close>

section \<open>Statements\<close>

record database =
  db_version :: int
  db_tables :: "(string \<times> string list) list"
  db_indexes :: "string list"

datatype stmt =
    SetVersion int
  | CreateTable string "string list"
  | CreateIndex string string string
  | AddColumn string string

datatype sql_error = NoTable string | NoColumn string | DupColumn string

text \<open>\<open>CREATE\<close> is \<open>CREATE ... IF NOT EXISTS\<close>.\<close>

definition exec_stmt :: "stmt \<Rightarrow> database \<Rightarrow> sql_error + database" where
  "exec_stmt s db =
     (case s of
        SetVersion n \<Rightarrow> Inr (db\<lparr>db_version := n\<rparr>)
      | CreateTable t cs \<Rightarrow>
          (case map_of (db_tables db) t of
             Some _ \<Rightarrow> Inr db | None \<Rightarrow> Inr (db\<lparr>db_tables := AList.update t cs (db_tables db)\<rparr>))
      | CreateIndex i t c \<Rightarrow>
          if i \<in> set (db_indexes db) then Inr db
          else (case map_of (db_tables db) t of
                  None \<Rightarrow> Inl (NoTable t)
                | Some cs \<Rightarrow> if c \<in> set cs then Inr (db\<lparr>db_indexes := db_indexes db @ [i]\<rparr>) else Inl (NoColumn c))
      | AddColumn t c \<Rightarrow>
          (case map_of (db_tables db) t of
             None \<Rightarrow> Inl (NoTable t)
           | Some cs \<Rightarrow>
               if c \<in> set cs then Inl (DupColumn c)
               else Inr (db\<lparr>db_tables := AList.update t (cs @ [c]) (db_tables db)\<rparr>)))"

definition is_dup_column :: "sql_error \<Rightarrow> bool" where
  "is_dup_column e = (case e of DupColumn _ \<Rightarrow> True | _ \<Rightarrow> False)"

section \<open>The schema\<close>

definition builds_columns :: "string list" where
  "builds_columns = [''invocation_id'', ''worktree'', ''targets'', ''pid'', ''state'', ''start_time'', ''end_time'',
     ''exit_code'', ''source'']"

definition metrics_columns :: "string list" where
  "metrics_columns = [''invocation_id'', ''actions_total'', ''actions_cached'', ''cache_hit_ratio'', ''wall_ms'', ''json'']"

definition schema_sql :: "stmt list" where
  "schema_sql =
     [SetVersion 1,
      CreateTable ''builds'' builds_columns,
      CreateIndex ''idx_builds_state'' ''builds'' ''state'',
      CreateIndex ''idx_builds_start_time'' ''builds'' ''start_time'',
      CreateTable ''metrics'' metrics_columns]"

definition add_columns_v2 :: "stmt list" where
  "add_columns_v2 = map (AddColumn ''metrics'')
     [''worktree'', ''started_at'', ''finished_at'', ''exit_code'', ''success'', ''actions_executed'', ''disk_cache_hits'',
      ''remote_cache_hits'', ''executed_runners'', ''processes_total'', ''cpu_time_ms'', ''analysis_ms'', ''execution_ms'',
      ''targets_configured'', ''packages_loaded'', ''peak_heap_bytes'', ''tests_total'', ''tests_failed'', ''summary_line'',
      ''profile_path'', ''bep_path'', ''alert'']"

definition schema_v2_sql :: "stmt list" where
  "schema_v2_sql =
     [CreateTable ''metrics_runner_counts'' [''invocation_id'', ''name'', ''exec_kind'', ''count''],
      CreateTable ''action_mnemonics''
        [''invocation_id'', ''mnemonic'', ''actions_created'', ''actions_executed'', ''system_time_ms'', ''user_time_ms''],
      CreateTable ''disk_cache_reports''
        [''taken_at'', ''cache_dir'', ''total_bytes'', ''file_count'', ''oldest_mtime'', ''gc_freed_bytes''],
      CreateIndex ''idx_metrics_worktree'' ''metrics'' ''worktree'',
      CreateIndex ''idx_metrics_finished'' ''metrics'' ''finished_at'']"

definition schema_version :: int where "schema_version = 2"

section \<open>Migration\<close>

text \<open>The statements \<open>migrate\<close> executes for a version; only a duplicate column is forgiven, and only there.\<close>

definition migrate_steps :: "int \<Rightarrow> (stmt \<times> bool) list" where
  "migrate_steps v =
     (if schema_version \<le> v then []
      else (if v < 1 then map (\<lambda>s. (s, False)) schema_sql else []) @
           (if v < 2 then map (\<lambda>s. (s, True)) add_columns_v2 @ map (\<lambda>s. (s, False)) schema_v2_sql else []) @
           [(SetVersion schema_version, False)])"

fun run_steps :: "(stmt \<times> bool) list \<Rightarrow> database \<Rightarrow> sql_error option \<times> database" where
  "run_steps [] db = (None, db)"
| "run_steps ((s, tolerant) # ss) db =
     (case exec_stmt s db of
        Inr db' \<Rightarrow> run_steps ss db'
      | Inl e \<Rightarrow> if tolerant \<and> is_dup_column e then run_steps ss db else (Some e, db))"

definition migrate :: "database \<Rightarrow> sql_error option \<times> database" where
  "migrate db = run_steps (migrate_steps (db_version db)) db"

text \<open>A process that dies after \<open>k\<close> statements.\<close>

definition cut_migrate :: "nat \<Rightarrow> database \<Rightarrow> database" where
  "cut_migrate k db = snd (run_steps (take k (migrate_steps (db_version db))) db)"

section \<open>Steps that are done stay done\<close>

definition stmt_done :: "stmt \<Rightarrow> database \<Rightarrow> bool" where
  "stmt_done s db =
     (case s of
        SetVersion n \<Rightarrow> db_version db = n
      | CreateTable t cs \<Rightarrow> map_of (db_tables db) t \<noteq> None
      | CreateIndex i t c \<Rightarrow> i \<in> set (db_indexes db)
      | AddColumn t c \<Rightarrow> (\<exists>cs. map_of (db_tables db) t = Some cs \<and> c \<in> set cs))"

definition is_set :: "stmt \<Rightarrow> bool" where
  "is_set s = (case s of SetVersion _ \<Rightarrow> True | _ \<Rightarrow> False)"

lemma exec_done: "exec_stmt s db = Inr db' \<Longrightarrow> stmt_done s db'"
  by (auto simp: exec_stmt_def stmt_done_def update_conv' split: stmt.splits option.splits if_splits)

lemma dup_done: "exec_stmt s db = Inl e \<Longrightarrow> is_dup_column e \<Longrightarrow> stmt_done s db"
  by (auto simp: exec_stmt_def stmt_done_def is_dup_column_def split: stmt.splits option.splits if_splits)

lemma done_exec:
  "stmt_done s db \<Longrightarrow> exec_stmt s db = Inr db \<or> (\<exists>t c. s = AddColumn t c \<and> exec_stmt s db = Inl (DupColumn c))"
  by (cases s) (auto simp: exec_stmt_def stmt_done_def)

lemma done_stays:
  "stmt_done s db \<Longrightarrow> exec_stmt r db = Inr db' \<Longrightarrow> \<not> is_set r \<Longrightarrow> stmt_done s db'"
  by (cases r; cases s) (auto simp: exec_stmt_def stmt_done_def is_set_def update_conv' split: option.splits if_splits)

definition forgiving :: "(stmt \<times> bool) list \<Rightarrow> bool" where
  "forgiving ss \<longleftrightarrow> (\<forall>(s, tolerant)\<in>set ss. \<not> is_set s \<and> ((\<exists>t c. s = AddColumn t c) \<longrightarrow> tolerant))"

lemma run_steps_append:
  "run_steps (xs @ ys) db = (case run_steps xs db of (None, db') \<Rightarrow> run_steps ys db' | (Some e, db') \<Rightarrow> (Some e, db'))"
  by (induction xs db rule: run_steps.induct) (auto split: sum.splits)

lemma run_done:
  "run_steps ss db = (None, db') \<Longrightarrow> forgiving ss \<Longrightarrow>
     (\<forall>(s, tolerant)\<in>set ss. stmt_done s db') \<and> (\<forall>s. stmt_done s db \<longrightarrow> stmt_done s db') \<and> db_version db' = db_version db"
proof (induction ss db rule: run_steps.induct)
  case (2 s tolerant ss db)
  have f: "forgiving ss" "\<not> is_set s" using "2.prems"(2) by (auto simp: forgiving_def)
  show ?case
  proof (cases "exec_stmt s db")
    case (Inr db1)
    have v: "db_version db1 = db_version db"
      using Inr f(2) by (auto simp: exec_stmt_def is_set_def split: stmt.splits option.splits if_splits)
    from 2(2) [OF Inr _ f(1)] "2.prems"(1) Inr exec_done [OF Inr] done_stays [OF _ Inr f(2)] v show ?thesis by auto
  next
    case (Inl e)
    with "2.prems"(1) have d: "tolerant \<and> is_dup_column e" by (auto split: if_splits)
    with 2(1) [OF Inl _ _ f(1)] "2.prems"(1) Inl dup_done [OF Inl] show ?thesis by auto
  qed
qed simp

lemma run_again:
  "\<forall>(s, tolerant)\<in>set ss. stmt_done s db \<Longrightarrow> forgiving ss \<Longrightarrow> run_steps ss db = (None, db)"
proof (induction ss)
  case (Cons x ss)
  obtain s tolerant where x: "x = (s, tolerant)" by (cases x)
  from Cons have "run_steps ss db = (None, db)" "stmt_done s db" "(\<exists>t c. s = AddColumn t c) \<longrightarrow> tolerant"
    by (auto simp: forgiving_def x)
  with done_exec [of s db] show ?case by (auto simp: x is_dup_column_def)
qed simp

text \<open>A prefix that ran can be run again with the rest.\<close>

lemma run_resumes:
  assumes "run_steps ss db = (None, db')" and "forgiving ss"
  shows "run_steps ss (snd (run_steps (take k ss) db)) = (None, db')"
    and "db_version (snd (run_steps (take k ss) db)) = db_version db"
proof -
  have f: "forgiving (take k ss)" using assms(2) set_take_subset [of k ss] unfolding forgiving_def by blast
  have s: "run_steps ss d = (case run_steps (take k ss) d of (None, d') \<Rightarrow> run_steps (drop k ss) d' | (Some e, d') \<Rightarrow> (Some e, d'))" for d
    using run_steps_append [of "take k ss" "drop k ss" d] by simp
  from assms(1) obtain d1 where d1: "run_steps (take k ss) db = (None, d1)" "run_steps (drop k ss) d1 = (None, db')"
    unfolding s [of db] by (auto split: prod.splits option.splits)
  from run_done [OF d1(1) f] have "\<forall>(s, tolerant)\<in>set (take k ss). stmt_done s d1" "db_version d1 = db_version db" by auto
  with run_again [OF _ f, of d1] d1 show "run_steps ss (snd (run_steps (take k ss) db)) = (None, db')"
    and "db_version (snd (run_steps (take k ss) db)) = db_version db" by (simp_all add: s [of d1])
qed

section \<open>Properties\<close>

definition steps_v2 :: "(stmt \<times> bool) list" where
  "steps_v2 = map (\<lambda>s. (s, True)) add_columns_v2 @ map (\<lambda>s. (s, False)) schema_v2_sql"

lemma forgiving_v2: "forgiving steps_v2"
  by (auto simp: forgiving_def steps_v2_def add_columns_v2_def schema_v2_sql_def is_set_def)

lemma migrate_from_1: "migrate_steps 1 = steps_v2 @ [(SetVersion 2, False)]"
  by (simp add: migrate_steps_def schema_version_def steps_v2_def)

lemma migrate_from_2: "migrate_steps 2 = []"
  by (simp add: migrate_steps_def schema_version_def)

lemma run_last:
  "run_steps (ss @ [(SetVersion n, False)]) db = (None, db') \<longleftrightarrow>
     (\<exists>d. run_steps ss db = (None, d) \<and> db' = d\<lparr>db_version := n\<rparr>)"
  by (auto simp: run_steps_append exec_stmt_def split: prod.splits option.splits)

lemma cut_resumes:
  assumes "db_version db = 1" and "migrate db = (None, db')"
  shows "migrate (cut_migrate k db) = (None, db')"
proof -
  from assms obtain d where d: "run_steps steps_v2 db = (None, d)" "db' = d\<lparr>db_version := 2\<rparr>"
    by (auto simp: migrate_def migrate_from_1 run_last)
  show ?thesis
  proof (cases "k \<le> length steps_v2")
    case True
    then have c: "cut_migrate k db = snd (run_steps (take k steps_v2) db)" by (simp add: cut_migrate_def assms(1) migrate_from_1)
    with run_resumes [OF d(1) forgiving_v2, of k] assms(1) d(2) show ?thesis
      by (simp add: migrate_def migrate_from_1 run_last)
  next
    case False
    then have "cut_migrate k db = snd (migrate db)" by (simp add: cut_migrate_def migrate_def assms(1) migrate_from_1)
    with assms(2) d(2) show ?thesis by (simp add: migrate_def migrate_from_2)
  qed
qed

text \<open>
  C35: the upgrade from version 1 survives a crash anywhere.  If it would complete, then after any number
  of its statements the next start completes it and reaches the same schema; and a migrated database is
  left alone by every later start.
\<close>

theorem upgrade_resumes:
  assumes "db_version db = 1" and "migrate db = (None, db')"
  shows "migrate (cut_migrate k db) = (None, db') \<and> db_version db' = 2 \<and> migrate db' = (None, db')"
proof -
  from assms obtain d where "db' = d\<lparr>db_version := 2\<rparr>" by (auto simp: migrate_def migrate_from_1 run_last)
  with cut_resumes [OF assms] show ?thesis by (simp add: migrate_def migrate_from_2)
qed

definition fresh_db :: database where
  "fresh_db = \<lparr>db_version = 0, db_tables = [], db_indexes = []\<rparr>"

definition v1_db :: database where
  "v1_db = \<lparr>db_version = 1, db_tables = [(''builds'', builds_columns), (''metrics'', metrics_columns)],
     db_indexes = [''idx_builds_state'', ''idx_builds_start_time'']\<rparr>"

definition v2_db :: database where
  "v2_db = snd (run_steps steps_v2 v1_db)\<lparr>db_version := 2\<rparr>"

lemma schema_v1: "run_steps (map (\<lambda>s. (s, False)) schema_sql) fresh_db = (None, v1_db)"
  by (simp add: schema_sql_def fresh_db_def v1_db_def exec_stmt_def builds_columns_def)

lemma v1_upgrades: "run_steps steps_v2 v1_db = (None, snd (run_steps steps_v2 v1_db))"
  by code_simp

lemma v1_migrates: "migrate v1_db = (None, v2_db)"
proof -
  have "db_version v1_db = 1" by (simp add: v1_db_def)
  with v1_upgrades show ?thesis unfolding migrate_def v2_db_def by (simp add: migrate_from_1 run_last) blast
qed

theorem upgrade_resumes_witness: "migrate (cut_migrate 7 v1_db) = (None, v2_db) \<and> migrate v2_db = (None, v2_db)"
  using upgrade_resumes [OF _ v1_migrates, of 7] by (simp add: v1_db_def)

text \<open>
  The first start does not.  The schema script stamps version 1 before it creates a table; a daemon
  that dies between the stamp and the metrics table leaves a database that claims version 1, and every
  later start skips the script, fails on the missing table and changes nothing.
\<close>

theorem fresh_start_cut_sticks:
  "migrate fresh_db = (None, v2_db) \<and>
   (let db = cut_migrate 1 fresh_db in db_version db = 1 \<and> db_tables db = [] \<and> migrate db = (Some (NoTable ''metrics''), db))"
proof -
  have "migrate_steps 0 = map (\<lambda>s. (s, False)) schema_sql @ migrate_steps 1"
    by (simp add: migrate_steps_def schema_version_def)
  then have "migrate fresh_db = migrate v1_db"
    using schema_v1 by (simp add: migrate_def run_steps_append fresh_db_def v1_db_def)
  moreover have "cut_migrate 1 fresh_db = fresh_db\<lparr>db_version := 1\<rparr>"
    by (simp add: cut_migrate_def migrate_steps_def schema_version_def schema_sql_def fresh_db_def exec_stmt_def)
  moreover have "migrate (fresh_db\<lparr>db_version := 1\<rparr>) = (Some (NoTable ''metrics''), fresh_db\<lparr>db_version := 1\<rparr>)"
    by (simp add: migrate_def migrate_from_1 steps_v2_def add_columns_v2_def fresh_db_def exec_stmt_def is_dup_column_def)
  ultimately show ?thesis by (simp add: v1_migrates Let_def fresh_db_def)
qed

end
