(* ===== verification/Broker_Main.thy ===== *)
theory Broker_Main
  imports Cli_Props Store_Migration
begin

text \<open>
  The daemon's start (\<open>run\<close> of \<open>cmd/broker/main.go\<close>): configuration, store, hydration, the seams and the
  engine, up to the listening server.
\<close>

definition hydrate_limit :: nat where "hydrate_limit = 200"

datatype boot_error = BootConfig config_error | BootMkdir | BootStore sql_error | BootListen

record boot_env =
  be_env :: environment
  be_random :: "nat list option"
  be_mkdir :: bool
  be_write :: write_outcome
  be_db_dir :: bool
  be_rows :: store
  be_rows_ok :: bool
  be_now :: gotime
  be_listen :: bool
  be_version :: string
  be_outside :: outside

text \<open>
  The rows of the tables are those the database file holds; the hydration's error is logged only.  The
  base URL of the provider is built from the port.
\<close>

definition boot_ingest :: "config \<Rightarrow> ingest_config" where
  "boot_ingest cfg = \<lparr>ig_base_url = ''http://127.0.0.1:'' @ itoa (cf_port cfg), ig_disk_cache = cf_disk_cache cfg,
     ig_max_bytes = 0, ig_report_every = 0\<rparr>"

definition boot_outside :: "config \<Rightarrow> outside \<Rightarrow> outside" where
  "boot_outside cfg w =
     w\<lparr>os_kill_cfg := \<lparr>kc_grace = 0, kc_poll = 0, kc_cancel = False\<rparr>,
       os_provider := (os_provider w)\<lparr>p_base := in_base (new_ingest (boot_ingest cfg))\<rparr>,
       os_cache_dir := dc_dir (in_disk (new_ingest (boot_ingest cfg)))\<rparr>"

definition boot_registry :: "bool \<Rightarrow> gotime \<Rightarrow> store \<Rightarrow> metrics_json registry" where
  "boot_registry ok now st = snd (hydrate ok hydrate_limit now (new_registry (Some st) (Some new_hub)))"

definition broker_run :: "boot_env \<Rightarrow> files \<Rightarrow> database \<Rightarrow> (boot_error + server \<times> broker) \<times> files \<times> database" where
  "broker_run b fs db =
     (case load (be_env b) (be_random b) (be_mkdir b) (be_write b) fs of
        (Inl e, fs') \<Rightarrow> (Inl (BootConfig e), fs', db)
      | (Inr cfg, fs') \<Rightarrow>
          if \<not> be_db_dir b then (Inl BootMkdir, fs', db)
          else (case migrate db of
                  (Some e, db') \<Rightarrow> (Inl (BootStore e), fs', db')
                | (None, db') \<Rightarrow>
                    let rg = boot_registry (be_rows_ok b) (be_now b) (be_rows b);
                        eng = new_engine (broker_policy cfg);
                        sv = \<lparr>sv_token = cf_token cfg, sv_version = (if be_version b = [] then ''0.1.0'' else be_version b),
                              sv_started = be_now b, sv_seams = broker_seams (boot_outside cfg (be_outside b))\<rparr>
                    in (if be_listen b then Inr (sv, \<lparr>bk_reg = rg, bk_engine = eng\<rparr>) else Inl BootListen, fs', db')))"

section \<open>Properties\<close>

lemma hydrate_terminal: "is_terminal (b_state (hydrate_build now b))" "b_id (hydrate_build now b) = b_id b"
  by (simp_all add: hydrate_build_def)

lemma hydrate_fold:
  assumes "keyed m" and "\<forall>(i, b)\<in>set m. is_terminal (b_state b)"
  shows "keyed (foldl (\<lambda>m b. AList.update (b_id b) (hydrate_build now b) m) m bs) \<and>
    (\<forall>(i, b)\<in>set (foldl (\<lambda>m b. AList.update (b_id b) (hydrate_build now b) m) m bs). is_terminal (b_state b))"
  using assms
proof (induction bs arbitrary: m)
  case (Cons b bs)
  let ?m = "AList.update (b_id b) (hydrate_build now b) m"
  have "keyed ?m" using Cons.prems(1) by (intro keyed_update) (simp_all add: hydrate_terminal)
  moreover have "\<forall>(i, c)\<in>set ?m. is_terminal (b_state c)"
  proof safe
    fix i c assume "(i, c) \<in> set ?m"
    moreover have "distinct (map fst ?m)" using \<open>keyed ?m\<close> by (simp add: keyed_def)
    ultimately have "map_of ?m i = Some c" by simp
    then show "is_terminal (b_state c)" using Cons.prems(2)
      by (auto simp: update_conv' hydrate_terminal split: if_splits dest!: map_of_SomeD)
  qed
  ultimately show ?case using Cons.IH [of ?m] by simp
qed simp

lemma boot_registry_ok:
  "keyed (rg_builds (boot_registry ok now st)) \<and>
   (\<forall>(i, b)\<in>set (rg_builds (boot_registry ok now st)). is_terminal (b_state b))"
  using hydrate_fold [of "[]"]
  by (auto simp: boot_registry_def hydrate_def new_registry_def keyed_def split: sum.split)

lemma load_token: "load env rnd mk wr fs = (Inr cfg, fs') \<Longrightarrow> cf_token cfg \<noteq> []"
  by (auto simp: load_def bootstrap_def validate_def split: sum.splits cfg_file.splits prod.splits option.splits if_splits)

lemma migrated: "migrate db = (None, db') \<Longrightarrow> db_version db \<le> 2 \<Longrightarrow> db_version db' = 2"
  by (cases "db_version db = 2")
    (auto simp: migrate_def migrate_steps_def schema_version_def run_steps_append exec_stmt_def
      split: if_splits prod.splits option.splits)

text \<open>
  A daemon that comes up is guarded and well-formed.  Its token is not empty, so requests without one
  are refused; its tables are of the current version; its registry is keyed and shows no build as running,
  since none of the old ones can be vouched for; and its engine is the fresh one of a policy that admits
  at least one build.
\<close>

theorem boot_state:
  assumes "broker_run b fs db = (Inr (sv, s), fs', db')" and "db_version db \<le> 2"
  shows "sv_token sv \<noteq> [] \<and> \<not> authorize (sv_token sv) [] \<and> db_version db' = 2 \<and>
    keyed (rg_builds (bk_reg s)) \<and> c_building (rg_counts (bk_reg s)) = 0 \<and> c_queued (rg_counts (bk_reg s)) = 0 \<and>
    (\<exists>pol. bk_engine s = new_engine pol \<and> 1 \<le> max_concurrent pol)"
proof -
  from assms(1) obtain cfg where c: "load (be_env b) (be_random b) (be_mkdir b) (be_write b) fs = (Inr cfg, fs')"
    "migrate db = (None, db')" "sv_token sv = cf_token cfg" "bk_engine s = new_engine (broker_policy cfg)"
    "bk_reg s = boot_registry (be_rows_ok b) (be_now b) (be_rows b)"
    by (auto simp: broker_run_def Let_def split: sum.splits prod.splits option.splits if_splits)
  have "1 \<le> max_concurrent (broker_policy cfg)" by (simp add: broker_policy_def default_policy_def)
  moreover have "filter (\<lambda>b. b_state b \<noteq> state_queued \<and> \<not> is_terminal (b_state b)) (map snd (rg_builds (bk_reg s))) = []"
    "filter (\<lambda>b. b_state b = state_queued) (map snd (rg_builds (bk_reg s))) = []"
    using boot_registry_ok [of "be_rows_ok b" "be_now b" "be_rows b"] terminal_states(5)
    unfolding c(5) by (fastforce simp: filter_empty_conv)+
  then have "c_building (rg_counts (bk_reg s)) = 0" "c_queued (rg_counts (bk_reg s)) = 0"
    by (simp_all add: rg_counts_def counts_loop)
  ultimately show ?thesis
    using c load_token [OF c(1)] migrated [OF c(2) assms(2)] boot_registry_ok [of "be_rows_ok b" "be_now b" "be_rows b"]
    by (auto simp: authorize_def has_prefix_def)
qed

definition first_boot :: boot_env where
  "first_boot = \<lparr>be_env = home_env, be_random = Some [171, 5], be_mkdir = True, be_write = WriteOk, be_db_dir = True,
     be_rows = empty_store, be_rows_ok = True, be_now = 7, be_listen = True, be_version = [], be_outside = quiet_outside\<rparr>"

theorem boot_state_witness:
  "\<exists>sv s fs' db'. broker_run first_boot (\<lambda>_. NoFile) v1_db = (Inr (sv, s), fs', db') \<and> sv_token sv \<noteq> [] \<and> db_version db' = 2"
proof -
  have tok: "hex_encode [171, 5] = ''ab05''" by (simp add: hex_encode_def hex_digit_def) code_simp
  obtain fs' where l: "load home_env (Some [171, 5]) True WriteOk (\<lambda>_. NoFile) = (Inr (home_config ''ab05''), fs')"
    by (simp add: load_def home_config_path bootstrap_def generate_token_def tok home_defaults home_valid save_def)
  then obtain sv s where r: "broker_run first_boot (\<lambda>_. NoFile) v1_db = (Inr (sv, s), fs', v2_db)"
    by (simp add: broker_run_def first_boot_def v1_migrates)
  from boot_state [OF r] r show ?thesis by (auto simp: v1_db_def)
qed

end
