(* ===== verification/Load_Probe.thy ===== *)
theory Load_Probe
  imports Go_Float "HOL-Library.Word"
begin

unbundle bit_operations_syntax

text \<open>
  The load probe of the admission engine (\<open>internal/admission/probe.go\<close>, \<open>probe_darwin.go\<close>).  What the
  three \<open>sysctl\<close> calls return is a parameter, \<open>None\<close> for an error: the bytes of \<open>vm.loadavg\<close>, the number
  of processors and the memory pressure level.
\<close>

type_synonym byte = "8 word"
type_synonym uint32 = "32 word"

text \<open>\<open>binary.LittleEndian.Uint32\<close>.\<close>

definition le_uint32 :: "byte list \<Rightarrow> uint32" where
  "le_uint32 b =
     ucast (b ! 0) OR push_bit 8 (ucast (b ! 1)) OR push_bit 16 (ucast (b ! 2)) OR push_bit 24 (ucast (b ! 3))"

definition of_uint32 :: "uint32 \<Rightarrow> rat" where
  "of_uint32 w = of_nat (unat w)"

definition probe_cpu :: "byte list option \<Rightarrow> uint32 option \<Rightarrow> rat" where
  "probe_cpu raw ncpus =
     (case raw of
        None \<Rightarrow> 0
      | Some b \<Rightarrow>
          if length b < 16 then 0
          else let ld1 = le_uint32 (take 4 b); fscale = le_uint32 (take 4 (drop 12 b)) in
            if fscale = 0 then 0
            else let load1 = fl64 (of_uint32 ld1 / of_uint32 fscale);
                     ncpu = (case ncpus of Some n \<Rightarrow> if 0 < n then of_uint32 n else 1 | None \<Rightarrow> 1);
                     cpu = fl64 (load1 / ncpu)
                 in if 1 < cpu then 1 else cpu)"

definition probe_ram :: "uint32 option \<Rightarrow> int" where
  "probe_ram lvl = (case lvl of Some l \<Rightarrow> if 0 < l then uint l else 1 | None \<Rightarrow> 1)"

definition probe_sample :: "byte list option \<Rightarrow> uint32 option \<Rightarrow> uint32 option \<Rightarrow> rat \<times> int" where
  "probe_sample raw ncpus lvl = (probe_cpu raw ncpus, probe_ram lvl)"

text \<open>The probe that stands in where load gating is off.\<close>

definition nop_sample :: "rat \<times> int" where "nop_sample = (0, 1)"

section \<open>Bytes\<close>

text \<open>The kernel's \<open>struct loadavg\<close> as the comment of the probe gives it: four words, the scale last.\<close>

definition put_uint32 :: "uint32 \<Rightarrow> byte list" where
  "put_uint32 w = [ucast w, ucast (drop_bit 8 w), ucast (drop_bit 16 w), ucast (drop_bit 24 w)]"

definition put_loadavg :: "uint32 \<Rightarrow> uint32 \<Rightarrow> uint32 \<Rightarrow> uint32 \<Rightarrow> byte list" where
  "put_loadavg l1 l5 l15 fscale = concat (map put_uint32 [l1, l5, l15, fscale])"

lemma length_put [simp]: "length (put_uint32 w) = 4" "length (put_loadavg l1 l5 l15 fscale) = 16"
  by (simp_all add: put_uint32_def put_loadavg_def)

lemma le_put [simp]: "le_uint32 (put_uint32 w) = w"
proof (rule bit_word_eqI)
  fix n assume n: "n < LENGTH(32)"
  consider "n < 8" | "8 \<le> n" "n < 16" | "16 \<le> n" "n < 24" | "24 \<le> n" by linarith
  then show "bit (le_uint32 (put_uint32 w)) n \<longleftrightarrow> bit w n"
    using n by cases (auto simp: le_uint32_def put_uint32_def bit_simps less_diff_conv2)
qed

lemma loadavg_words [simp]:
  "take 4 (put_loadavg l1 l5 l15 fscale @ rest) = put_uint32 l1"
  "take 4 (drop 12 (put_loadavg l1 l5 l15 fscale @ rest)) = put_uint32 fscale"
  by (simp_all add: put_loadavg_def put_uint32_def)

section \<open>Properties\<close>

lemma of_uint32_nonneg [simp]: "0 \<le> of_uint32 w"
  unfolding of_uint32_def by (rule of_nat_0_le_iff)

text \<open>
  A sample is in range.  Whatever the system returns, the load is between 0 and 1 and the pressure level
  is positive and fits 32 bits, as the token bucket and its ramp need.
\<close>

theorem probe_in_range:
  "case probe_sample raw ncpus lvl of (cpu, ram) \<Rightarrow> 0 \<le> cpu \<and> cpu \<le> 1 \<and> 1 \<le> ram \<and> ram < 2 ^ 32"
proof -
  have "0 \<le> probe_cpu raw ncpus" "probe_cpu raw ncpus \<le> 1"
    by (auto simp: probe_cpu_def Let_def intro!: f64.rnd_nonneg divide_nonneg_nonneg split: option.split)
  moreover have "1 \<le> probe_ram lvl" "probe_ram lvl < 2 ^ 32"
    using unsigned_less [where 'b = 32 and 'a = int] by (auto simp: probe_ram_def word_less_def split: option.split)
  ultimately show ?thesis by (simp add: probe_sample_def)
qed

text \<open>
  The load of a sample.  On the kernel's record the sample is the one-minute load average divided by the
  number of processors, each division rounded to a double, and at most 1; the other two averages do not count.
\<close>

theorem probe_reads_loadavg:
  assumes "fscale \<noteq> 0" "0 < n"
  shows "probe_sample (Some (put_loadavg l1 l5 l15 fscale)) (Some n) lvl =
           (min 1 (fl64 (fl64 (of_uint32 l1 / of_uint32 fscale) / of_uint32 n)), probe_ram lvl)"
  using assms loadavg_words [where rest = "[]"]
  by (simp add: probe_sample_def probe_cpu_def Let_def min_def not_less)

theorem probe_reads_loadavg_witness:
  "probe_sample (Some (put_loadavg 2048 1024 0 2048)) (Some 1) None =
     (min 1 (fl64 (fl64 (of_uint32 2048 / of_uint32 2048) / of_uint32 1)), probe_ram None)"
  by (rule probe_reads_loadavg) simp_all

text \<open>
  The probe is blind where a trailing zero byte is taken off.  The probe reads the record with the call
  for strings.  A library that takes off a final zero byte (the parameter \<open>trim\<close>) leaves 15 bytes of the
  16-byte record the comment describes whenever the scale is below \<open>2 ^ 24\<close>, its high byte being zero; the
  sample then shows an idle machine, whatever the load.
\<close>

theorem probe_blind_on_trimmed:
  assumes trim: "\<And>b. trim (b @ [0]) = b" and "fscale < 2 ^ 24"
  shows "fst (probe_sample (Some (trim (put_loadavg l1 l5 l15 fscale))) ncpus lvl) = 0"
proof -
  have "ucast (drop_bit 24 fscale) = (0 :: byte)"
    using assms(2) by (simp add: drop_bit_eq_div word_less_nat_alt word_arith_nat_div unat_arith_simps)
  then have "put_loadavg l1 l5 l15 fscale = butlast (put_loadavg l1 l5 l15 fscale) @ [0]"
    by (simp add: put_loadavg_def put_uint32_def)
  then have "length (trim (put_loadavg l1 l5 l15 fscale)) = 15"
    using trim by (metis length_butlast length_put(2) numeral_eq_iff diff_Suc_1 numeral_nat)
  then show ?thesis by (simp add: probe_sample_def probe_cpu_def)
qed

theorem probe_blind_on_trimmed_witness:
  "fst (probe_sample (Some (butlast (put_loadavg 9000 0 0 2048))) (Some 1) None) = 0"
  by (rule probe_blind_on_trimmed) simp_all

text \<open>
  The C declaration of the record has a \<open>long\<close> scale, which a 64-bit compiler aligns to eight bytes: the word
  that the probe reads as the scale is then the padding between the averages and the scale.
\<close>

theorem probe_blind_on_padding:
  "fst (probe_sample (Some (put_loadavg l1 l5 l15 0 @ put_uint32 fscale @ put_uint32 0)) ncpus lvl) = 0"
  by (simp add: probe_sample_def probe_cpu_def put_loadavg_def put_uint32_def le_uint32_def)

end
