(* ===== verification/Broker_System.thy ===== *)
theory Broker_System
  imports Broker_Main Load_Probe
begin

text \<open>
  What the parts of the daemon may do to the two states they share.  Everything that writes to the registry
  does so through its operations (\<open>reg_moves\<close>), under ids that the locale \<open>reg_guard\<close> speaks about, and
  everything that touches the admission engine is one of its operations (\<open>served\<close>).
\<close>

section \<open>What a step may do to the registry\<close>

text \<open>
  How a hub may change beside its subscribers \<open>ns\<close> reading their channels: the channel of an attached
  subscriber only grows, one that is not attached stays so and gets nothing more.
\<close>

definition hub_moves :: "nat set \<Rightarrow> 'e hub \<Rightarrow> 'e hub \<Rightarrow> bool" where
  "hub_moves ns h h' \<longleftrightarrow> next_sub h \<le> next_sub h' \<and>
     (\<forall>n<next_sub h. (n \<notin> set (subs h) \<longrightarrow> n \<notin> set (subs h')) \<and>
        (n \<notin> ns \<longrightarrow> (\<exists>zs. sb_buf (chans h' n) = sb_buf (chans h n) @ zs \<and> (n \<notin> set (subs h) \<longrightarrow> zs = []))))"

lemma hub_moves_refl [simp]: "hub_moves ns h h"
  by (simp add: hub_moves_def)

lemma hub_movesD:
  assumes "hub_moves ns h h'" and "n < next_sub h"
  shows "n < next_sub h'" and "n \<in> set (subs h') \<Longrightarrow> n \<in> set (subs h)"
    and "n \<notin> ns \<Longrightarrow> \<exists>zs. sb_buf (chans h' n) = sb_buf (chans h n) @ zs \<and> (n \<notin> set (subs h) \<longrightarrow> zs = [])"
  using assms unfolding hub_moves_def by (blast intro: less_le_trans)+

lemma hub_moves_trans: assumes "hub_moves ns h h'" and "hub_moves ns h' h''" shows "hub_moves ns h h''"
  unfolding hub_moves_def
proof (intro conjI allI impI)
  fix n
  assume n: "n < next_sub h"
  note 1 = hub_movesD [OF assms(1) n]
  note 2 = hub_movesD [OF assms(2) 1(1)]
  show "n \<notin> set (subs h'')" if "n \<notin> set (subs h)" using 1(2) 2(2) that by blast
  assume ns: "n \<notin> ns"
  from 1(3) [OF ns] obtain zs where z: "sb_buf (chans h' n) = sb_buf (chans h n) @ zs" "n \<notin> set (subs h) \<longrightarrow> zs = []"
    by (elim exE conjE)
  from 2(3) [OF ns] obtain ys where y: "sb_buf (chans h'' n) = sb_buf (chans h' n) @ ys" "n \<notin> set (subs h') \<longrightarrow> ys = []"
    by (elim exE conjE)
  have "sb_buf (chans h'' n) = sb_buf (chans h n) @ (zs @ ys)" using y(1) z(1) by simp
  moreover have "n \<notin> set (subs h) \<longrightarrow> zs @ ys = []" using y(2) z(2) 1(2) by auto
  ultimately show "\<exists>zs. sb_buf (chans h'' n) = sb_buf (chans h n) @ zs \<and> (n \<notin> set (subs h) \<longrightarrow> zs = [])" by blast
qed (use assms in \<open>simp add: hub_moves_def\<close>)

lemma hub_moves_mono: "hub_moves ns h h' \<Longrightarrow> ns \<subseteq> ns' \<Longrightarrow> hub_moves ns' h h'"
  unfolding hub_moves_def by blast

lemma hub_moves_subscribe: "hub_moves ns h (snd (subscribe h))"
  by (simp add: hub_moves_def subscribe_def)

lemma hub_moves_drop: "hub_moves ns h (drop_sub n h)"
  by (auto simp: hub_moves_def drop_sub_def dest: notin_set_remove1)

lemma hub_moves_receive: "receive n h = Some (ev, h') \<Longrightarrow> n \<in> ns \<Longrightarrow> hub_moves ns h h'"
  by (auto simp: hub_moves_def receive_def split: list.splits)

lemma hub_moves_broadcast: "hub_wf h \<Longrightarrow> hub_moves ns h (broadcast ev h)"
proof -
  assume "hub_wf h"
  then have d: "distinct (subs h)" by (simp add: hub_wf_def)
  show ?thesis unfolding hub_moves_def broadcast_def using broadcast_loop_result [OF d d order_refl, of ev] by simp
qed

definition hub_follows :: "nat set \<Rightarrow> 'm registry \<Rightarrow> 'm registry \<Rightarrow> bool" where
  "hub_follows ns rg rg' \<longleftrightarrow> rel_option (hub_moves ns) (rg_hub rg) (rg_hub rg')"

lemma follows_same [simp]: "rg_hub rg' = rg_hub rg \<Longrightarrow> hub_follows ns rg rg'"
  by (simp add: hub_follows_def option.rel_refl)

lemma follows_trans: "hub_follows ns rg rg' \<Longrightarrow> hub_follows ns rg' rg'' \<Longrightarrow> hub_follows ns rg rg''"
  by (cases "rg_hub rg"; cases "rg_hub rg'"; cases "rg_hub rg''") (auto simp: hub_follows_def intro: hub_moves_trans)

lemma follows_buffer:
  assumes "hub_follows ns rg rg'" and "rg_hub rg = Some h" and "n < next_sub h" and "n \<notin> ns"
  obtains h' zs where "rg_hub rg' = Some h'" "n < next_sub h'" "buffer_of n rg' = buffer_of n rg @ zs"
    "attached n rg' \<Longrightarrow> attached n rg" "\<not> attached n rg \<Longrightarrow> zs = []"
proof -
  from assms(1,2) obtain h' where h': "rg_hub rg' = Some h'" "hub_moves ns h h'"
    by (auto simp: hub_follows_def option_rel_Some1)
  note m = hub_movesD [OF h'(2) assms(3)]
  from m(3) [OF assms(4)] obtain zs where "sb_buf (chans h' n) = sb_buf (chans h n) @ zs" "n \<notin> set (subs h) \<longrightarrow> zs = []"
    by (elim exE conjE)
  with that [OF h'(1) m(1), of zs] m(2) assms(2) h'(1) show thesis by (simp add: buffer_of_def attached_def)
qed

text \<open>
  The event connections of which \<open>ns\<close> has no subscription stay in step with the registry (\<open>conn_inv\<close>).
\<close>

definition conns_kept :: "nat set \<Rightarrow> 'm registry \<Rightarrow> 'm registry \<Rightarrow> bool" where
  "conns_kept ns rg rg' \<longleftrightarrow>
     (\<forall>h c. rg_hub rg = Some h \<longrightarrow> (cn_end c = None \<longrightarrow> cn_sub c < next_sub h \<and> cn_sub c \<notin> ns) \<longrightarrow> conn_inv c rg \<longrightarrow> conn_inv c rg')"

lemma kept_same: "rg_builds rg' = rg_builds rg \<Longrightarrow> rg_hub rg' = rg_hub rg \<Longrightarrow> conns_kept ns rg rg'"
  by (simp add: conns_kept_def conn_inv_def hub_ok_def attached_def closed_sub_def pending_view_def buffer_of_def)

lemma kept_trans:
  assumes "conns_kept ns rg rg'" and "hub_follows ns rg rg'" and "conns_kept ns rg' rg''" shows "conns_kept ns rg rg''"
  unfolding conns_kept_def
proof (intro allI impI)
  fix h c
  assume h: "rg_hub rg = Some h" and c: "cn_end c = None \<longrightarrow> cn_sub c < next_sub h \<and> cn_sub c \<notin> ns" "conn_inv c rg"
  from assms(2) h obtain h' where h': "rg_hub rg' = Some h'" "next_sub h \<le> next_sub h'"
    by (auto simp: hub_follows_def option_rel_Some1 hub_moves_def)
  from assms(1) h c have "conn_inv c rg'" by (simp add: conns_kept_def)
  with assms(3) h' c(1) show "conn_inv c rg''" by (auto simp: conns_kept_def)
qed

lemma kept_mono: "conns_kept ns rg rg' \<Longrightarrow> ns \<subseteq> ns' \<Longrightarrow> conns_kept ns' rg rg'"
  by (auto simp: conns_kept_def)

lemma kept_send: "side_event ev \<Longrightarrow> conns_kept ns rg (rg_broadcast ev now rg)"
  by (simp add: conns_kept_def inv_send)

lemma follows_mono: "hub_follows ns rg rg' \<Longrightarrow> ns \<subseteq> ns' \<Longrightarrow> hub_follows ns' rg rg'"
  by (auto simp: hub_follows_def intro: option.rel_mono_strong hub_moves_mono)

text \<open>
  A step applies operations that \<open>P\<close> allows and may change the store and the hub beside them.
\<close>

inductive reg_moves :: "(reg_op \<Rightarrow> bool) \<Rightarrow> nat set \<Rightarrow> 'm registry \<Rightarrow> 'm registry \<Rightarrow> bool" for P ns rg where
  still: "reg_moves P ns rg rg"
| op: "reg_moves P ns rg rg' \<Longrightarrow> P a \<Longrightarrow> reg_moves P ns rg (reg_apply ok a rg')"
| beside: "reg_moves P ns rg rg' \<Longrightarrow> rg_builds rg'' = rg_builds rg' \<Longrightarrow>
    (hub_ok rg' \<Longrightarrow> hub_ok rg'' \<and> hub_follows ns rg' rg'' \<and> conns_kept ns rg' rg'') \<Longrightarrow> reg_moves P ns rg rg''"

lemma moves_trans: "reg_moves P ns rg' rg'' \<Longrightarrow> reg_moves P ns rg rg' \<Longrightarrow> reg_moves P ns rg rg''"
  by (induction rule: reg_moves.induct) (auto intro: reg_moves.intros)

lemma moves_beside: "rg_builds rg' = rg_builds rg \<Longrightarrow> (hub_ok rg \<Longrightarrow> hub_ok rg' \<and> hub_follows ns rg rg' \<and> conns_kept ns rg rg') \<Longrightarrow> reg_moves P ns rg rg'"
  by (rule reg_moves.beside [OF reg_moves.still])

lemma moves_mono: "reg_moves P ns rg rg' \<Longrightarrow> ns \<subseteq> ns' \<Longrightarrow> reg_moves P ns' rg rg'"
proof (induction rule: reg_moves.induct)
  case (beside rg' rg'')
  then show ?case by (blast intro: reg_moves.beside follows_mono kept_mono)
qed (auto intro: reg_moves.intros)

lemma apply_hub_ok: "hub_ok rg \<Longrightarrow> hub_ok (reg_apply ok a rg)"
  by (simp add: reg_apply_core split_beta publish_all_hub_ok)

lemma moves_inv:
  "reg_moves P ns rg rg' \<Longrightarrow> keyed (rg_builds rg) \<Longrightarrow> hub_ok rg \<Longrightarrow> keyed (rg_builds rg') \<and> hub_ok rg'"
  by (induction rule: reg_moves.induct) (auto simp: keyed_apply apply_hub_ok)

lemma publish_follows: "hub_ok rg \<Longrightarrow> hub_follows ns rg (publish ok now b rg)"
  by (auto simp: publish_def broadcast_build_def hub_ok_def hub_follows_def hub_moves_broadcast split: option.split)

lemma publish_all_follows: "hub_ok rg \<Longrightarrow> hub_follows ns rg (publish_all ok now ws rg)"
proof (induction ws arbitrary: rg)
  case (Cons w ws)
  from follows_trans [OF publish_follows [OF Cons.prems] Cons.IH [OF publish_hub_ok [OF Cons.prems]]]
  show ?case by (simp add: publish_all_def)
qed (simp add: publish_all_def)

lemma hub_ok_builds [simp]: "hub_ok (rg\<lparr>rg_builds := bs\<rparr>) = hub_ok rg" "hub_ok (rg\<lparr>rg_store := st\<rparr>) = hub_ok rg"
  by (simp_all add: hub_ok_def)

lemma apply_follows: "hub_ok rg \<Longrightarrow> hub_follows ns rg (reg_apply ok a rg)"
  unfolding reg_apply_core split_beta Let_def
  by (rule follows_trans [OF _ publish_all_follows]) simp_all

lemma moves_follow: "reg_moves P ns rg rg' \<Longrightarrow> keyed (rg_builds rg) \<Longrightarrow> hub_ok rg \<Longrightarrow> hub_follows ns rg rg'"
  by (induction rule: reg_moves.induct) (auto dest: moves_inv intro: follows_trans apply_follows)

lemma moves_named:
  "reg_moves plain_op ns rg rg' \<Longrightarrow> keyed (rg_builds rg) \<Longrightarrow> pid_named (rg_builds rg) \<Longrightarrow>
     keyed (rg_builds rg') \<and> pid_named (rg_builds rg')"
  by (induction rule: reg_moves.induct) (simp_all add: keyed_apply [unfolded apply_builds] apply_builds core_pid_named)

lemma settled_trans: "settled a b \<Longrightarrow> settled b c \<Longrightarrow> settled a c"
  by (auto simp: settled_def)

lemma settled_terminal: "settled a b \<Longrightarrow> is_terminal (b_state a) \<Longrightarrow> is_terminal (b_state b)"
  by (simp add: settled_def)

lemma moves_settled:
  assumes "reg_moves plain_op ns rg rg'" "keyed (rg_builds rg)" "pid_named (rg_builds rg)"
    and "rg_get i rg = Some b" "is_terminal (b_state b)"
  shows "\<exists>b'. rg_get i rg' = Some b' \<and> settled b b'"
  using assms
proof (induction rule: reg_moves.induct)
  case still
  then show ?case by (auto simp: settled_refl)
next
  case (op rg' a ok)
  then obtain b' where b': "rg_get i rg' = Some b'" "settled b b'" by auto
  have inv: "keyed (rg_builds rg')" "pid_named (rg_builds rg')"
    using moves_named [OF op.hyps(1) op.prems(1,2)] by simp_all
  from core_settled [OF inv, of i b' a] b' settled_terminal [OF b'(2) op.prems(4)]
  obtain c where "rg_get i (reg_apply ok a rg') = Some c" "settled b' c"
    by (auto simp: rg_get_def apply_builds)
  with b'(2) show ?case by (blast intro: settled_trans)
next
  case (beside rg' rg'')
  then show ?case by (simp add: rg_get_def)
qed

lemma moves_kept: "reg_moves P ns rg rg' \<Longrightarrow> keyed (rg_builds rg) \<Longrightarrow> hub_ok rg \<Longrightarrow> conns_kept ns rg rg'"
proof (induction rule: reg_moves.induct)
  case (op rg' a ok)
  then have "conns_kept ns rg' (reg_apply ok a rg')" by (simp add: conns_kept_def inv_op)
  with op kept_trans moves_follow show ?case by blast
next
  case (beside rg' rg'')
  with moves_inv have "conns_kept ns rg' rg''" by blast
  with beside kept_trans moves_follow show ?case by blast
qed (simp add: kept_same)

text \<open>
  A build that ends under such a step is announced: its event is in the channel of every subscriber that is
  still attached and was not read from.
\<close>

definition ended :: "string \<Rightarrow> 'm registry \<Rightarrow> bool" where
  "ended i rg \<longleftrightarrow> (case rg_get i rg of None \<Rightarrow> False | Some b \<Rightarrow> is_terminal (b_state b))"

definition announced :: "string \<Rightarrow> nat \<Rightarrow> 'm registry \<Rightarrow> bool" where
  "announced i n rg \<longleftrightarrow> Some i \<in> terminal_id ` set (buffer_of n rg)"

lemma publish_delivers:
  assumes "hub_ok rg" and "attached n (publish ok now w rg)"
  shows "\<exists>k. buffer_of n (publish ok now w rg) = buffer_of n rg @ [build_event k w now]"
proof -
  let ?ev = "build_event (Suc (rg_seq (persist ok w rg))) w now"
  from assms(2) obtain h where h: "rg_hub rg = Some h"
    by (auto simp: attached_def publish_def broadcast_build_def split: option.splits)
  then have p: "rg_hub (publish ok now w rg) = Some (broadcast ?ev h)" by (simp add: publish_def broadcast_build_def)
  from assms h have "hub_wf h" "n \<in> set (subs (broadcast ?ev h))" by (simp_all add: hub_ok_def attached_def p)
  from broadcast_attached(2) [OF this] h p show ?thesis by (auto simp: buffer_of_def)
qed

lemma terminal_build_event: "is_terminal (b_state w) \<Longrightarrow> terminal_id (build_event k w now) = Some (b_id w)"
  by (simp add: terminal_id_def build_event_def to_api_def)

lemma publish_all_announces:
  "hub_ok rg \<Longrightarrow> attached n (publish_all ok now ws rg) \<Longrightarrow>
     (announced i n rg \<or> (\<exists>w\<in>set ws. b_id w = i \<and> is_terminal (b_state w))) \<Longrightarrow> announced i n (publish_all ok now ws rg)"
proof (induction ws arbitrary: rg)
  case (Cons w ws)
  let ?rg = "publish ok now w rg"
  have a: "attached n (publish_all ok now ws ?rg)" using Cons.prems(2) by (simp add: publish_all_def)
  have ok: "hub_ok ?rg" by (rule publish_hub_ok [OF Cons.prems(1)])
  have "attached n ?rg" using publish_all_view [OF ok a] by blast
  from publish_delivers [OF Cons.prems(1) this] obtain k where "buffer_of n ?rg = buffer_of n rg @ [build_event k w now]" ..
  then have "announced i n ?rg \<or> (\<exists>w\<in>set ws. b_id w = i \<and> is_terminal (b_state w))"
    using Cons.prems(3) by (auto simp: announced_def image_iff terminal_build_event)
  from Cons.IH [OF ok a this] show ?case by (simp add: publish_all_def)
qed (simp add: publish_all_def)

lemma moves_announce:
  assumes "reg_moves P ns rg rg'" and "keyed (rg_builds rg)" and "hub_ok rg" and "rg_hub rg = Some h" and "n < next_sub h" "n \<notin> ns"
    and "attached n rg'" and "ended i rg'" and "\<not> ended i rg"
  shows "announced i n rg'"
  using assms(1,7,8)
proof (induction rule: reg_moves.induct)
  case still
  with assms(9) show ?case by simp
next
  case (op rg' a ok)
  from moves_inv [OF op.hyps(1) assms(2,3)] have inv: "keyed (rg_builds rg')" "hub_ok rg'" by simp_all
  from follows_buffer [OF moves_follow [OF op.hyps(1) assms(2,3)] assms(4-6)]
  obtain h' where h': "rg_hub rg' = Some h'" "n < next_sub h'" by metis
  from follows_buffer [OF apply_follows [OF inv(2)] h' assms(6)] have att: "attached n rg'" using op.prems(1) by metis
  obtain ws bs where c: "op_core a (rg_builds rg') = (ws, bs)" by fastforce
  let ?rg = "rg'\<lparr>rg_builds := bs\<rparr>"
  have r: "reg_apply ok a rg' = publish_all ok (op_time a) ws ?rg" by (simp add: reg_apply_core c)
  have "announced i n ?rg \<or> (\<exists>w\<in>set ws. b_id w = i \<and> is_terminal (b_state w))"
  proof (cases "ended i rg'")
    case True
    with op.IH att show ?thesis by (simp add: announced_def)
  next
    case False
    from op.prems(2) obtain b where b: "map_of bs i = Some b" "is_terminal (b_state b)"
      by (auto simp: ended_def rg_get_def r split: option.splits)
    from core_writes [OF inv(1) c] have "map_of bs i = (map_of (rg_builds rg') ++ map_of (rev (writes ws))) i" by simp
    with b False have "map_of (rev (writes ws)) i = Some b"
      by (auto simp: ended_def rg_get_def map_add_def split: option.splits)
    from map_of_SomeD [OF this] b(2) show ?thesis by (auto simp: writes_def)
  qed
  from publish_all_announces [OF _ op.prems(1) [unfolded r] this] inv(2) r show ?case by simp
next
  case (beside rg' rg'')
  from moves_inv [OF beside.hyps(1) assms(2,3)] have inv: "keyed (rg_builds rg')" "hub_ok rg'" by simp_all
  from follows_buffer [OF moves_follow [OF beside.hyps(1) assms(2,3)] assms(4-6)]
  obtain h' where h': "rg_hub rg' = Some h'" "n < next_sub h'" by metis
  have f: "hub_follows ns rg' rg''" using beside.hyps(3) inv(2) by simp
  from follows_buffer [OF f h' assms(6)] beside.prems(1)
  obtain zs where "attached n rg'" "buffer_of n rg'' = buffer_of n rg' @ zs" by metis
  moreover have "ended i rg'" using beside.prems(2) beside.hyps(2) by (simp add: ended_def rg_get_def)
  ultimately show ?case using beside.IH by (auto simp: announced_def)
qed

section \<open>The operations the parts apply\<close>

text \<open>The ids a stream works under and those an event brings in.\<close>

definition stream_within :: "(string \<Rightarrow> bool) \<Rightarrow> stream \<Rightarrow> bool" where
  "stream_within allowed s \<longleftrightarrow> allowed (m_id (row_of s))"

definition payload_within :: "(string \<Rightarrow> bool) \<Rightarrow> payload \<Rightarrow> bool" where
  "payload_within allowed p \<longleftrightarrow> (case p of Started st \<Rightarrow> allowed (bs_uuid st) | _ \<Rightarrow> True)"

definition tail_within :: "(string \<Rightarrow> bool) \<Rightarrow> (string \<Rightarrow> bep_event option) \<Rightarrow> tail_event \<Rightarrow> bool" where
  "tail_within allowed dec e \<longleftrightarrow>
     (case e of
        TailLine line \<Rightarrow> (case dec (trim_space line) of None \<Rightarrow> True | Some ev \<Rightarrow> payload_within allowed (be_payload ev))
      | _ \<Rightarrow> True)"

text \<open>
  A predicate on operations that lets everything through but names of builds a client or a build event
  stream may not use.
\<close>

locale reg_guard =
  fixes P :: "reg_op \<Rightarrow> bool" and allowed :: "string \<Rightarrow> bool"
  assumes dereg [simp, intro]: "P (DeregisterOp i ex now)"
    and reap [simp, intro]: "P (ReapOp seen now)"
    and register [intro]: "allowed (b_id b) \<Longrightarrow> P (RegisterOp b now)"
    and upsert [intro]: "allowed (b_id b) \<Longrightarrow> P (UpsertOp b now)"
    and unnamed [simp]: "allowed []"
begin

lemma moves_apply: "P a \<Longrightarrow> reg_moves P ns rg (reg_apply ok a rg)"
  by (rule reg_moves.op [OF reg_moves.still])

lemma moves_upsert: "allowed (b_id b) \<Longrightarrow> reg_moves P ns rg (snd (rg_upsert ok b now rg))"
  using moves_apply [of "UpsertOp b now" ns rg ok] by auto

lemma moves_reconcile: "reg_moves P ns rg (snd (reconcile_once resolve scan now ok rg))"
proof (cases scan)
  case (Inr ps)
  have "reg_moves P ns rg (fst (foldl (\<lambda>s e. reconcile_one resolve e s) (rg, seen) ps))" for seen
  proof (induction ps rule: rev_induct)
    case (snoc e ps)
    obtain p k t where e: "e = (p, k, t)" by (cases e)
    obtain rg1 seen1 where s: "foldl (\<lambda>s e. reconcile_one resolve e s) (rg, seen) ps = (rg1, seen1)" by fastforce
    with snoc have "reg_moves P ns rg rg1" by simp
    moreover have "reg_moves P ns rg1 (fst (reconcile_one resolve e (rg1, seen1)))"
      by (auto simp: reconcile_one_def e reg_moves.still moves_upsert split: sum.split)
    ultimately show ?case by (simp add: s) (rule moves_trans)
  qed (simp add: reg_moves.still)
  moreover obtain rg1 seen1 where s: "foldl (\<lambda>s e. reconcile_one resolve e s) (rg, {}) ps = (rg1, seen1)" by fastforce
  ultimately have "reg_moves P ns rg rg1" by (metis fst_conv)
  moreover have "reg_moves P ns rg1 (rg_reap ok seen1 now rg1)" using moves_apply [of "ReapOp seen1 now" ns rg1 ok] by simp
  ultimately show ?thesis using Inr s moves_trans by (simp add: reconcile_once_def)
qed (simp add: reconcile_once_def reg_moves.still)

lemma moves_kill:
  assumes "handle_kill cfg freshen i body env took rg = Some (r, sent, rg')"
    and "\<And>f. freshen = Some f \<Longrightarrow> reg_moves P ns rg (f rg)"
  shows "reg_moves P ns rg rg'"
proof -
  from assms(1) have "rg' = rg \<or> (\<exists>f. freshen = Some f \<and> rg' = f rg)"
    by (auto simp: handle_kill_def Let_def split: if_splits option.splits prod.splits)
  with assms(2) reg_moves.still show ?thesis by blast
qed

lemma moves_register: "(\<And>r. req = Some r \<Longrightarrow> allowed (rr_id r)) \<Longrightarrow> reg_moves P ns rg (snd (handle_register ok now req rg))"
proof -
  assume r: "\<And>r. req = Some r \<Longrightarrow> allowed (rr_id r)"
  have "snd (handle_register ok now req rg) = rg \<or>
      (\<exists>r. req = Some r \<and> snd (handle_register ok now req rg) = snd (rg_register ok (to_domain r) now rg))"
    by (auto simp: handle_register_def split: option.split sum.split prod.split)
  moreover have "reg_moves P ns rg (snd (rg_register ok (to_domain r) now rg))" if "req = Some r" for r
    using moves_apply [of "RegisterOp (to_domain r) now" ns rg ok] register [of "to_domain r" now] r [OF that]
    by (simp add: to_domain_def)
  ultimately show ?thesis by (auto simp: reg_moves.still)
qed

lemma moves_deregister_path: "reg_moves P ns rg (snd (handle_deregister_path ok now i x rg))"
  using moves_apply [OF dereg, of ns rg ok] by (simp add: handle_deregister_path_def split_beta Let_def)

lemma moves_deregister: "reg_moves P ns rg (snd (handle_deregister ok now req rg))"
  using moves_apply [OF dereg, of ns rg ok]
  by (simp add: handle_deregister_def split_beta reg_moves.still split: option.split)

text \<open>Build event streams.\<close>

lemma fresh_stream [simp]: "stream_within allowed (reset_state s)" "stream_within allowed (new_stream path wt)"
  by (simp_all add: stream_within_def row_of_def reset_state_def new_stream_def fresh_row_def empty_row_def)

lemma moves_push: "stream_within allowed s \<Longrightarrow> reg_moves P ns rg (push_command_targets io s rg)"
  by (simp add: push_command_targets_def reg_moves.still moves_upsert stream_within_def)

lemma moves_bind: "stream_within allowed s \<Longrightarrow> stream_within allowed (fst (bind_build io s rg)) \<and> reg_moves P ns rg (snd (bind_build io s rg))"
proof -
  assume s: "stream_within allowed s"
  have k: "stream_within allowed (s\<lparr>ss_bound := True\<rparr>)" using s by (simp add: stream_within_def row_of_def)
  have "reg_moves P ns rg (snd (rg_upsert (io_row io) (stub_build io s) (io_now io) rg))"
    using s by (intro moves_upsert) (simp add: stub_build_def stream_within_def)
  from moves_trans [OF moves_push [OF k] this] moves_push [OF k] k s show ?thesis
    by (auto simp: bind_build_def Let_def reg_moves.still split: option.split)
qed

lemma moves_finalize:
  assumes "stream_within allowed (fst q)" and "\<And>r rg. reg_moves P ns rg (sc_on_finalize cfg r rg)"
  shows "stream_within allowed (fst (finalize cfg io q)) \<and> reg_moves P ns (snd q) (snd (finalize cfg io q))"
proof -
  obtain s rg where q: "q = (s, rg)" by (cases q)
  show ?thesis
  proof (cases "ss_row s")
    case (Some r)
    let ?r = "finalize_alert cfg io r rg" and ?rg = "\<lambda>r. persist_metrics io r (ss_raw s) rg"
    have id: "m_id ?r = m_id r" by (simp add: finalize_alert_def Let_def split: option.split)
    have "reg_moves P ns rg (?rg ?r)"
      by (rule moves_beside) (auto simp: persist_metrics_def hub_ok_def intro!: kept_same split: option.split sum.split)
    moreover have "reg_moves P ns (?rg ?r) (snd (rg_upsert (io_row io) (enrich_build cfg io ?r) (io_now io) (?rg ?r)))"
      using assms(1) Some id by (intro moves_upsert) (simp add: enrich_build_def q stream_within_def row_of_def)
    ultimately have "reg_moves P ns rg (sc_on_finalize cfg ?r
        (snd (rg_upsert (io_row io) (enrich_build cfg io ?r) (io_now io) (?rg ?r))))"
      using assms(2) moves_trans by blast
    with assms(1) Some id show ?thesis
      by (auto simp: finalize_def q Let_def reg_moves.still stream_within_def row_of_def)
  qed (use assms(1) in \<open>simp add: finalize_def q reg_moves.still\<close>)
qed

lemma moves_payload:
  assumes "stream_within allowed s" and "payload_within allowed p"
  shows "stream_within allowed (fst (on_payload cfg io p (s, rg))) \<and> reg_moves P ns rg (snd (on_payload cfg io p (s, rg)))"
proof (cases p)
  case (Started st)
  have "stream_within allowed (on_started st s)"
    using assms Started
    by (cases "ss_row s")
       (auto simp: stream_within_def payload_within_def on_started_def upd_row_def row_of_def Let_def empty_row_def split: option.split)
  from moves_bind [OF this] show ?thesis by (simp add: on_payload_def Started)
next
  case (TestResult t)
  with assms show ?thesis
    by (cases "ss_row s")
       (auto simp: on_payload_def stream_within_def row_of_def upd_row_def on_test_def Let_def reg_moves.still)
next
  case (BuildMetrics bm)
  with assms extract_row [where bm = bm] show ?thesis
    by (cases "ss_row s")
       (auto simp: on_payload_def stream_within_def row_of_def upd_row_def Let_def reg_moves.still split: option.split)
next
  case (Finished f)
  with assms show ?thesis
    by (cases "ss_row s")
       (auto simp: on_payload_def stream_within_def row_of_def upd_row_def on_finished_def Let_def reg_moves.still
          split: option.split)
next
  case OtherPayload
  with assms show ?thesis by (simp add: on_payload_def reg_moves.still)
qed

lemma moves_tail:
  assumes "stream_within allowed (fst q)" and "tail_within allowed (sc_decode cfg) e"
    and "\<And>r rg. reg_moves P ns rg (sc_on_finalize cfg r rg)"
  shows "stream_within allowed (fst (tail_step cfg (e, io) q)) \<and> reg_moves P ns (snd q) (snd (tail_step cfg (e, io) q))"
proof -
  note fin = moves_finalize [OF _ assms(3)]
  obtain s rg where q: "q = (s, rg)" by (cases q)
  show ?thesis
  proof (cases e)
    case (TailLine line)
    show ?thesis
    proof (cases "sc_decode cfg (trim_space line)")
      case None
      with assms(1) show ?thesis
        by (simp add: tail_step_def TailLine consume_def Let_def q reg_moves.still stream_within_def row_of_def)
    next
      case (Some ev)
      let ?s = "if ss_row s = None then reset_state s else s"
      have s: "stream_within allowed ?s" using assms(1) by (simp add: q)
      have p: "payload_within allowed (be_payload ev)" using assms(2) TailLine Some by (simp add: tail_within_def)
      obtain s1 rg1 where 1: "on_payload cfg io (be_payload ev) (?s, rg) = (s1, rg1)" by fastforce
      from moves_payload [OF s p, of cfg io rg] have m1: "stream_within allowed s1" "reg_moves P ns rg rg1"
        unfolding 1 by simp_all
      obtain s2 rg2 where 2: "(if be_pattern ev \<noteq> [] then let s' = s1\<lparr>ss_patterns := be_pattern ev\<rparr> in (s', push_command_targets io s' rg1)
         else (s1, rg1)) = (s2, rg2)" by fastforce
      have "stream_within allowed (s1\<lparr>ss_patterns := be_pattern ev\<rparr>)" using m1(1) by (simp add: stream_within_def row_of_def)
      from moves_push [OF this, of ns rg1 io] this m1(1) 2
      have m2: "stream_within allowed s2" "reg_moves P ns rg1 rg2"
        by (auto simp: Let_def reg_moves.still split: if_splits)
      have d: "dispatch cfg io ev q = (if be_last ev then finalize cfg io (s2, rg2) else (s2, rg2))"
        by (simp only: dispatch_def q Let_def split_conv 1 2 [unfolded Let_def])
      from fin [of "(s2, rg2)" io] m2 moves_trans [OF m2(2) m1(2)]
      have "stream_within allowed (fst (dispatch cfg io ev q)) \<and> reg_moves P ns rg (snd (dispatch cfg io ev q))"
        unfolding d by (auto intro: moves_trans)
      with Some assms(1) show ?thesis
        by (simp add: tail_step_def TailLine consume_def Let_def q reg_moves.still)
    qed
  qed (use fin [OF assms(1), of io] in \<open>simp_all add: tail_step_def split_beta\<close>)
qed

end

definition proper_id :: "string \<Rightarrow> bool" where
  "proper_id i \<longleftrightarrow> \<not> has_prefix i ''pid-''"

interpretation plain_ops: reg_guard plain_op proper_id
  by unfold_locales (simp_all add: proper_id_def has_prefix_def)

interpretation all_ops: reg_guard "\<lambda>_. True" "\<lambda>_. True"
  by unfold_locales simp_all

section \<open>What a step may do to the engine\<close>

lemma served_op: "served pol e \<Longrightarrow> operate a e = Some e' \<Longrightarrow> served pol e'"
  by (rule served.op)

lemma served_admit: "served pol e \<Longrightarrow> served pol (snd (handle_admit body sn now e))"
proof -
  assume e: "served pol e"
  have "served pol (snd (admit_call req sn now e))" for req
  proof -
    obtain p e1 where a: "attach req sn now e = (p, e1)" by fastforce
    have s: "served pol e1" by (rule served_op [OF e, of "OpAttach req sn now"]) (simp add: a)
    have "served pol e2" if "admit_return WakeVerdict p now e1 = Some (v, e2)" for v e2
      by (rule served_op [OF s, of "OpReturn WakeVerdict p now"]) (simp only: operate.simps that option.map snd_conv)
    moreover have "served pol (detach p t e1)" for t
      by (rule served_op [OF s, of "OpReturn WakeTimer p t"]) simp
    ultimately show ?thesis by (auto simp: admit_call_def a simp del: admit_return.simps split: option.split)
  qed
  with e show ?thesis by (simp add: handle_admit_def split_beta)
qed

lemma served_releases: "served pol e \<Longrightarrow> served pol (snd (handle_release i sn now e))"
  "served pol e \<Longrightarrow> served pol (snd (terminal_release sn now l e))"
  using served_op [of pol e "OpRelease j sn now" for j]
  by (simp_all add: handle_release_def terminal_release_def split: list.split)

lemma served_switches:
  assumes "served pol e"
  shows "served pol (snd (handle_pause sn now e))" "served pol (snd (handle_resume sn now e))"
    "served pol (snd (handle_drain sn now e))"
  using served_op [OF assms, of "OpPause True sn now"] served_op [OF assms, of "OpResume sn now"]
    served_op [OF assms, of "OpDrain True sn now"]
  by (simp_all add: handle_pause_def handle_resume_def handle_drain_def)

section \<open>Requests\<close>

text \<open>The reconcile on demand of a kill is a discovery pass, as the daemon wires it.\<close>

record scan =
  sn_resolve :: "string \<Rightarrow> resolve_error + worktree"
  sn_procs :: "proc_error + (proc_info \<times> bool \<times> gotime) list"
  sn_now :: gotime
  sn_ok :: bool

definition scan_pass :: "scan \<Rightarrow> metrics_json registry \<Rightarrow> metrics_json registry" where
  "scan_pass c rg = snd (reconcile_once (sn_resolve c) (sn_procs c) (sn_now c) (sn_ok c) rg)"

definition with_scan :: "scan \<Rightarrow> outside \<Rightarrow> outside" where
  "with_scan c w = w\<lparr>os_freshen := Some (scan_pass c)\<rparr>"

definition request_within :: "(string \<Rightarrow> bool) \<Rightarrow> http_request \<Rightarrow> bool" where
  "request_within allowed rq \<longleftrightarrow> (case rq_register rq of None \<Rightarrow> True | Some r \<Rightarrow> allowed (rr_id r))"

context reg_guard
begin

lemma moves_scan: "reg_moves P ns rg (scan_pass c rg)"
  by (simp add: scan_pass_def moves_reconcile)

lemma moves_metrics_seam:
  assumes "metrics_seam w st k now rq as s = Some (r, s')"
  shows "reg_moves P ns (bk_reg s) (bk_reg s') \<and> bk_engine s' = bk_engine s"
proof -
  from assms have "s' = s \<or> s' = keep_report w st s" by (auto simp: metrics_seam_def Let_def split: if_splits)
  moreover have "reg_moves P ns (bk_reg s) (bk_reg (keep_report w st s))"
    by (rule moves_beside) (auto simp: keep_report_def hub_ok_def intro!: kept_same split: option.splits)
  ultimately show ?thesis by (auto simp: reg_moves.still keep_report_def split: option.split)
qed

lemma moves_kill_seam:
  assumes "kill_seam (with_scan c w) now rq as s = Some (r, s')"
  shows "reg_moves P ns (bk_reg s) (bk_reg s') \<and> bk_engine s' = bk_engine s"
proof -
  from assms obtain x sent rg where k: "handle_kill (os_kill_cfg (with_scan c w)) (os_freshen (with_scan c w)) (hd as)
      (rq_kill rq) (os_kill_env (with_scan c w)) (os_kill_took (with_scan c w)) (bk_reg s) = Some (x, sent, rg)"
    and s': "s' = s\<lparr>bk_reg := rg\<rparr>"
    by (auto simp: kill_seam_def split: option.splits kill_reply.splits)
  from moves_kill [OF k] moves_scan s' show ?thesis by (auto simp: with_scan_def)
qed

lemma moves_admission_seam:
  assumes "admission_seam k now rq as s = Some (r, s')" and "served pol (bk_engine s)"
  shows "bk_reg s' = bk_reg s \<and> served pol (bk_engine s')"
  using assms served_admit [OF assms(2)] served_releases(1) [OF assms(2)] served_switches [OF assms(2)]
  by (cases k) (auto simp: admission_seam_def of_text_def Let_def)

lemma moves_route:
  assumes "handle_route (sv\<lparr>sv_seams := broker_seams (with_scan c w)\<rparr>) ok now rq k as s = Some (r, s')"
    and "request_within allowed rq" and "served pol (bk_engine s)"
  shows "reg_moves P ns (bk_reg s) (bk_reg s') \<and> served pol (bk_engine s')"
proof -
  have reg: "reg_moves P ns (bk_reg s) (snd (handle_register ok now (rq_register rq) (bk_reg s)))"
    by (rule moves_register) (use assms(2) in \<open>simp add: request_within_def\<close>)
  have met: "reg_moves P ns (bk_reg s) (bk_reg s') \<and> served pol (bk_engine s')"
    if "sm_metrics (broker_seams (with_scan c w)) k now rq as s = Some (r, s')"
    using that moves_metrics_seam assms(3) by (fastforce simp: broker_seams_def split: option.splits)
  have adm: "reg_moves P ns (bk_reg s) (bk_reg s') \<and> served pol (bk_engine s')"
    if "sm_admitter (broker_seams (with_scan c w)) k now rq as s = Some (r, s')"
    using that moves_admission_seam [OF _ assms(3)] by (fastforce simp: broker_seams_def reg_moves.still)
  have kil: "reg_moves P ns (bk_reg s) (bk_reg s') \<and> served pol (bk_engine s')"
    if "sm_killer (broker_seams (with_scan c w)) now rq as s = Some (r, s')"
    using that moves_kill_seam assms(3) by (fastforce simp: broker_seams_def)
  show ?thesis
    using assms(1,3) reg met adm kil moves_deregister moves_deregister_path
    by (cases k) (auto simp: handle_route_def on_reg_def is_metrics_route_def reg_moves.still)
qed

lemma moves_http:
  assumes "serve_http (sv\<lparr>sv_seams := broker_seams (with_scan c w)\<rparr>) ok now rq s = Some (r, s')"
    and "request_within allowed rq" and "served pol (bk_engine s)"
  shows "reg_moves P ns (bk_reg s) (bk_reg s') \<and> served pol (bk_engine s')"
  using assms(1)
proof (cases rule: http_cases)
  case (served p)
  from served(3) show ?thesis
  proof (cases rule: mux_cases)
    case (route k as)
    from moves_route [OF route(2) assms(2,3)] show ?thesis .
  qed (use assms(3) in \<open>simp add: reg_moves.still\<close>)
qed (use assms(3) in \<open>simp_all add: reg_moves.still\<close>)

end

end
