(* ===== verification/Daemon_Run.thy ===== *)
theory Daemon_Run
  imports Broker_System
begin

text \<open>
  The whole daemon (\<open>run\<close> of \<open>cmd/broker/main.go\<close>): the registry, the admission engine, the manager with its
  tailers, the long polls, the event connections and the terminal-release loop behind one state, stepped by
  everything that runs in the process, in any order.  A step runs to its end before the next one; the
  interleavings inside an operation are those of \<open>Engine_Steps\<close> and \<open>Registry_Sync\<close>.
\<close>

section \<open>The daemon\<close>

text \<open>
  \<open>dm_mgr\<close> is the manager of the tailers with its idle times, \<open>dm_streams\<close> the streams of the tailers,
  \<open>dm_polls\<close> the waiters the admission handlers wait for, \<open>dm_opened\<close> the event connections that have written
  their snapshot and \<open>dm_conns\<close> those that have subscribed since, each under the number of its goroutine.
  \<open>dm_term\<close> is the terminal-release loop once it has subscribed.
\<close>

record daemon =
  dm_broker :: broker
  dm_mgr :: "(string \<Rightarrow> gotime option) \<times> manager"
  dm_streams :: "nat \<Rightarrow> stream"
  dm_polls :: "nat \<Rightarrow> nat option"
  dm_opened :: "nat \<Rightarrow> metrics_json conn option"
  dm_conns :: "nat \<Rightarrow> metrics_json conn option"
  dm_term :: "term_loop option"

text \<open>
  A request that runs to its end, the two halves of a long poll, the loops of discovery, of the manager and
  of the disk reports, an event of a tailer, the life of an event connection, the goroutines of the
  terminal-release loop, and the timers and tickers of the engine.
\<close>

datatype daemon_act =
    ActRequest scan disk_walk outside bool gotime http_request
  | ActPoll nat gotime http_request
  | ActReturn nat Engine.wake gotime
  | ActScan scan
  | ActPass gotime
  | ActTail nat "string \<Rightarrow> bep_event option" "build_metrics option \<Rightarrow> string option" gotime tail_event io
  | ActReport disk_walk bool gotime
  | ActConnect nat bool gotime http_request
  | ActSubscribe nat
  | ActWake nat Events_Stream.wake
  | ActTermStart
  | ActForward
  | ActRelease gotime
  | ActTimer string gotime
  | ActQueueGc gotime
  | ActStaggerGc gotime
  | ActSample "byte list option" "uint32 option" "uint32 option" gotime
  | ActReap "int \<Rightarrow> signal_result" gotime

definition on_engine :: "(registry_snapshot \<Rightarrow> engine \<Rightarrow> engine) \<Rightarrow> daemon \<Rightarrow> daemon" where
  "on_engine f d =
     d\<lparr>dm_broker := (dm_broker d)\<lparr>bk_engine := f (snapshot_active (bk_reg (dm_broker d))) (bk_engine (dm_broker d))\<rparr>\<rparr>"

definition set_registry :: "metrics_json registry \<Rightarrow> daemon \<Rightarrow> daemon" where
  "set_registry rg d = d\<lparr>dm_broker := (dm_broker d)\<lparr>bk_reg := rg\<rparr>\<rparr>"

text \<open>The killer reconciles before it looks a build up, the provider walks the disk cache before it answers.\<close>

definition daemon_outside :: "config \<Rightarrow> scan \<Rightarrow> disk_walk \<Rightarrow> gotime \<Rightarrow> metrics_json registry \<Rightarrow> outside \<Rightarrow> outside" where
  "daemon_outside cfg c k now rg w =
     with_scan c ((boot_outside cfg w)\<lparr>os_fresh_view := fresh_report (new_ingest (boot_ingest cfg)) k now rg\<rparr>)"

text \<open>A request gets through the middleware to the handler of a route.\<close>

definition reaches :: "server \<Rightarrow> http_request \<Rightarrow> route_kind \<Rightarrow> bool" where
  "reaches sv rq k \<longleftrightarrow>
     (case pct_decode (rq_escaped rq) of
        None \<Rightarrow> False
      | Some path \<Rightarrow> auth_exempt path \<or> authorize (sv_token sv) (rq_auth rq)) \<and>
     (case find_handler (rq_method rq) (rq_escaped rq) of Found k' as \<Rightarrow> k' = k | _ \<Rightarrow> False)"

lemma reaches_handler:
  assumes "reaches sv rq k"
  shows "\<exists>as. find_handler (rq_method rq) (rq_escaped rq) = Found k as \<and>
    serve_http sv ok now rq s = handle_route sv ok now rq k as s"
  using assms by (auto simp: reaches_def serve_http_def serve_mux_def split: option.splits handler.splits)

text \<open>The tailers a pass of the manager has started.\<close>

definition start_streams :: "manager \<Rightarrow> manager \<Rightarrow> (nat \<Rightarrow> stream) \<Rightarrow> nat \<Rightarrow> stream" where
  "start_streams m m' ss n =
     (if n < mg_next m then ss n
      else case map_of (mg_running m') n of None \<Rightarrow> ss n | Some (wt, c) \<Rightarrow> new_stream (bep_path_for wt) wt)"

text \<open>
  A tailer reads lines as long as it runs, starts again only while its context lives and stops only after
  that is cancelled; its goroutine then takes the entry of its worktree out of the map.
\<close>

definition tail_enabled :: "tail_event \<Rightarrow> bool \<Rightarrow> bool" where
  "tail_enabled e cancelled = (case e of TailLine _ \<Rightarrow> True | TailRestart \<Rightarrow> \<not> cancelled | TailStop \<Rightarrow> cancelled)"

fun daemon_step :: "config \<Rightarrow> server \<Rightarrow> daemon_act \<Rightarrow> daemon \<Rightarrow> daemon option" where
  "daemon_step cfg sv (ActRequest c k w ok now rq) d =
     map_option (\<lambda>(r, s). d\<lparr>dm_broker := s\<rparr>)
       (serve_http (sv\<lparr>sv_seams := broker_seams (daemon_outside cfg c k now (bk_reg (dm_broker d)) w)\<rparr>) ok now rq (dm_broker d))"
| "daemon_step cfg sv (ActPoll n now rq) d =
     (case rq_admit rq of
        None \<Rightarrow> None
      | Some req \<Rightarrow>
          if \<not> reaches sv rq RtAdmit \<or> req_id req = [] \<or> dm_polls d n \<noteq> None then None
          else let (p, e) = attach req (snapshot_active (bk_reg (dm_broker d))) now (bk_engine (dm_broker d))
               in Some (d\<lparr>dm_broker := (dm_broker d)\<lparr>bk_engine := e\<rparr>, dm_polls := (dm_polls d)(n \<mapsto> p)\<rparr>))"
| "daemon_step cfg sv (ActReturn n k now) d =
     (case dm_polls d n of
        None \<Rightarrow> None
      | Some p \<Rightarrow>
          map_option (\<lambda>(v, e). d\<lparr>dm_broker := (dm_broker d)\<lparr>bk_engine := e\<rparr>, dm_polls := (dm_polls d)(n := None)\<rparr>)
            (admit_return k p now (bk_engine (dm_broker d))))"
| "daemon_step cfg sv (ActScan c) d = Some (set_registry (scan_pass c (bk_reg (dm_broker d))) d)"
| "daemon_step cfg sv (ActPass now) d =
     (let s = mgr_reconcile now (rg_snapshot (bk_reg (dm_broker d))) (dm_mgr d)
      in Some (d\<lparr>dm_mgr := s, dm_streams := start_streams (snd (dm_mgr d)) (snd s) (dm_streams d)\<rparr>))"
| "daemon_step cfg sv (ActTail n dec mar now e io) d =
     (case map_of (mg_running (snd (dm_mgr d))) n of
        None \<Rightarrow> None
      | Some (wt, cancelled) \<Rightarrow>
          if \<not> tail_enabled e cancelled then None
          else
            let (s, rg) = tail_step (tailer_config (new_ingest (boot_ingest cfg)) dec mar now) (e, io)
                            (dm_streams d n, bk_reg (dm_broker d))
            in Some (set_registry rg (d\<lparr>dm_streams := (dm_streams d)(n := s),
                 dm_mgr := (fst (dm_mgr d), if e = TailStop then tailer_exit n (snd (dm_mgr d)) else snd (dm_mgr d))\<rparr>)))"
| "daemon_step cfg sv (ActReport k ok now) d =
     (case rg_store (bk_reg (dm_broker d)) of
        None \<Rightarrow> None
      | Some st \<Rightarrow>
          if dc_dir (in_disk (new_ingest (boot_ingest cfg))) = [] then None
          else
            let (st', _) = disk_report_tick (in_disk (new_ingest (boot_ingest cfg))) now (bk_reg (dm_broker d))
                             (dw_removable k) (dw_ok k) (dw_items k) ok st
            in Some (set_registry ((bk_reg (dm_broker d))\<lparr>rg_store := Some st'\<rparr>) d))"
| "daemon_step cfg sv (ActConnect n ok now rq) d =
     (if \<not> reaches sv rq RtEvents \<or> rq_upgrade rq \<noteq> None \<or> dm_opened d n \<noteq> None \<or> dm_conns d n \<noteq> None then None
      else Some (d\<lparr>dm_opened := (dm_opened d)(n \<mapsto> open_conn ok now (bk_reg (dm_broker d)))\<rparr>))"
| "daemon_step cfg sv (ActSubscribe n) d =
     (case dm_opened d n of
        None \<Rightarrow> None
      | Some c \<Rightarrow>
          let (c', rg) = subscribe_conn c (bk_reg (dm_broker d))
          in Some (set_registry rg (d\<lparr>dm_opened := (dm_opened d)(n := None), dm_conns := (dm_conns d)(n \<mapsto> c')\<rparr>)))"
| "daemon_step cfg sv (ActWake n w) d =
     (case dm_conns d n of
        None \<Rightarrow> None
      | Some c \<Rightarrow>
          let (c', rg) = conn_step w c (bk_reg (dm_broker d))
          in Some (set_registry rg (d\<lparr>dm_conns := (dm_conns d)(n \<mapsto> c')\<rparr>)))"
| "daemon_step cfg sv ActTermStart d =
     (if dm_term d \<noteq> None then None
      else let (l, rg) = terminal_subscribe (bk_reg (dm_broker d)) in Some (set_registry rg (d\<lparr>dm_term := Some l\<rparr>)))"
| "daemon_step cfg sv ActForward d =
     (case dm_term d of
        None \<Rightarrow> None
      | Some l \<Rightarrow> let (l', rg) = terminal_forward l (bk_reg (dm_broker d)) in Some (set_registry rg (d\<lparr>dm_term := Some l'\<rparr>)))"
| "daemon_step cfg sv (ActRelease now) d =
     (case dm_term d of
        None \<Rightarrow> None
      | Some l \<Rightarrow>
          let (l', e) = terminal_release (snapshot_active (bk_reg (dm_broker d))) now l (bk_engine (dm_broker d))
          in Some (d\<lparr>dm_broker := (dm_broker d)\<lparr>bk_engine := e\<rparr>, dm_term := Some l'\<rparr>))"
| "daemon_step cfg sv (ActTimer i now) d = Some (on_engine (\<lambda>sn. timer_fire i sn now) d)"
| "daemon_step cfg sv (ActQueueGc now) d = Some (on_engine (\<lambda>sn. gc_queued now) d)"
| "daemon_step cfg sv (ActStaggerGc now) d = Some (on_engine (\<lambda>sn. stagger_tick now) d)"
| "daemon_step cfg sv (ActSample raw ncpus lvl now) d =
     (let (cpu, ram) = probe_sample raw ncpus lvl in Some (on_engine (\<lambda>sn. on_load_sample cpu ram sn now) d))"
| "daemon_step cfg sv (ActReap signal0 now) d =
     Some (on_engine (\<lambda>sn. reap_dead_pids (adapter_alive signal0 (bk_reg (dm_broker d))) sn now) d)"

fun daemon_run :: "config \<Rightarrow> server \<Rightarrow> daemon_act list \<Rightarrow> daemon \<Rightarrow> daemon option" where
  "daemon_run cfg sv [] d = Some d"
| "daemon_run cfg sv (a # as) d = (case daemon_step cfg sv a d of None \<Rightarrow> None | Some d' \<Rightarrow> daemon_run cfg sv as d')"

text \<open>The daemon when its listener is open and no goroutine has run yet.\<close>

definition start_daemon :: "broker \<Rightarrow> daemon" where
  "start_daemon s =
     \<lparr>dm_broker = s, dm_mgr = (Map.empty, new_manager), dm_streams = (\<lambda>_. new_stream [] []), dm_polls = (\<lambda>_. None),
      dm_opened = (\<lambda>_. None), dm_conns = (\<lambda>_. None), dm_term = None\<rparr>"

section \<open>Every step keeps the invariants\<close>

fun act_within :: "(string \<Rightarrow> bool) \<Rightarrow> daemon_act \<Rightarrow> bool" where
  "act_within allowed (ActRequest c k w ok now rq) \<longleftrightarrow> request_within allowed rq"
| "act_within allowed (ActTail n dec mar now e io) \<longleftrightarrow> tail_within allowed dec e"
| "act_within allowed _ \<longleftrightarrow> True"

text \<open>The subscriptions a step takes events from.\<close>

definition reading :: "'m conn \<Rightarrow> nat set" where
  "reading c = (if cn_end c = None then {cn_sub c} else {})"

definition read_by :: "daemon_act \<Rightarrow> daemon \<Rightarrow> nat set" where
  "read_by a d =
     (case a of
        ActWake n w \<Rightarrow> (case dm_conns d n of None \<Rightarrow> {} | Some c \<Rightarrow> reading c)
      | ActForward \<Rightarrow> (case dm_term d of None \<Rightarrow> {} | Some l \<Rightarrow> {tl_sub l})
      | _ \<Rightarrow> {})"

lemma broadcast_hub_ok: "hub_ok rg \<Longrightarrow> hub_ok (rg_broadcast ev now rg)"
  by (auto simp: rg_broadcast_def hub_ok_def Let_def hub_wf_broadcast split: option.splits)

lemma subscribe_hub_ok: "hub_ok rg \<Longrightarrow> hub_ok (snd (subscribe_conn c rg))"
  by (auto simp: subscribe_conn_def hub_ok_def hub_wf_subscribe split: option.splits)

lemma end_hub_ok: "hub_ok rg \<Longrightarrow> hub_ok (snd (end_conn r c rg))"
  by (auto simp: end_conn_def unsubscribe_conn_def hub_ok_def hub_wf_drop split: option.splits)

lemma receive_hub_ok: "hub_ok rg \<Longrightarrow> rg_hub rg = Some h \<Longrightarrow> receive n h = Some (ev, h') \<Longrightarrow> hub_ok (rg\<lparr>rg_hub := Some h'\<rparr>)"
  by (simp add: hub_ok_def hub_wf_receive)

lemma conn_builds [simp]:
  "rg_builds (snd (subscribe_conn c rg)) = rg_builds rg" "rg_builds (snd (end_conn r c rg)) = rg_builds rg"
  "rg_builds (snd (conn_step w c rg)) = rg_builds rg"
  by (auto simp: subscribe_conn_def end_conn_def unsubscribe_conn_def conn_step_def Let_def split: option.split wake.split)

lemma conn_hub_ok: "hub_ok rg \<Longrightarrow> hub_ok (snd (conn_step w c rg))"
  by (auto simp: conn_step_def Let_def end_hub_ok receive_hub_ok split: option.split wake.split)

lemma term_builds [simp]:
  "rg_builds (snd (terminal_subscribe rg)) = rg_builds rg" "rg_builds (snd (terminal_forward l rg)) = rg_builds rg"
  by (auto simp: terminal_subscribe_def terminal_forward_def split: option.split)

lemma term_hub_ok: "hub_ok rg \<Longrightarrow> hub_ok (snd (terminal_subscribe rg))" "hub_ok rg \<Longrightarrow> hub_ok (snd (terminal_forward l rg))"
  by (auto simp: terminal_subscribe_def terminal_forward_def hub_ok_def dest: hub_wf_subscribe hub_wf_receive split: option.splits)

lemma broadcast_follows: "hub_ok rg \<Longrightarrow> hub_follows ns rg (rg_broadcast ev now rg)"
  by (auto simp: rg_broadcast_def hub_ok_def Let_def hub_follows_def hub_moves_broadcast split: option.split)

lemma subscribe_follows:
  "hub_follows ns rg (snd (subscribe_conn c rg))" "hub_follows ns rg (snd (terminal_subscribe rg))"
  by (auto simp: subscribe_conn_def terminal_subscribe_def hub_follows_def hub_moves_subscribe option.rel_refl split: option.split)

lemma end_follows: "hub_follows ns rg (snd (end_conn r c rg))"
  by (auto simp: end_conn_def unsubscribe_conn_def hub_follows_def hub_moves_drop split: option.split)

lemma receive_follows:
  "rg_hub rg = Some h \<Longrightarrow> receive n h = Some (ev, h') \<Longrightarrow> n \<in> ns \<Longrightarrow> hub_follows ns rg (rg\<lparr>rg_hub := Some h'\<rparr>)"
  by (simp add: hub_follows_def hub_moves_receive)

lemma conn_follows: "hub_follows (reading c) rg (snd (conn_step w c rg))"
proof (cases "cn_end c = None \<and> (\<exists>ok. w = WakeEvent ok)")
  case False
  with end_follows show ?thesis by (cases w) (auto simp: conn_step_def)
next
  case True
  then obtain ok where w: "w = WakeEvent ok" "cn_end c = None" by auto
  show ?thesis
  proof (cases "\<exists>h ev h'. rg_hub rg = Some h \<and> receive (cn_sub c) h = Some (ev, h')")
    case True
    then obtain h ev h' where h: "rg_hub rg = Some h" "receive (cn_sub c) h = Some (ev, h')" by blast
    have f: "hub_follows (reading c) rg (rg\<lparr>rg_hub := Some h'\<rparr>)"
      using w by (intro receive_follows [OF h]) (simp add: reading_def)
    from w h follows_trans [OF f end_follows] f show ?thesis by (simp add: conn_step_def Let_def)
  next
    case False
    with w show ?thesis by (auto simp: conn_step_def end_follows split: option.split)
  qed
qed

lemma forward_follows: "hub_follows {tl_sub l} rg (snd (terminal_forward l rg))"
  by (auto simp: terminal_forward_def intro: receive_follows split: option.split)

lemma kept_hub:
  assumes "rg_hub rg = Some h" and "rg_hub rg' = Some h'" and "rg_builds rg' = rg_builds rg" and "hub_ok rg'"
    and k: "\<And>n. n < next_sub h \<Longrightarrow> n \<notin> ns \<Longrightarrow>
      (n \<in> set (subs h') \<longleftrightarrow> n \<in> set (subs h)) \<and> sb_buf (chans h' n) = sb_buf (chans h n) \<and> sb_closed (chans h' n) = sb_closed (chans h n)"
  shows "conns_kept ns rg rg'"
  unfolding conns_kept_def
proof (intro allI impI)
  fix i c
  assume "rg_hub rg = Some i" and c: "cn_end c = None \<longrightarrow> cn_sub c < next_sub i \<and> cn_sub c \<notin> ns" "conn_inv c rg"
  with assms(1) k [of "cn_sub c"] have "cn_end c = None \<Longrightarrow>
      buffer_of (cn_sub c) rg' = buffer_of (cn_sub c) rg \<and> attached (cn_sub c) rg' = attached (cn_sub c) rg \<and>
      closed_sub (cn_sub c) rg' = closed_sub (cn_sub c) rg"
    using assms(2) by (simp add: buffer_of_def attached_def closed_sub_def)
  with c(2) assms(3,4) show "conn_inv c rg'" by (simp add: conn_inv_def pending_view_def)
qed

lemma subscribe_kept:
  assumes "hub_ok rg" and "rg_hub rg = Some h" shows "conns_kept ns rg (rg\<lparr>rg_hub := Some (snd (subscribe h))\<rparr>)"
  by (rule kept_hub [OF assms(2), where h' = "snd (subscribe h)"])
    (use assms hub_wf_subscribe [of h] in \<open>simp_all add: hub_ok_def\<close>, simp add: subscribe_def)

lemma subscribers_kept:
  "hub_ok rg \<Longrightarrow> conns_kept ns rg (snd (subscribe_conn c rg))" "hub_ok rg \<Longrightarrow> conns_kept ns rg (snd (terminal_subscribe rg))"
  by (auto simp: subscribe_conn_def terminal_subscribe_def kept_same intro: subscribe_kept split: option.split)

lemma end_kept: assumes "hub_ok rg" "cn_sub c \<in> ns" shows "conns_kept ns rg (snd (end_conn r c rg))"
proof (cases "rg_hub rg")
  case (Some h)
  have "hub_ok (snd (end_conn r c rg))" by (rule end_hub_ok [OF assms(1)])
  with Some show ?thesis
    by (intro kept_hub [OF Some, where h' = "drop_sub (cn_sub c) h"])
      (use assms(2) in \<open>auto simp: end_conn_def unsubscribe_conn_def drop_sub_def dest: notin_set_remove1\<close>)
qed (simp add: end_conn_def unsubscribe_conn_def kept_same)

lemma receive_kept:
  assumes "hub_ok rg" "rg_hub rg = Some h" "receive n h = Some (ev, h')" "n \<in> ns" shows "conns_kept ns rg (rg\<lparr>rg_hub := Some h'\<rparr>)"
  using receive_hub_ok [OF assms(1-3)] assms(3,4) by (intro kept_hub [OF assms(2), where h' = h']) (auto simp: receive_def split: list.splits if_splits)

lemma conn_kept: assumes "hub_ok rg" shows "conns_kept (reading c) rg (snd (conn_step w c rg))"
proof (cases "cn_end c = None \<and> (\<exists>ok. w = WakeEvent ok)")
  case False
  with end_kept [OF assms, of c "reading c"] show ?thesis by (cases w) (auto simp: conn_step_def reading_def kept_same)
next
  case True
  then obtain ok where w: "w = WakeEvent ok" "cn_end c = None" by auto
  then have m: "cn_sub c \<in> reading c" by (simp add: reading_def)
  show ?thesis
  proof (cases "\<exists>h ev h'. rg_hub rg = Some h \<and> receive (cn_sub c) h = Some (ev, h')")
    case True
    then obtain h ev h' where h: "rg_hub rg = Some h" "receive (cn_sub c) h = Some (ev, h')" by blast
    let ?c = "c\<lparr>cn_seq := Suc (cn_seq c)\<rparr>"
    note r = receive_kept [OF assms h m] and f = receive_follows [OF h m]
    have "conns_kept (reading c) (rg\<lparr>rg_hub := Some h'\<rparr>) (snd (end_conn WriteFailure ?c (rg\<lparr>rg_hub := Some h'\<rparr>)))"
      using m by (intro end_kept receive_hub_ok [OF assms h]) simp
    from w h kept_trans [OF r f this] r show ?thesis by (simp add: conn_step_def Let_def)
  next
    case False
    with w end_kept [OF assms m] show ?thesis by (auto simp: conn_step_def kept_same split: option.split)
  qed
qed

lemma forward_kept: "hub_ok rg \<Longrightarrow> conns_kept {tl_sub l} rg (snd (terminal_forward l rg))"
  by (auto simp: terminal_forward_def kept_same intro: receive_kept split: option.split)

lemma hook_kept: "hub_ok rg \<Longrightarrow> conns_kept ns rg (ingest_on_finalize base now r rg)"
proof -
  assume "hub_ok rg"
  have s: "side_event (metrics_event base r now)" "side_event (alert_event_of r now)"
    by (simp_all add: side_event_def metrics_event_def alert_event_of_def)
  from kept_send [OF s(1), of ns rg now] kept_trans [OF kept_send [OF s(1)] broadcast_follows [OF \<open>hub_ok rg\<close>] kept_send [OF s(2)], of ns now now]
  show ?thesis by (simp add: ingest_on_finalize_def Let_def)
qed

context reg_guard
begin

lemma moves_hook: "reg_moves P ns rg (ingest_on_finalize base now r rg)"
  by (rule moves_beside) (auto simp: hook_kept, auto simp: ingest_on_finalize_def Let_def broadcast_hub_ok intro: broadcast_follows follows_trans [OF broadcast_follows broadcast_follows])

definition daemon_ok :: "policy \<Rightarrow> daemon \<Rightarrow> bool" where
  "daemon_ok pol d \<longleftrightarrow> served pol (bk_engine (dm_broker d)) \<and> (\<forall>n. stream_within allowed (dm_streams d n))"

lemma daemon_step_ok:
  assumes "daemon_step cfg sv a d = Some d'" and "act_within allowed a" and "daemon_ok pol d"
  shows "daemon_ok pol d' \<and> reg_moves P (read_by a d) (bk_reg (dm_broker d)) (bk_reg (dm_broker d'))"
proof (cases a)
  case (ActRequest c k w ok now rq)
  with assms(1) obtain r s where s: "serve_http (sv\<lparr>sv_seams := broker_seams (daemon_outside cfg c k now (bk_reg (dm_broker d)) w)\<rparr>)
      ok now rq (dm_broker d) = Some (r, s)" "d' = d\<lparr>dm_broker := s\<rparr>" by auto
  from moves_http [OF s(1) [unfolded daemon_outside_def]] assms(2,3) ActRequest s(2) show ?thesis by (auto simp: daemon_ok_def)
next
  case (ActPoll n now rq)
  with assms(1) obtain req p e where q: "attach req (snapshot_active (bk_reg (dm_broker d))) now (bk_engine (dm_broker d)) = (p, e)"
    "d' = d\<lparr>dm_broker := (dm_broker d)\<lparr>bk_engine := e\<rparr>, dm_polls := (dm_polls d)(n \<mapsto> p)\<rparr>"
    by (auto split: option.splits if_splits prod.splits)
  with assms(3) served_op [of pol "bk_engine (dm_broker d)" "OpAttach req (snapshot_active (bk_reg (dm_broker d))) now"]
  show ?thesis by (simp add: daemon_ok_def reg_moves.still)
next
  case (ActReturn n k now)
  with assms(1) obtain p v e where q: "admit_return k p now (bk_engine (dm_broker d)) = Some (v, e)"
    "d' = d\<lparr>dm_broker := (dm_broker d)\<lparr>bk_engine := e\<rparr>, dm_polls := (dm_polls d)(n := None)\<rparr>"
    by (auto simp del: admit_return.simps split: option.splits)
  with assms(3) served_op [of pol "bk_engine (dm_broker d)" "OpReturn k p now"]
  show ?thesis by (simp add: daemon_ok_def reg_moves.still del: admit_return.simps)
next
  case (ActPass now)
  with assms show ?thesis
    by (auto simp: daemon_ok_def start_streams_def Let_def reg_moves.still split: option.split)
next
  case (ActTail n dec mar now e io)
  let ?cfg = "tailer_config (new_ingest (boot_ingest cfg)) dec mar now" and ?q = "(dm_streams d n, bk_reg (dm_broker d))"
  have w: "tail_within allowed (sc_decode ?cfg) e" using assms(2) ActTail by (simp add: tailer_config_def)
  have h: "reg_moves P ns rg (sc_on_finalize ?cfg r rg)" for ns r rg using moves_hook by (simp add: tailer_config_def)
  obtain s rg where t: "tail_step ?cfg (e, io) ?q = (s, rg)" by fastforce
  have m: "stream_within allowed s" "reg_moves P {} (bk_reg (dm_broker d)) rg"
    using moves_tail [OF _ w h, of ?q io] assms(3) unfolding t by (auto simp: daemon_ok_def)
  from assms(1) have "dm_broker d' = (dm_broker d)\<lparr>bk_reg := rg\<rparr>" "dm_streams d' = (dm_streams d)(n := s)" "read_by a d = {}"
    by (auto simp: ActTail t set_registry_def read_by_def split: option.splits prod.splits if_splits)
  with m assms(3) show ?thesis by (simp add: daemon_ok_def)
next
  case (ActReport k ok now)
  with assms(1) obtain st' where d': "d' = set_registry ((bk_reg (dm_broker d))\<lparr>rg_store := Some st'\<rparr>) d"
    by (auto split: option.splits prod.splits if_splits)
  have "reg_moves P ns (bk_reg (dm_broker d)) ((bk_reg (dm_broker d))\<lparr>rg_store := Some st'\<rparr>)" for ns
    by (rule moves_beside) (simp_all add: kept_same)
  with assms(3) d' show ?thesis by (simp add: daemon_ok_def set_registry_def)
next
  case (ActSubscribe n)
  have "reg_moves P {} (bk_reg (dm_broker d)) (snd (subscribe_conn c (bk_reg (dm_broker d))))" for c
    by (rule moves_beside) (simp_all add: subscribe_hub_ok subscribe_follows subscribers_kept)
  with assms ActSubscribe show ?thesis by (auto simp: daemon_ok_def set_registry_def read_by_def split_beta split: option.splits)
next
  case (ActWake n w)
  have "reg_moves P (reading c) (bk_reg (dm_broker d)) (snd (conn_step w c (bk_reg (dm_broker d))))" for c
    by (rule moves_beside) (simp_all add: conn_hub_ok conn_follows conn_kept)
  with assms ActWake show ?thesis by (auto simp: daemon_ok_def set_registry_def read_by_def split_beta split: option.splits)
next
  case ActTermStart
  have "reg_moves P {} (bk_reg (dm_broker d)) (snd (terminal_subscribe (bk_reg (dm_broker d))))"
    by (rule moves_beside) (simp_all add: term_hub_ok subscribe_follows subscribers_kept)
  with assms ActTermStart show ?thesis by (auto simp: daemon_ok_def set_registry_def read_by_def split_beta split: if_splits)
next
  case ActForward
  have "reg_moves P {tl_sub l} (bk_reg (dm_broker d)) (snd (terminal_forward l (bk_reg (dm_broker d))))" for l
    by (rule moves_beside) (simp_all add: term_hub_ok forward_follows forward_kept)
  with assms ActForward show ?thesis by (auto simp: daemon_ok_def set_registry_def read_by_def split_beta split: option.splits)
next
  case (ActRelease now)
  with assms served_releases(2) show ?thesis by (auto simp: daemon_ok_def reg_moves.still split_beta split: option.splits)
next
  case (ActTimer i now)
  with assms served_op [of pol "bk_engine (dm_broker d)" "OpTimer i sn now" for sn]
  show ?thesis by (auto simp: daemon_ok_def on_engine_def reg_moves.still)
next
  case (ActQueueGc now)
  with assms served_op [of pol "bk_engine (dm_broker d)" "OpGc now"]
  show ?thesis by (auto simp: daemon_ok_def on_engine_def reg_moves.still)
next
  case (ActStaggerGc now)
  with assms served_op [of pol "bk_engine (dm_broker d)" "OpStaggerTick now"]
  show ?thesis by (auto simp: daemon_ok_def on_engine_def reg_moves.still)
next
  case (ActSample raw ncpus lvl now)
  obtain cpu ram where "probe_sample raw ncpus lvl = (cpu, ram)" by fastforce
  with ActSample assms served_op [of pol "bk_engine (dm_broker d)" "OpSample cpu ram sn now" for sn]
  show ?thesis by (auto simp: daemon_ok_def on_engine_def reg_moves.still)
next
  case (ActReap signal0 now)
  with assms served_op [of pol "bk_engine (dm_broker d)"
      "OpReap (adapter_alive signal0 (bk_reg (dm_broker d))) sn now" for sn]
  show ?thesis by (auto simp: daemon_ok_def on_engine_def reg_moves.still)
qed (use assms in \<open>auto simp: daemon_ok_def set_registry_def moves_scan reg_moves.still split: if_splits\<close>)

lemma daemon_run_ok:
  assumes "daemon_run cfg sv as d = Some d'" and "\<forall>a\<in>set as. act_within allowed a" and "daemon_ok pol d"
  shows "daemon_ok pol d' \<and> reg_moves P UNIV (bk_reg (dm_broker d)) (bk_reg (dm_broker d'))"
  using assms
proof (induction "as" arbitrary: d)
  case (Cons a "as")
  then obtain d1 where d1: "daemon_step cfg sv a d = Some d1" "daemon_run cfg sv as d1 = Some d'" by (auto split: option.splits)
  from daemon_step_ok [OF d1(1)] Cons.prems have s: "daemon_ok pol d1" "reg_moves P UNIV (bk_reg (dm_broker d)) (bk_reg (dm_broker d1))"
    by (auto intro: moves_mono)
  from Cons.IH [OF d1(2) _ s(1)] Cons.prems(2) moves_trans [OF _ s(2)] show ?case by auto
qed (simp add: reg_moves.still)

end

end
