(* ===== verification/Terminal_Loop.thy ===== *)
theory Terminal_Loop
  imports Daemon_Run
begin

text \<open>
  The terminal-release loop in the daemon: who reads which subscription, what every step keeps of that, and how
  far an id is from its release, whatever runs between the turns of the loop.
\<close>

section \<open>The wiring of the subscriptions\<close>

text \<open>
  There is a hub, the loop and the event connections have subscriptions of it, the connections that still run
  have each its own and none that of the loop, and a connection opens once.
\<close>

definition wired :: "daemon \<Rightarrow> bool" where
  "wired d \<longleftrightarrow>
     (\<exists>h. rg_hub (bk_reg (dm_broker d)) = Some h \<and>
       (\<forall>l. dm_term d = Some l \<longrightarrow> tl_sub l < next_sub h \<and> length (tl_ids l) \<le> terminal_buffer) \<and>
       (\<forall>n c. dm_conns d n = Some c \<and> cn_end c = None \<longrightarrow>
          cn_sub c < next_sub h \<and> (\<forall>l. dm_term d = Some l \<longrightarrow> cn_sub c \<noteq> tl_sub l) \<and>
          (\<forall>n' c'. dm_conns d n' = Some c' \<and> cn_end c' = None \<and> cn_sub c' = cn_sub c \<longrightarrow> n' = n)) \<and>
       (\<forall>n. dm_opened d n = None \<or> dm_conns d n = None))"

lemma step_frame:
  assumes "daemon_step cfg sv a d = Some d'"
  shows "(case a of ActTermStart \<Rightarrow> True | ActForward \<Rightarrow> True | ActRelease now \<Rightarrow> True | _ \<Rightarrow> dm_term d = dm_term d') \<and>
    (case a of ActSubscribe n \<Rightarrow> True | ActWake n w \<Rightarrow> True | _ \<Rightarrow> dm_conns d = dm_conns d') \<and>
    (case a of ActConnect n ok now rq \<Rightarrow> True | ActSubscribe n \<Rightarrow> True | _ \<Rightarrow> dm_opened d = dm_opened d')"
  using assms
  by (cases a)
    (auto simp: set_registry_def on_engine_def Let_def split: option.splits prod.splits if_splits)

lemma forward_keeps:
  assumes "length (tl_ids l) \<le> terminal_buffer"
  shows "tl_sub (fst (terminal_forward l rg)) = tl_sub l" "length (tl_ids (fst (terminal_forward l rg))) \<le> terminal_buffer"
  using assms by (cases rule: forward_cases [of l rg]; simp)+

lemma release_keeps:
  "tl_sub (fst (terminal_release sn now l e)) = tl_sub l" "length (tl_ids (fst (terminal_release sn now l e))) \<le> length (tl_ids l)"
  by (auto simp: terminal_release_def split: list.split)

lemma conn_keeps:
  "cn_end (fst (conn_step w c rg)) = None \<Longrightarrow> cn_end c = None \<and> cn_sub (fst (conn_step w c rg)) = cn_sub c"
  by (auto simp: conn_step_def end_conn_def Let_def split: wake.splits option.splits if_splits)

lemma wiredD:
  assumes "wired d"
  obtains h where "rg_hub (bk_reg (dm_broker d)) = Some h"
    "\<And>l. dm_term d = Some l \<Longrightarrow> tl_sub l < next_sub h \<and> length (tl_ids l) \<le> terminal_buffer"
    "\<And>n c. dm_conns d n = Some c \<Longrightarrow> cn_end c = None \<Longrightarrow> cn_sub c < next_sub h"
    "\<And>n c l. dm_conns d n = Some c \<Longrightarrow> cn_end c = None \<Longrightarrow> dm_term d = Some l \<Longrightarrow> cn_sub c \<noteq> tl_sub l"
    "\<And>n c n' c'. dm_conns d n = Some c \<Longrightarrow> cn_end c = None \<Longrightarrow> dm_conns d n' = Some c' \<Longrightarrow> cn_end c' = None \<Longrightarrow>
       cn_sub c' = cn_sub c \<Longrightarrow> n' = n"
    "\<And>n. dm_opened d n = None \<or> dm_conns d n = None"
  using assms unfolding wired_def by blast

lemma wiredI:
  assumes "rg_hub (bk_reg (dm_broker d)) = Some h"
    and "\<And>l. dm_term d = Some l \<Longrightarrow> tl_sub l < next_sub h \<and> length (tl_ids l) \<le> terminal_buffer"
    and "\<And>n c. dm_conns d n = Some c \<Longrightarrow> cn_end c = None \<Longrightarrow> cn_sub c < next_sub h"
    and "\<And>n c l. dm_conns d n = Some c \<Longrightarrow> cn_end c = None \<Longrightarrow> dm_term d = Some l \<Longrightarrow> cn_sub c \<noteq> tl_sub l"
    and "\<And>n c n' c'. dm_conns d n = Some c \<Longrightarrow> cn_end c = None \<Longrightarrow> dm_conns d n' = Some c' \<Longrightarrow> cn_end c' = None \<Longrightarrow>
       cn_sub c' = cn_sub c \<Longrightarrow> n' = n"
    and "\<And>n. dm_opened d n = None \<or> dm_conns d n = None"
  shows "wired d"
  using assms unfolding wired_def by blast

text \<open>What stays behind of the loop and of the connections keeps its subscription.\<close>

lemma wired_keep:
  assumes "wired d" and "hub_follows ns (bk_reg (dm_broker d)) (bk_reg (dm_broker d'))"
    and t': "\<And>l'. dm_term d' = Some l' \<Longrightarrow> \<exists>l. dm_term d = Some l \<and> tl_sub l' = tl_sub l \<and>
        (length (tl_ids l') \<le> length (tl_ids l) \<or> length (tl_ids l') \<le> terminal_buffer)"
    and c': "\<And>n c'. dm_conns d' n = Some c' \<Longrightarrow> cn_end c' = None \<Longrightarrow>
      \<exists>c. dm_conns d n = Some c \<and> cn_end c = None \<and> cn_sub c' = cn_sub c"
    and o': "\<And>n. dm_opened d' n = None \<or> dm_conns d' n = None"
  shows "wired d'"
  using assms(1)
proof (rule wiredD)
  fix h
  assume h: "rg_hub (bk_reg (dm_broker d)) = Some h"
    and t: "\<And>l. dm_term d = Some l \<Longrightarrow> tl_sub l < next_sub h \<and> length (tl_ids l) \<le> terminal_buffer"
    and c: "\<And>n c. dm_conns d n = Some c \<Longrightarrow> cn_end c = None \<Longrightarrow> cn_sub c < next_sub h"
      "\<And>n c l. dm_conns d n = Some c \<Longrightarrow> cn_end c = None \<Longrightarrow> dm_term d = Some l \<Longrightarrow> cn_sub c \<noteq> tl_sub l"
      "\<And>n c n' c'. dm_conns d n = Some c \<Longrightarrow> cn_end c = None \<Longrightarrow> dm_conns d n' = Some c' \<Longrightarrow> cn_end c' = None \<Longrightarrow>
         cn_sub c' = cn_sub c \<Longrightarrow> n' = n"
  from assms(2) h obtain h' where h': "rg_hub (bk_reg (dm_broker d')) = Some h'" "next_sub h \<le> next_sub h'"
    by (auto simp: hub_follows_def option_rel_Some1 hub_moves_def)
  show ?thesis
  proof (rule wiredI [OF h'(1)])
    show "tl_sub l < next_sub h' \<and> length (tl_ids l) \<le> terminal_buffer" if "dm_term d' = Some l" for l
      using t' [OF that] t h'(2) by fastforce
    show "cn_sub x < next_sub h'" if "dm_conns d' n = Some x" "cn_end x = None" for n x
      using c' [OF that] c(1) h'(2) by fastforce
    show "cn_sub x \<noteq> tl_sub l" if "dm_conns d' n = Some x" "cn_end x = None" "dm_term d' = Some l" for n x l
      using c' [OF that(1,2)] t' [OF that(3)] c(2) by fastforce
    show "n' = n" if "dm_conns d' n = Some x" "cn_end x = None" "dm_conns d' n' = Some x'" "cn_end x' = None" "cn_sub x' = cn_sub x" for n x n' x'
      using c' [OF that(1,2)] c' [OF that(3,4)] c(3) that(5) by metis
  qed (rule o')
qed

lemma subscribe_conn_new:
  assumes "rg_hub rg = Some h" and "subscribe_conn c rg = (c', rg')" and "cn_end c' = None"
  shows "cn_sub c' = next_sub h \<and> rg_hub rg' = Some (snd (subscribe h)) \<and> next_sub (snd (subscribe h)) = Suc (next_sub h)"
  using assms by (auto simp: subscribe_conn_def subscribe_def split: if_splits)

lemma wired_step:
  assumes step: "daemon_step cfg sv a d = Some d'" and w: "wired d"
    and f: "hub_follows ns (bk_reg (dm_broker d)) (bk_reg (dm_broker d'))"
  shows "wired d'"
  using w
proof (rule wiredD)
  note keep = wired_keep [OF w f]
  fix h
  assume h: "rg_hub (bk_reg (dm_broker d)) = Some h"
    and t: "\<And>l. dm_term d = Some l \<Longrightarrow> tl_sub l < next_sub h \<and> length (tl_ids l) \<le> terminal_buffer"
    and c: "\<And>n c. dm_conns d n = Some c \<Longrightarrow> cn_end c = None \<Longrightarrow> cn_sub c < next_sub h"
      "\<And>n c l. dm_conns d n = Some c \<Longrightarrow> cn_end c = None \<Longrightarrow> dm_term d = Some l \<Longrightarrow> cn_sub c \<noteq> tl_sub l"
      "\<And>n c n' c'. dm_conns d n = Some c \<Longrightarrow> cn_end c = None \<Longrightarrow> dm_conns d n' = Some c' \<Longrightarrow> cn_end c' = None \<Longrightarrow>
         cn_sub c' = cn_sub c \<Longrightarrow> n' = n"
    and o: "\<And>n. dm_opened d n = None \<or> dm_conns d n = None"
  have os: "\<forall>n. dm_opened d n = None \<or> dm_conns d n = None" using o by blast
  show ?thesis
  proof (cases a)
    case (ActConnect n ok now rq)
    with step have "dm_conns d' = dm_conns d" "dm_term d = dm_term d'" "dm_conns d n = None"
      "dm_opened d' = (dm_opened d)(n \<mapsto> open_conn ok now (bk_reg (dm_broker d)))" by (auto split: if_splits)
    with o show ?thesis by (intro keep) auto
  next
    case (ActSubscribe n)
    with step obtain c0 c' rg where c': "subscribe_conn c0 (bk_reg (dm_broker d)) = (c', rg)" "bk_reg (dm_broker d') = rg"
      "dm_conns d' = (dm_conns d)(n \<mapsto> c')" "dm_term d = dm_term d'" "dm_opened d' = (dm_opened d)(n := None)" "dm_opened d n = Some c0"
      by (auto simp: set_registry_def split: option.splits prod.splits)
    have o': "dm_opened d' m = None \<or> dm_conns d' m = None" for m using o [of m] by (simp add: c')
    show ?thesis
    proof (cases "cn_end c'")
      case None
      note new = subscribe_conn_new [OF h c'(1) None]
      have old: "m \<noteq> n \<Longrightarrow> dm_conns d' m = dm_conns d m" "dm_conns d' n = Some c'" for m by (simp_all add: c')
      have r: "cn_sub x < next_sub h \<and> x \<noteq> c'" if "dm_conns d' m = Some x" "cn_end x = None" "m \<noteq> n" for m x
        using c(1) [of m x] that new old by auto
      show ?thesis
      proof (rule wiredI)
        show "rg_hub (bk_reg (dm_broker d')) = Some (snd (subscribe h))" using new c'(2) by simp
        show "tl_sub l < next_sub (snd (subscribe h)) \<and> length (tl_ids l) \<le> terminal_buffer" if "dm_term d' = Some l" for l
          using t [of l] that c'(4) new by simp
        show "cn_sub x < next_sub (snd (subscribe h))" if "dm_conns d' m = Some x" "cn_end x = None" for m x
          using r [OF that] that new old(2) by (cases "m = n") auto
        show "cn_sub x \<noteq> tl_sub l" if "dm_conns d' m = Some x" "cn_end x = None" "dm_term d' = Some l" for m x l
          using c(2) [of m x l] t [of l] that new old c'(4) by (cases "m = n") auto
        show "m' = m" if "dm_conns d' m = Some x" "cn_end x = None" "dm_conns d' m' = Some x'" "cn_end x' = None" "cn_sub x' = cn_sub x" for m x m' x'
        proof (cases "m = n")
          case True
          with that(1,5) old(2) new have "cn_sub x' = next_sub h" by simp
          with r [OF that(3,4)] True show ?thesis by auto
        next
          case False
          with r [OF that(1,2)] that(5) have "cn_sub x' < next_sub h" by simp
          with that(3) old(2) new have "m' \<noteq> n" by auto
          from c(3) [of m x m' x'] that old(1) [OF False] old(1) [OF this] show ?thesis by simp
        qed
      qed (rule o')
    next
      case (Some e)
      with c' o' show ?thesis by (intro keep) (auto split: if_splits)
    qed
  next
    case ActTermStart
    with step h have s: "dm_term d = None" "dm_conns d' = dm_conns d" "rg_hub (bk_reg (dm_broker d')) = Some (snd (subscribe h))"
      "dm_term d' = Some \<lparr>tl_sub = next_sub h, tl_hand = None, tl_ids = []\<rparr>" "dm_opened d' = dm_opened d"
      by (auto simp: set_registry_def terminal_subscribe_def subscribe_def split: if_splits)
    show ?thesis
      by (rule wiredI [OF s(3)]) (use s c o in \<open>auto simp: subscribe_def terminal_buffer_def dest: c(1)\<close>)
  next
    case (ActWake n w)
    with step obtain c where c: "dm_conns d n = Some c" "dm_term d = dm_term d'" "dm_opened d' = dm_opened d"
      "dm_conns d' = (dm_conns d)(n \<mapsto> fst (conn_step w c (bk_reg (dm_broker d))))"
      by (auto simp: set_registry_def split: option.splits prod.splits)
    have "dm_opened d' m = None \<or> dm_conns d' m = None" for m using o [of m] c by auto
    with c conn_keeps show ?thesis by (intro keep) (auto split: if_splits)
  next
    case ActForward
    with step obtain l where l: "dm_term d = Some l" "dm_conns d' = dm_conns d" "dm_opened d' = dm_opened d"
      "dm_term d' = Some (fst (terminal_forward l (bk_reg (dm_broker d))))"
      by (auto simp: set_registry_def split: option.splits prod.splits)
    with t [OF l(1)] o forward_keeps [of l] show ?thesis by (intro keep) auto
  next
    case (ActRelease now)
    let ?r = "\<lambda>l. terminal_release (snapshot_active (bk_reg (dm_broker d))) now l (bk_engine (dm_broker d))"
    from ActRelease step obtain l where l: "dm_term d = Some l" "dm_conns d' = dm_conns d" "dm_opened d' = dm_opened d"
      "dm_term d' = Some (fst (?r l))" by (auto split: option.splits prod.splits)
    with release_keeps o show ?thesis by (intro keep) auto
  qed (use step_frame [OF step] os in \<open>auto intro!: keep\<close>)
qed

section \<open>The invariant of a run\<close>

definition daemon_inv :: "daemon \<Rightarrow> bool" where
  "daemon_inv d \<longleftrightarrow> (\<exists>pol. served pol (bk_engine (dm_broker d))) \<and> keyed (rg_builds (bk_reg (dm_broker d))) \<and>
     hub_ok (bk_reg (dm_broker d)) \<and> wired d"

lemma act_within_all [simp]: "act_within (\<lambda>_. True) a"
  by (cases a)
     (auto simp: request_within_def tail_within_def payload_within_def split: option.split tail_event.split payload.split)

lemma step_inv:
  assumes "daemon_step cfg sv a d = Some d'" and "daemon_inv d"
  shows "daemon_inv d'" and "reg_moves (\<lambda>_. True) (read_by a d) (bk_reg (dm_broker d)) (bk_reg (dm_broker d'))"
    and "hub_follows (read_by a d) (bk_reg (dm_broker d)) (bk_reg (dm_broker d'))"
proof -
  from assms(2) obtain pol where pol: "all_ops.daemon_ok pol d" and k: "keyed (rg_builds (bk_reg (dm_broker d)))"
    "hub_ok (bk_reg (dm_broker d))" and w: "wired d"
    by (auto simp: daemon_inv_def all_ops.daemon_ok_def stream_within_def)
  from all_ops.daemon_step_ok [OF assms(1) _ pol]
  show m: "reg_moves (\<lambda>_. True) (read_by a d) (bk_reg (dm_broker d)) (bk_reg (dm_broker d'))" by simp
  from moves_follow [OF m k] show f: "hub_follows (read_by a d) (bk_reg (dm_broker d)) (bk_reg (dm_broker d'))" .
  from wired_step [OF assms(1) w f] moves_inv [OF m k] all_ops.daemon_step_ok [OF assms(1) _ pol]
  show "daemon_inv d'" by (auto simp: daemon_inv_def all_ops.daemon_ok_def)
qed

lemma run_inv: "daemon_run cfg sv as d = Some d' \<Longrightarrow> daemon_inv d \<Longrightarrow> daemon_inv d'"
  by (induction "as" arbitrary: d) (auto dest: step_inv(1) split: option.splits)

lemma inv_engine: "daemon_inv d \<Longrightarrow> eng_inv (bk_engine (dm_broker d))"
  by (auto simp: daemon_inv_def dest: served_inv)

section \<open>The terminal-release loop\<close>

text \<open>
  The moves of the two goroutines an id is away from its release: one to leave the channel, two more with what
  is before it when it is in the hand, three for each event that is still to be taken from the subscription.
\<close>

definition term_rank :: "string \<Rightarrow> term_loop \<Rightarrow> 'm registry \<Rightarrow> nat \<Rightarrow> bool" where
  "term_rank i l rg m \<longleftrightarrow>
     (\<exists>ys zs. tl_ids l = ys @ i # zs \<and> m = Suc (length ys)) \<or>
     (tl_hand l = Some i \<and> m = length (tl_ids l) + 2) \<or>
     (\<exists>ys ev zs. buffer_of (tl_sub l) rg = ys @ ev # zs \<and> terminal_id ev = Some i \<and>
        m = length (tl_ids l) + (if tl_hand l = None then 0 else 2) + 3 * Suc (length ys))"

lemma rank_ids: "tl_ids l = ys @ i # zs \<Longrightarrow> term_rank i l rg (Suc (length ys))"
  by (auto simp: term_rank_def)

lemma rank_hand: "tl_hand l = Some i \<Longrightarrow> term_rank i l rg (length (tl_ids l) + 2)"
  by (simp add: term_rank_def)

lemma rank_buffer:
  "buffer_of (tl_sub l) rg = ys @ ev # zs \<Longrightarrow> terminal_id ev = Some i \<Longrightarrow>
     term_rank i l rg (length (tl_ids l) + (if tl_hand l = None then 0 else 2) + 3 * Suc (length ys))"
  unfolding term_rank_def by blast

lemma rank_cases:
  assumes "term_rank i l rg m"
  obtains (ids) ys zs where "tl_ids l = ys @ i # zs" "m = Suc (length ys)"
    | (hand) "tl_hand l = Some i" "m = length (tl_ids l) + 2"
    | (buffer) ys ev zs where "buffer_of (tl_sub l) rg = ys @ ev # zs" "terminal_id ev = Some i"
        "m = length (tl_ids l) + (if tl_hand l = None then 0 else 2) + 3 * Suc (length ys)"
  using assms by (auto simp: term_rank_def)

lemma rank_pos: "term_rank i l rg m \<Longrightarrow> 0 < m"
  by (auto simp: term_rank_def)

lemma rank_grow: "term_rank i l rg m \<Longrightarrow> buffer_of (tl_sub l) rg' = buffer_of (tl_sub l) rg @ zs \<Longrightarrow> term_rank i l rg' m"
  unfolding term_rank_def by (elim disjE; force)

lemma rankI:
  "term_rank i l rg m' \<Longrightarrow> m' \<le> m \<Longrightarrow> (P \<Longrightarrow> m' < m) \<Longrightarrow> \<exists>m'\<le>m. term_rank i l rg m' \<and> (P \<longrightarrow> m' < m)"
  by blast

lemma rank_announced:
  assumes "announced i (tl_sub l) rg" and "length (tl_ids l) \<le> terminal_buffer" and "length (buffer_of (tl_sub l) rg) \<le> sub_buffer_size"
  obtains m where "term_rank i l rg m" "m \<le> 258"
proof -
  from assms(1) obtain ev where "ev \<in> set (buffer_of (tl_sub l) rg)" "terminal_id ev = Some i" by (auto simp: announced_def)
  then obtain ys zs where b: "buffer_of (tl_sub l) rg = ys @ ev # zs" "terminal_id ev = Some i" by (auto dest: split_list)
  then have "length ys < sub_buffer_size" using assms(3) by simp
  with that [OF rank_buffer [OF b]] assms(2) show thesis by (simp add: terminal_buffer_def sub_buffer_size_def)
qed

lemma rank_forward:
  assumes "term_rank i l rg m" and "terminal_forward l rg = (l', rg')"
  shows "\<exists>m'\<le>m. term_rank i l' rg' m' \<and> (tl_ids l = [] \<longrightarrow> m' < m)"
proof (cases rule: forward_cases [of l rg])
  case (push j)
  with assms(2) have l': "l' = l\<lparr>tl_hand := None, tl_ids := tl_ids l @ [j]\<rparr>" "rg' = rg" by auto
  from assms(1) show ?thesis
  proof (cases rule: rank_cases)
    case (ids ys zs)
    with l' show ?thesis by (intro rankI [OF rank_ids [of l' ys i "zs @ [j]"]]) auto
  next
    case hand
    with l' push show ?thesis by (intro rankI [OF rank_ids [of l' "tl_ids l" i "[]"]]) auto
  next
    case (buffer ys ev zs)
    with l' push show ?thesis by (intro rankI [OF rank_buffer [of l' rg' ys ev zs i]]) auto
  qed
next
  case (full j)
  with assms show ?thesis by (intro rankI [of i l' rg' m]) (auto simp: terminal_buffer_def)
next
  case idle
  from assms(1) have "tl_ids l \<noteq> []" by (cases rule: rank_cases) (use idle in auto)
  with assms idle show ?thesis by (intro rankI [of i l' rg' m]) auto
next
  case (take h h' ev evs)
  with assms(2) have l': "l' = l\<lparr>tl_hand := terminal_id ev\<rparr>" "rg' = rg\<lparr>rg_hub := Some h'\<rparr>" by auto
  from assms(1) show ?thesis
  proof (cases rule: rank_cases)
    case (ids ys zs)
    with l' show ?thesis by (intro rankI [OF rank_ids [of l' ys i zs]]) auto
  next
    case hand
    with take show ?thesis by simp
  next
    case (buffer ys ev' zs)
    show ?thesis
    proof (cases ys)
      case Nil
      with buffer take have "ev' = ev" by simp
      with l' buffer Nil take show ?thesis by (intro rankI [OF rank_hand [of l' i]]) auto
    next
      case (Cons y ys')
      with buffer take have "buffer_of (tl_sub l') rg' = ys' @ ev' # zs" using l' by simp
      from rank_buffer [OF this buffer(2)] show ?thesis by (rule rankI) (use l' buffer(3) Cons take(1) in auto)
    qed
  qed
qed

lemma rank_release:
  assumes "term_rank i l rg m" and "i \<noteq> []" and "terminal_release sn now l e = (l', e')"
  shows "lookup_id e' i = None \<or> (\<exists>m'\<le>m. term_rank i l' rg m' \<and> (tl_ids l \<noteq> [] \<longrightarrow> m' < m))"
proof (cases "tl_ids l")
  case Nil
  with assms show ?thesis by (auto simp: terminal_release_def)
next
  case (Cons j js)
  with assms(3) have l': "l' = l\<lparr>tl_ids := js\<rparr>" "e' = (if j \<noteq> [] then release j sn now e else e)" by (auto simp: terminal_release_def)
  from assms(1) show ?thesis
  proof (cases rule: rank_cases)
    case (ids ys zs)
    show ?thesis
    proof (cases ys)
      case Nil
      with ids Cons l' assms(2) show ?thesis by (simp add: release_unknown)
    next
      case Cons': (Cons y ys')
      with ids Cons l' show ?thesis by (intro disjI2 rankI [OF rank_ids [of l' ys' i zs]]) auto
    qed
  next
    case hand
    with Cons l' show ?thesis by (intro disjI2 rankI [OF rank_hand [of l' i]]) auto
  next
    case (buffer ys ev zs)
    with Cons l' show ?thesis by (intro disjI2 rankI [OF rank_buffer [of l' rg ys ev zs i]]) auto
  qed
qed

lemma unread:
  assumes "wired d" and "dm_term d = Some l" and "a \<noteq> ActForward" shows "tl_sub l \<notin> read_by a d"
proof (cases a)
  case (ActWake n w)
  show ?thesis
  proof (cases "dm_conns d n")
    case (Some c)
    with assms(1,2) have "cn_end c = None \<Longrightarrow> cn_sub c \<noteq> tl_sub l" unfolding wired_def by blast
    with ActWake Some show ?thesis by (auto simp: read_by_def reading_def)
  qed (simp add: read_by_def ActWake)
qed (use assms in \<open>auto simp: read_by_def\<close>)

text \<open>The actions that bring the next id further: the forwarding one once the channel is empty, a release before.\<close>

definition urged :: "daemon_act \<Rightarrow> term_loop \<Rightarrow> bool" where
  "urged a l \<longleftrightarrow> (case a of ActForward \<Rightarrow> tl_ids l = [] | ActRelease now \<Rightarrow> tl_ids l \<noteq> [] | _ \<Rightarrow> False)"

lemma forward_ids: "tl_ids l \<noteq> [] \<Longrightarrow> tl_ids (fst (terminal_forward l rg)) \<noteq> []"
  by (cases rule: forward_cases [of l rg]) auto

lemma step_rank:
  assumes step: "daemon_step cfg sv a d = Some d'" and inv: "daemon_inv d" and l: "dm_term d = Some l"
    and r: "term_rank i l (bk_reg (dm_broker d)) m" and i: "i \<noteq> []"
  obtains (freed) "lookup_id (bk_engine (dm_broker d')) i = None"
    | (near) l' m' where "dm_term d' = Some l'" "term_rank i l' (bk_reg (dm_broker d')) m'" "m' \<le> m" "urged a l \<Longrightarrow> m' < m"
        "\<not> urged a l \<Longrightarrow> tl_ids l' = [] \<longleftrightarrow> tl_ids l = []"
proof -
  consider (forward) "a = ActForward" | (release) now where "a = ActRelease now" | (other) "\<not> urged a l" "dm_term d' = Some l" "tl_sub l \<notin> read_by a d"
  proof -
    have "dm_term d' = Some l" if "a \<noteq> ActForward" "\<nexists>now. a = ActRelease now"
    proof -
      have "a \<noteq> ActTermStart" using step l by auto
      with step_frame [OF step] that l show ?thesis by (cases a) auto
    qed
    moreover have "tl_sub l \<notin> read_by a d" if "a \<noteq> ActForward"
      using inv l that unread by (auto simp: daemon_inv_def)
    ultimately show ?thesis using that by (cases a) (auto simp: urged_def)
  qed
  then show thesis
  proof cases
    case forward
    obtain l' rg' where f: "terminal_forward l (bk_reg (dm_broker d)) = (l', rg')" by fastforce
    with step l forward have d': "dm_term d' = Some l'" "bk_reg (dm_broker d') = rg'" by (auto simp: set_registry_def)
    from rank_forward [OF r f] forward_ids [of l "bk_reg (dm_broker d)"] d' f near show thesis
      by (auto simp: urged_def forward)
  next
    case (release now)
    obtain l' e where f: "terminal_release (snapshot_active (bk_reg (dm_broker d))) now l (bk_engine (dm_broker d)) = (l', e)"
      by fastforce
    with step l release have d': "dm_term d' = Some l'" "bk_reg (dm_broker d') = bk_reg (dm_broker d)" "bk_engine (dm_broker d') = e" by auto
    have "tl_ids l = [] \<Longrightarrow> tl_ids l' = []" using f by (auto simp: terminal_release_def)
    with rank_release [OF r i f] d' freed near show thesis by (auto simp: urged_def release)
  next
    case other
    from inv obtain h where h: "rg_hub (bk_reg (dm_broker d)) = Some h" "tl_sub l < next_sub h" using l by (auto simp: daemon_inv_def wired_def)
    from follows_buffer [OF step_inv(3) [OF step inv] h] other(3)
    obtain zs where "buffer_of (tl_sub l) (bk_reg (dm_broker d')) = buffer_of (tl_sub l) (bk_reg (dm_broker d)) @ zs" by auto
    with near [OF other(2) rank_grow [OF r]] other(1) show thesis by simp
  qed
qed

text \<open>Somewhere along a run the engine holds no slot for an id.\<close>

definition slot_freed :: "config \<Rightarrow> server \<Rightarrow> string \<Rightarrow> daemon_act list \<Rightarrow> daemon \<Rightarrow> bool" where
  "slot_freed cfg sv i as d \<longleftrightarrow>
     (\<exists>bs cs d'. as = bs @ cs \<and> daemon_run cfg sv bs d = Some d' \<and> i \<notin> held (sem (egates (bk_engine (dm_broker d')))))"

lemma freed_step: "daemon_step cfg sv a d = Some d' \<Longrightarrow> slot_freed cfg sv i as d' \<Longrightarrow> slot_freed cfg sv i (a # as) d"
  unfolding slot_freed_def
proof (elim exE conjE)
  fix bs cs d''
  assume "daemon_step cfg sv a d = Some d'" "as = bs @ cs" "daemon_run cfg sv bs d' = Some d''"
    "i \<notin> held (sem (egates (bk_engine (dm_broker d''))))"
  then show "\<exists>bs cs d'. a # as = bs @ cs \<and> daemon_run cfg sv bs d = Some d' \<and> i \<notin> held (sem (egates (bk_engine (dm_broker d'))))"
    by (intro exI [of _ "a # bs"] exI [of _ cs] exI [of _ d'']) simp
qed

lemma freed_now: "i \<notin> held (sem (egates (bk_engine (dm_broker d)))) \<Longrightarrow> slot_freed cfg sv i as d"
  unfolding slot_freed_def by (intro exI [of _ "[]"] exI [of _ "as"] exI [of _ d]) simp

lemma run_append:
  "daemon_run cfg sv (as @ bs) d = (case daemon_run cfg sv as d of None \<Rightarrow> None | Some d' \<Rightarrow> daemon_run cfg sv bs d')"
  by (induction "as" arbitrary: d) (auto split: option.split)

lemma freed_append_left: "slot_freed cfg sv i as d \<Longrightarrow> slot_freed cfg sv i (as @ bs) d"
  by (fastforce simp: slot_freed_def)

lemma freed_append:
  assumes "daemon_run cfg sv as d = Some d1" and "slot_freed cfg sv i bs d1" shows "slot_freed cfg sv i (as @ bs) d"
  using assms by (induction "as" arbitrary: d) (auto intro: freed_step split: option.splits)

text \<open>A turn of the loop: any actions with one of each of its goroutines among them.\<close>

definition loop_turn :: "daemon_act list \<Rightarrow> bool" where
  "loop_turn as \<longleftrightarrow> ActForward \<in> set as \<and> (\<exists>now. ActRelease now \<in> set as)"

definition pushes :: "daemon_act list \<Rightarrow> term_loop \<Rightarrow> bool" where
  "pushes as l \<longleftrightarrow> (if tl_ids l = [] then ActForward \<in> set as else \<exists>now. ActRelease now \<in> set as)"

lemma turn_pushes: "loop_turn as \<Longrightarrow> pushes as l"
  by (simp add: loop_turn_def pushes_def)

lemma pushes_later: "pushes (a # as) l \<Longrightarrow> \<not> urged a l \<Longrightarrow> tl_ids l' = [] \<longleftrightarrow> tl_ids l = [] \<Longrightarrow> pushes as l'"
  by (auto simp: pushes_def urged_def split: if_splits)

lemma run_rank:
  assumes "daemon_run cfg sv as d = Some d'" and "daemon_inv d" and "dm_term d = Some l"
    and "term_rank i l (bk_reg (dm_broker d)) m" and "i \<noteq> []"
  shows "slot_freed cfg sv i as d \<or>
    (\<exists>l' m'. dm_term d' = Some l' \<and> m' \<le> m \<and> term_rank i l' (bk_reg (dm_broker d')) m' \<and>
       (pushes as l \<longrightarrow> m' < m))"
  using assms
proof (induction "as" arbitrary: d l m)
  case Nil
  then show ?case by (auto simp: pushes_def)
next
  case (Cons a "as")
  from Cons.prems(1) obtain d1 where d1: "daemon_step cfg sv a d = Some d1" "daemon_run cfg sv as d1 = Some d'"
    by (auto split: option.splits)
  have inv: "daemon_inv d1" by (rule step_inv(1) [OF d1(1) Cons.prems(2)])
  from d1(1) Cons.prems(2-5) show ?case
  proof (cases rule: step_rank)
    case freed
    from unknown_not_held [OF inv_engine [OF inv] freed] show ?thesis by (blast intro: freed_step [OF d1(1)] freed_now)
  next
    case (near l1 m1)
    from Cons.IH [OF d1(2) inv near(1,2) Cons.prems(5)] show ?thesis
    proof
      assume "slot_freed cfg sv i as d1"
      then show ?thesis by (blast intro: freed_step [OF d1(1)])
    next
      assume "\<exists>l' m'. dm_term d' = Some l' \<and> m' \<le> m1 \<and> term_rank i l' (bk_reg (dm_broker d')) m' \<and>
        (pushes as l1 \<longrightarrow> m' < m1)"
      then obtain l' m' where m': "dm_term d' = Some l'" "m' \<le> m1" "term_rank i l' (bk_reg (dm_broker d')) m'"
        "pushes as l1 \<Longrightarrow> m' < m1" by blast
      have "m' < m" if p: "pushes (a # as) l"
      proof (cases "urged a l")
        case True
        with near(4) m'(2) show ?thesis by simp
      next
        case False
        from m'(4) [OF pushes_later [OF p False near(5) [OF False]]] near(3) show ?thesis by simp
      qed
      with m' near(3) show ?thesis by (intro disjI2 exI [of _ l'] exI [of _ m']) auto
    qed
  qed
qed

lemma turns_free:
  assumes "daemon_run cfg sv (concat turns) d = Some d'" and "\<forall>t\<in>set turns. loop_turn t" and "m \<le> length turns"
    and "daemon_inv d" and "dm_term d = Some l" and "term_rank i l (bk_reg (dm_broker d)) m" and "i \<noteq> []"
  shows "slot_freed cfg sv i (concat turns) d"
  using assms
proof (induction turns arbitrary: d l m)
  case Nil
  then show ?case using rank_pos by fastforce
next
  case (Cons t ts)
  from Cons.prems(1) obtain d1 where d1: "daemon_run cfg sv t d = Some d1" "daemon_run cfg sv (concat ts) d1 = Some d'"
    by (auto simp: run_append split: option.splits)
  from run_rank [OF d1(1) Cons.prems(4-7)] show ?case
  proof
    assume "slot_freed cfg sv i t d"
    then show ?thesis by (simp add: freed_append_left)
  next
    assume "\<exists>l' m'. dm_term d1 = Some l' \<and> m' \<le> m \<and> term_rank i l' (bk_reg (dm_broker d1)) m' \<and>
        (pushes t l \<longrightarrow> m' < m)"
    then obtain l' m' where m': "dm_term d1 = Some l'" "term_rank i l' (bk_reg (dm_broker d1)) m'" "m' < m"
      using Cons.prems(2) turn_pushes by auto
    have "slot_freed cfg sv i (concat ts) d1"
      by (rule Cons.IH [OF d1(2) _ _ run_inv [OF d1(1) Cons.prems(4)] m'(1,2) Cons.prems(7)])
        (use Cons.prems(2,3) m'(3) in auto)
    from freed_append [OF d1(1) this] show ?thesis by simp
  qed
qed

end
