(* ===== verification/Daemon_Props.thy ===== *)
theory Daemon_Props
  imports Terminal_Loop
begin

text \<open>
  What holds in every run of the booted daemon, whatever the order of its steps: the bound on admitted builds,
  that a build that has ended stays ended, that the end of a build reaches the terminal-release loop and frees
  its slot, and what becomes of that loop once the hub has dropped it.
\<close>

section \<open>Runs of the booted daemon\<close>

lemma start_simps [simp]:
  "bk_engine (dm_broker (start_daemon s)) = bk_engine s" "dm_streams (start_daemon s) = (\<lambda>_. new_stream [] [])"
  "bk_reg (dm_broker (start_daemon s)) = bk_reg s" "dm_term (start_daemon s) = None"
  by (simp_all add: start_daemon_def)

lemma booted:
  assumes "broker_run b fs db = (Inr (sv, s), fs', db')"
  obtains pol where "bk_engine s = new_engine pol" "1 \<le> max_concurrent pol"
    "bk_reg s = boot_registry (be_rows_ok b) (be_now b) (be_rows b)"
proof -
  from assms obtain cfg where "bk_engine s = new_engine (broker_policy cfg)"
    "bk_reg s = boot_registry (be_rows_ok b) (be_now b) (be_rows b)"
    by (auto simp: broker_run_def Let_def split: sum.splits prod.splits option.splits if_splits)
  with that show ?thesis by (simp add: broker_policy_def default_policy_def)
qed

lemma start_inv: assumes "broker_run b fs db = (Inr (sv, s), fs', db')" shows "daemon_inv (start_daemon s)"
proof -
  from booted [OF assms] obtain pol where pol: "bk_engine s = new_engine pol"
    and rg: "bk_reg s = boot_registry (be_rows_ok b) (be_now b) (be_rows b)" by metis
  have "rg_hub (bk_reg s) = Some new_hub"
    using rg by (auto simp: boot_registry_def hydrate_def new_registry_def split: sum.split)
  moreover have "keyed (rg_builds (bk_reg s))" unfolding rg using boot_registry_ok by blast
  moreover have "served pol (bk_engine s)" by (simp add: pol served.new)
  ultimately show ?thesis by (auto simp: daemon_inv_def wired_def hub_ok_def hub_wf_new) (simp_all add: start_daemon_def)
qed

lemma run_capacity:
  assumes "broker_run b fs db = (Inr (sv, s), fs', db')" and "daemon_run cfg sv as (start_daemon s) = Some d"
  shows "capacity (egates (bk_engine (dm_broker d))) = capacity (egates (bk_engine s))"
proof -
  from booted [OF assms(1)] obtain pol where pol: "bk_engine s = new_engine pol" by metis
  have "all_ops.daemon_ok pol (start_daemon s)" by (simp add: all_ops.daemon_ok_def pol served.new)
  from all_ops.daemon_run_ok [OF assms(2) _ this] have "served pol (bk_engine (dm_broker d))"
    by (simp add: all_ops.daemon_ok_def)
  from served_inv [OF this] show ?thesis by (simp add: pol capacity_new)
qed

lemma configured_slots:
  assumes "broker_run b fs db = (Inr (sv, s), fs', db')" and "load (be_env b) (be_random b) (be_mkdir b) (be_write b) fs = (Inr cfg, fs1)"
  shows "capacity (egates (bk_engine s)) = (if 0 < cf_max_concurrency cfg then cf_max_concurrency cfg else 2)"
  using assms by (auto simp: broker_run_def Let_def capacity_new broker_policy_def default_policy_def split: option.splits prod.splits if_splits)

text \<open>
  C1: whatever clients, processes, build streams and timers do, as long as each operation runs as a whole before the next, the
  daemon never admits more builds than it was started with slots.  In every such run of the booted daemon the slots
  that are taken are exactly the builds the engine counts as admitted, these are at most
  \<open>max_concurrency\<close> of the configuration it loaded where that is positive and otherwise two, the default of
  the policy (although the configuration documents 0 as unlimited), and every build of the registry is filed under its own
  id.  The two halves of a release are one operation here; apart, they can exceed the bound.
\<close>

theorem daemon_bounds_builds:
  assumes "load (be_env b) (be_random b) (be_mkdir b) (be_write b) fs = (Inr cfg, fs1)"
    and "broker_run b fs db = (Inr (sv, s), fs', db')" and "daemon_run cfg sv as (start_daemon s) = Some d"
  defines "e \<equiv> bk_engine (dm_broker d)"
  shows "held (sem (egates e)) = admitted_ids e \<and>
    int (card (admitted_ids e)) \<le> (if 0 < cf_max_concurrency cfg then cf_max_concurrency cfg else 2) \<and>
    keyed (rg_builds (bk_reg (dm_broker d)))"
proof -
  have inv: "daemon_inv d" by (rule run_inv [OF assms(3) start_inv [OF assms(2)]])
  from held_admitted [of e] inv_engine [OF inv] run_capacity [OF assms(2,3)] configured_slots [OF assms(2,1)] inv
  show ?thesis by (simp add: e_def daemon_inv_def)
qed

text \<open>
  C20: a build that has ended stays ended.  Once the registry of the booted daemon shows a build as finished,
  failed, killed or gone, no later request, discovery pass, build event or timer, one whole operation after the other,
  changes its state, exit code, start or end time, as long as no client and no build event stream uses an id of the
  form \<open>pid-N\<close>, and the builds hydrated at the boot under such an id have that pid.
\<close>

theorem ended_build_stays_ended:
  assumes "broker_run b fs db = (Inr (sv, s), fs', db')" and "pid_named (rg_builds (bk_reg s))"
    and "daemon_run cfg sv as (start_daemon s) = Some d" and "daemon_run cfg sv as' d = Some d'"
    and "\<forall>a\<in>set (as @ as'). act_within proper_id a"
    and "rg_get i (bk_reg (dm_broker d)) = Some c" and "is_terminal (b_state c)"
  shows "\<exists>c'. rg_get i (bk_reg (dm_broker d')) = Some c' \<and> b_state c' = b_state c \<and> b_exit c' = b_exit c \<and>
    b_start c' = b_start c \<and> b_end c' = b_end c"
proof -
  from booted [OF assms(1)] obtain pol where pol: "bk_engine s = new_engine pol"
    and rg: "bk_reg s = boot_registry (be_rows_ok b) (be_now b) (be_rows b)" by metis
  have k: "keyed (rg_builds (bk_reg s))" unfolding rg using boot_registry_ok by blast
  have "plain_ops.daemon_ok pol (start_daemon s)" by (simp add: plain_ops.daemon_ok_def pol served.new)
  from plain_ops.daemon_run_ok [OF assms(3) _ this] assms(5) have d: "plain_ops.daemon_ok pol d"
    "reg_moves plain_op UNIV (bk_reg s) (bk_reg (dm_broker d))" by auto
  from plain_ops.daemon_run_ok [OF assms(4) _ d(1)] assms(5)
  have d': "reg_moves plain_op UNIV (bk_reg (dm_broker d)) (bk_reg (dm_broker d'))" by auto
  from moves_settled [OF d' _ _ assms(6,7)] moves_named [OF d(2) k assms(2)] show ?thesis by (auto simp: settled_def)
qed

lemma step_announces:
  assumes step: "daemon_step cfg sv a d = Some d'" and inv: "daemon_inv d" and l: "dm_term d = Some l"
    and ends: "\<not> ended i (bk_reg (dm_broker d))" "ended i (bk_reg (dm_broker d'))"
    and att: "attached (tl_sub l) (bk_reg (dm_broker d'))"
  obtains m where "dm_term d' = Some l" "term_rank i l (bk_reg (dm_broker d')) m" "m \<le> 258"
proof -
  have a: "a \<noteq> ActForward" "a \<noteq> ActTermStart" "\<nexists>now. a = ActRelease now"
    using step ends l by (auto simp: set_registry_def ended_def rg_get_def split_beta)
  with step_frame [OF step] l have l': "dm_term d' = Some l" by (cases a) auto
  from inv l obtain h where h: "rg_hub (bk_reg (dm_broker d)) = Some h" "tl_sub l < next_sub h"
    by (auto simp: daemon_inv_def wired_def)
  from inv l a(1) have n: "tl_sub l \<notin> read_by a d" by (simp add: daemon_inv_def unread)
  from inv have k: "keyed (rg_builds (bk_reg (dm_broker d)))" "hub_ok (bk_reg (dm_broker d))" by (simp_all add: daemon_inv_def)
  have "announced i (tl_sub l) (bk_reg (dm_broker d'))"
    by (rule moves_announce [OF step_inv(2) [OF step inv] k h n att ends(2,1)])
  moreover have "length (tl_ids l) \<le> terminal_buffer" using inv l by (auto simp: daemon_inv_def wired_def)
  moreover have "length (buffer_of (tl_sub l) (bk_reg (dm_broker d'))) \<le> sub_buffer_size"
    using step_inv(1) [OF step inv] by (auto simp: daemon_inv_def hub_ok_def hub_wf_def buffer_of_def split: option.split)
  ultimately show thesis using that l' rank_announced by blast
qed

text \<open>
  C5: a build that ends gives its slot back, though its wrapper never calls the release route.  In every run
  of the booted daemon, when any step ends a build (a DELETE, its build event stream, a discovery pass that
  finds its process gone, a stopping tailer) and the hub still serves the terminal-release loop after that
  step, then while the loop takes 258 turns, among whatever else happens between them, there is a moment when
  the engine holds no slot for that build.
\<close>

theorem ended_build_frees_slot:
  assumes "broker_run b fs db = (Inr (sv, s), fs', db')" and "daemon_run cfg sv as (start_daemon s) = Some d"
    and "daemon_step cfg sv a d = Some d1" and "\<not> ended i (bk_reg (dm_broker d))" and "ended i (bk_reg (dm_broker d1))" and "i \<noteq> []"
    and "dm_term d = Some l" and "attached (tl_sub l) (bk_reg (dm_broker d1))"
    and "daemon_run cfg sv (concat turns) d1 = Some d2" and "\<forall>t\<in>set turns. loop_turn t" and "258 \<le> length turns"
  shows "slot_freed cfg sv i (concat turns) d1"
proof -
  have inv: "daemon_inv d" by (rule run_inv [OF assms(2) start_inv [OF assms(1)]])
  obtain m where m: "dm_term d1 = Some l" "term_rank i l (bk_reg (dm_broker d1)) m" "m \<le> 258"
    using step_announces [OF assms(3) inv assms(7,4,5,8)] .
  show ?thesis by (rule turns_free [OF assms(9,10) _ step_inv(1) [OF assms(3) inv] m(1,2) assms(6)]) (use m(3) assms(11) in simp)
qed

lemma step_deaf:
  assumes step: "daemon_step cfg sv a d = Some d'" and inv: "daemon_inv d" and l: "dm_term d = Some l"
    and out: "\<not> attached (tl_sub l) (bk_reg (dm_broker d))"
  shows "\<exists>l'. dm_term d' = Some l' \<and> tl_sub l' = tl_sub l \<and> \<not> attached (tl_sub l) (bk_reg (dm_broker d')) \<and>
    (\<forall>j. term_pending j l' (bk_reg (dm_broker d')) \<longrightarrow> term_pending j l (bk_reg (dm_broker d)))"
proof -
  from inv l obtain h where h: "rg_hub (bk_reg (dm_broker d)) = Some h" "tl_sub l < next_sub h" "length (tl_ids l) \<le> terminal_buffer"
    by (auto simp: daemon_inv_def wired_def)
  from step_inv(3) [OF step inv] h(1) obtain h' where h': "rg_hub (bk_reg (dm_broker d')) = Some h'" "hub_moves (read_by a d) h h'"
    by (auto simp: hub_follows_def option_rel_Some1)
  from hub_movesD(2) [OF h'(2) h(2)] out h(1) h'(1) have out': "\<not> attached (tl_sub l) (bk_reg (dm_broker d'))"
    by (auto simp: attached_def)
  consider (forward) "a = ActForward" | (release) now where "a = ActRelease now" | (other) "dm_term d' = Some l" "a \<noteq> ActForward"
    using step_frame [OF step] step l by (cases a) auto
  then show ?thesis
  proof cases
    case forward
    obtain l' rg' where f: "terminal_forward l (bk_reg (dm_broker d)) = (l', rg')" by fastforce
    with step l forward have d': "dm_term d' = Some l'" "bk_reg (dm_broker d') = rg'" by (auto simp: set_registry_def)
    from d' out' forward_pending [OF f] forward_keeps(1) [OF h(3), of "bk_reg (dm_broker d)"] f show ?thesis by simp
  next
    case (release now)
    obtain l' e where f: "terminal_release (snapshot_active (bk_reg (dm_broker d))) now l (bk_engine (dm_broker d)) = (l', e)" by fastforce
    with step l release have d': "dm_term d' = Some l'" "bk_reg (dm_broker d') = bk_reg (dm_broker d)" by auto
    with out f show ?thesis by (auto simp: terminal_release_def term_pending_def split: list.splits)
  next
    case other
    from inv l other(2) have n: "tl_sub l \<notin> read_by a d" by (simp add: daemon_inv_def unread)
    from follows_buffer [OF step_inv(3) [OF step inv] h(1,2) n] out
    have "buffer_of (tl_sub l) (bk_reg (dm_broker d')) = buffer_of (tl_sub l) (bk_reg (dm_broker d))" by (metis append_Nil2)
    with other(1) out' show ?thesis by (simp add: term_pending_def)
  qed
qed

text \<open>
  C6: the other side of it: once the hub has dropped the terminal-release loop, because 64 events had piled up,
  nothing the daemon does ever attaches it again, and the loop gets to release no id that was not under way to
  it at that time; the slots of builds that end later wait for the release route or the reaper.
\<close>

theorem dropped_loop_stays_dropped:
  assumes "broker_run b fs db = (Inr (sv, s), fs', db')" and "daemon_run cfg sv as (start_daemon s) = Some d"
    and "dm_term d = Some l" and "\<not> attached (tl_sub l) (bk_reg (dm_broker d))" and "daemon_run cfg sv as' d = Some d'"
  shows "\<exists>l'. dm_term d' = Some l' \<and> tl_sub l' = tl_sub l \<and> \<not> attached (tl_sub l') (bk_reg (dm_broker d')) \<and>
    (\<forall>j. term_pending j l' (bk_reg (dm_broker d')) \<longrightarrow> term_pending j l (bk_reg (dm_broker d)))"
proof -
  have "daemon_inv d" by (rule run_inv [OF assms(2) start_inv [OF assms(1)]])
  with assms(3-5) show ?thesis
  proof (induction as' arbitrary: d l)
    case Nil
    then show ?case by auto
  next
    case (Cons a "as")
    from Cons.prems(3) obtain d1 where d1: "daemon_step cfg sv a d = Some d1" "daemon_run cfg sv as d1 = Some d'"
      by (auto split: option.splits)
    from step_deaf [OF d1(1) Cons.prems(4,1,2)] obtain l1 where l1: "dm_term d1 = Some l1" "tl_sub l1 = tl_sub l"
      "\<not> attached (tl_sub l1) (bk_reg (dm_broker d1))"
      "\<forall>j. term_pending j l1 (bk_reg (dm_broker d1)) \<longrightarrow> term_pending j l (bk_reg (dm_broker d))" by auto
    from Cons.IH [OF l1(1,3) d1(2) step_inv(1) [OF d1(1) Cons.prems(4)]] l1(2,4) show ?case by auto
  qed
qed

section \<open>A first boot, run\<close>

definition first_broker :: broker where
  "first_broker = \<lparr>bk_reg = new_registry (Some empty_store) (Some new_hub), bk_engine = new_engine default_policy\<rparr>"

definition first_server :: server where
  "first_server = \<lparr>sv_token = ''ab05'', sv_version = ''0.1.0'', sv_started = 7,
     sv_seams = broker_seams (boot_outside (home_config ''ab05'') quiet_outside)\<rparr>"

lemma first_load:
  "\<exists>fs'. load (be_env first_boot) (be_random first_boot) (be_mkdir first_boot) (be_write first_boot) (\<lambda>_. NoFile) =
     (Inr (home_config ''ab05''), fs')"
proof -
  have "hex_encode [171, 5] = ''ab05''" by (simp add: hex_encode_def hex_digit_def) code_simp
  then show ?thesis
    by (simp add: first_boot_def load_def home_config_path bootstrap_def generate_token_def home_defaults home_valid save_def)
qed

lemma first_boot_runs:
  "\<exists>fs'. broker_run first_boot (\<lambda>_. NoFile) v1_db = (Inr (first_server, first_broker), fs', v2_db)"
proof -
  have pol: "broker_policy (home_config ''ab05'') = default_policy"
    by (simp add: broker_policy_def home_config_def)
  have reg: "boot_registry True 7 empty_store = new_registry (Some empty_store) (Some new_hub)"
    by (simp add: boot_registry_def hydrate_def recent_builds_def empty_store_def new_registry_def)
  show ?thesis
    using first_load
    by (auto simp: broker_run_def first_boot_def v1_migrates first_server_def first_broker_def pol [unfolded home_config_def] reg home_config_def)
qed

text \<open>Requests with the token of that boot, to the routes whose path is one literal or \<open>/builds/<id>\<close>.\<close>

definition first_request :: "string \<Rightarrow> string list \<Rightarrow> http_request" where
  "first_request m cs = idle_request\<lparr>rq_auth := ''Bearer ab05'', rq_method := m, rq_escaped := abs_path cs,
     rq_register := Some reg_a, rq_admit := Some (ask ''a'')\<rparr>"

definition no_scan :: scan where
  "no_scan = \<lparr>sn_resolve = (\<lambda>_. Inl NotInWorktree), sn_procs = Inr [], sn_now = 0, sn_ok = True\<rparr>"

definition no_walk :: disk_walk where
  "no_walk = \<lparr>dw_removable = (\<lambda>_. False), dw_ok = True, dw_items = []\<rparr>"

definition first_act :: "gotime \<Rightarrow> string \<Rightarrow> string list \<Rightarrow> daemon_act" where
  "first_act now m cs = ActRequest no_scan no_walk quiet_outside True now (first_request m cs)"

lemma find_delete_build: "plain_id i \<Longrightarrow> find_handler ''DELETE'' (abs_path [''builds'', i]) = Found RtDeregisterPath [i]"
  by (rule find_plain [where rest = "[]"])
    (auto simp: routes_def map_filter_def match_route_def method_matches_def plain_id_def comp_ok_def)

lemma find_admission: "find_handler ''POST'' (abs_path [''admission'']) = Found RtAdmit []"
  by (rule find_plain [where rest = "[]"])
    (simp_all add: routes_def map_filter_def match_route_def method_matches_def plain_id_def comp_ok_def)

lemma first_authorized: "authorize (sv_token (first_server\<lparr>sv_seams := x\<rparr>)) (rq_auth (first_request m cs))"
  by (simp add: authorize_def first_server_def first_request_def trim_simps)

lemma first_step:
  assumes "\<forall>c\<in>set cs. plain_id c" and "cs \<noteq> []" and "find_handler m (abs_path cs) = Found k as"
  shows "daemon_step cfg first_server (first_act now m cs) d =
    map_option (\<lambda>(r, s). d\<lparr>dm_broker := s\<rparr>)
      (handle_route (first_server\<lparr>sv_seams := broker_seams (daemon_outside cfg no_scan no_walk now (bk_reg (dm_broker d)) quiet_outside)\<rparr>)
         True now (first_request m cs) k as (dm_broker d))"
  using serve_plain [OF assms(1,2) first_authorized, of m cs k "as"] assms(3)
  by (simp add: first_act_def first_request_def)

lemma plain_names: "plain_id ''builds''" "plain_id ''admission''" "plain_id ''a''"
  by (simp_all add: plain_id_def comp_ok_def)

lemma first_register:
  "daemon_step cfg first_server (first_act now ''POST'' [''builds'']) d =
     Some (d\<lparr>dm_broker := (dm_broker d)\<lparr>bk_reg := snd (handle_register True now (Some reg_a) (bk_reg (dm_broker d)))\<rparr>\<rparr>)"
  using first_step [OF _ _ find_post_builds, of cfg now d] plain_names
  by (simp add: handle_route_def on_reg_def first_request_def)

lemma first_admit:
  "daemon_step cfg first_server (first_act now ''POST'' [''admission'']) d =
     Some (on_engine (\<lambda>sn e. snd (handle_admit (Some (ask ''a'')) sn now e)) d)"
  using first_step [OF _ _ find_admission, of cfg now d] plain_names
  by (simp add: handle_route_def is_metrics_route_def broker_seams_def admission_seam_def of_text_def on_engine_def
      first_request_def Let_def)

lemma first_delete:
  "daemon_step cfg first_server (first_act now ''DELETE'' [''builds'', ''a'']) d =
     Some (d\<lparr>dm_broker := (dm_broker d)\<lparr>bk_reg := snd (handle_deregister_path True now ''a'' [] (bk_reg (dm_broker d)))\<rparr>\<rparr>)"
  using first_step [OF _ _ find_delete_build, of "''a''" cfg now d] plain_names
  by (simp add: handle_route_def on_reg_def first_request_def idle_request_def)

lemma idle_cpu: "eff_cpu 0 0 = 0" "0 < fl64 (17 / 20)" "\<not> fl64 (17 / 20) \<le> 0"
  using fl64_pos [of "17 / 20"] by (simp_all add: eff_cpu_def fl64_def)

lemma first_admission:
  "held (sem (egates (snd (handle_admit (Some (ask ''a'')) no_builds 8 (new_engine default_policy))))) = {''a''}"
  by (simp add: handle_admit_def admit_call_def attach_def run_simps default_policy_def idle_cpu)

text \<open>The daemon of that boot, before and after the terminal-release loop has subscribed.\<close>

definition first_daemon :: daemon where
  "first_daemon = start_daemon first_broker"

definition looped_daemon :: daemon where
  "looped_daemon = set_registry (snd (terminal_subscribe (bk_reg first_broker)))
     (first_daemon\<lparr>dm_term := Some \<lparr>tl_sub = 0, tl_hand = None, tl_ids = []\<rparr>\<rparr>)"

lemma first_hub: "rg_hub (bk_reg first_broker) = Some new_hub"
  by (simp add: first_broker_def new_registry_def)

lemma first_loop: "daemon_step cfg sv ActTermStart first_daemon = Some looped_daemon"
  by (simp add: first_daemon_def looped_daemon_def terminal_subscribe_def first_hub hub_defs)

lemma looped_parts:
  "snapshot_active (bk_reg (dm_broker looped_daemon)) = no_builds" "bk_engine (dm_broker looped_daemon) = new_engine default_policy"
  "rg_builds (bk_reg (dm_broker looped_daemon)) = []" "dm_term looped_daemon = Some \<lparr>tl_sub = 0, tl_hand = None, tl_ids = []\<rparr>"
  "attached 0 (bk_reg (dm_broker looped_daemon))" "hub_ok (bk_reg (dm_broker looped_daemon))"
  "buffer_of 0 (bk_reg (dm_broker looped_daemon)) = []"
  using hub_wf_subscribe [OF hub_wf_new]
  by (simp_all add: looped_daemon_def set_registry_def first_daemon_def start_daemon_def terminal_subscribe_def first_hub
      snapshot_active_def rg_snapshot_def no_builds_def attached_def hub_ok_def buffer_of_def)
    (simp_all add: hub_defs first_broker_def new_registry_def)

lemma first_registered:
  assumes "rg_builds rg = []"
  obtains c where "rg_builds (snd (handle_register True t (Some reg_a) rg)) = [(''a'', c)]" "b_state c = state_running" "b_id c = ''a''"
  using assms by (simp add: handle_register_def reg_a_def to_domain_def rg_register_def register_core_def Let_def empty_build_def)

lemma register_publishes:
  obtains w bs where "snd (handle_register ok t (Some reg_a) rg) = publish ok t w (rg\<lparr>rg_builds := bs\<rparr>)"
proof -
  have "b_id (to_domain reg_a) \<noteq> []" "b_worktree (to_domain reg_a) \<noteq> []" by (simp_all add: to_domain_def reg_a_def)
  from register_ok [OF this] obtain s bs where "register_core (to_domain reg_a) t (rg_builds rg) = Inr (s, bs)" by blast
  with that show ?thesis by (simp add: handle_register_def reg_a_def rg_register_def)
qed

lemma first_deleted:
  assumes "rg_builds rg = [(''a'', c)]" and "b_state c = state_running"
  shows "rg_builds (snd (handle_deregister_path True t ''a'' [] rg)) = [(''a'', c\<lparr>b_state := state_finished, b_exit := 0, b_end := t\<rparr>)]"
  using assms by (simp add: handle_deregister_path_def rg_deregister_def deregister_core_def Let_def)

lemma delete_publishes:
  assumes "rg_builds rg = [(''a'', c)]" and "b_state c = state_running"
  obtains w bs where "snd (handle_deregister_path True t ''a'' [] rg) = publish True t w (rg\<lparr>rg_builds := bs\<rparr>)"
  using assms by (auto simp: handle_deregister_path_def rg_deregister_def deregister_core_def Let_def)

lemma publish_reaches:
  assumes "hub_ok rg" and "attached n rg"
  shows "attached n (publish ok now w rg) \<longleftrightarrow> length (buffer_of n rg) < sub_buffer_size"
proof -
  from assms(2) obtain h where h: "rg_hub rg = Some h" "n \<in> set (subs h)" by (auto simp: attached_def split: option.splits)
  with assms(1) have "hub_wf h" by (simp add: hub_ok_def)
  with h broadcast_exact [OF this] show ?thesis
    by (auto simp: publish_def broadcast_build_def attached_def has_room_def buffer_of_def)
qed

lemma publish_room:
  assumes "hub_ok rg" and "attached n rg" and "length (buffer_of n rg) < sub_buffer_size"
  shows "attached n (publish ok now w rg)" "length (buffer_of n (publish ok now w rg)) = Suc (length (buffer_of n rg))"
proof -
  show a: "attached n (publish ok now w rg)" using publish_reaches [OF assms(1,2)] assms(3) by blast
  show "length (buffer_of n (publish ok now w rg)) = Suc (length (buffer_of n rg))"
    using publish_delivers [OF assms(1) a] by auto
qed

theorem daemon_bounds_builds_witness:
  "\<exists>d. daemon_run (home_config ''ab05'') first_server [ActTermStart, first_act 8 ''POST'' [''admission''], first_act 9 ''POST'' [''builds'']]
       first_daemon = Some d \<and>
     admitted_ids (bk_engine (dm_broker d)) = {''a''} \<and>
     int (card (admitted_ids (bk_engine (dm_broker d)))) \<le> 2"
proof -
  obtain fs' where b: "broker_run first_boot (\<lambda>_. NoFile) v1_db = (Inr (first_server, first_broker), fs', v2_db)"
    using first_boot_runs by blast
  let ?as = "[ActTermStart, first_act 8 ''POST'' [''admission''], first_act 9 ''POST'' [''builds'']]"
  obtain d where r: "daemon_run (home_config ''ab05'') first_server ?as first_daemon = Some d"
    and h: "held (sem (egates (bk_engine (dm_broker d)))) = {''a''}"
    using first_admission by (simp add: first_loop first_admit first_register on_engine_def looped_parts del: daemon_step.simps)
  from first_load obtain fs1 where l: "load (be_env first_boot) (be_random first_boot) (be_mkdir first_boot) (be_write first_boot)
      (\<lambda>_. NoFile) = (Inr (home_config ''ab05''), fs1)" by blast
  from daemon_bounds_builds [OF l b r [unfolded first_daemon_def]] r h show ?thesis by (auto simp: home_config_def)
qed

theorem ended_build_stays_ended_witness:
  "\<exists>d d' c c'. daemon_run (home_config ''ab05'') first_server
       [ActTermStart, first_act 8 ''POST'' [''builds''], first_act 9 ''DELETE'' [''builds'', ''a'']] first_daemon = Some d \<and>
     daemon_run (home_config ''ab05'') first_server [first_act 10 ''POST'' [''builds'']] d = Some d' \<and>
     rg_get ''a'' (bk_reg (dm_broker d)) = Some c \<and> b_state c = state_finished \<and>
     rg_get ''a'' (bk_reg (dm_broker d')) = Some c' \<and> b_state c' = state_finished"
proof -
  obtain fs' where b: "broker_run first_boot (\<lambda>_. NoFile) v1_db = (Inr (first_server, first_broker), fs', v2_db)"
    using first_boot_runs by blast
  let ?as = "[ActTermStart, first_act 8 ''POST'' [''builds''], first_act 9 ''DELETE'' [''builds'', ''a'']]"
  let ?as' = "[first_act 10 ''POST'' [''builds'']]"
  obtain c where c: "rg_builds (snd (handle_register True 8 (Some reg_a) (bk_reg (dm_broker looped_daemon)))) = [(''a'', c)]"
    "b_state c = state_running" by (rule first_registered [OF looped_parts(3)])
  obtain d where d: "daemon_run (home_config ''ab05'') first_server ?as first_daemon = Some d"
    "rg_get ''a'' (bk_reg (dm_broker d)) = Some (c\<lparr>b_state := state_finished, b_exit := 0, b_end := 9\<rparr>)"
    by (simp add: first_loop first_register first_delete first_deleted [OF c] rg_get_def del: daemon_step.simps)
  obtain d' where d': "daemon_run (home_config ''ab05'') first_server ?as' d = Some d'" by (simp add: first_register)
  have n: "pid_named (rg_builds (bk_reg first_broker))" by (simp add: pid_named_def first_broker_def new_registry_def)
  have w: "\<forall>a\<in>set (?as @ ?as'). act_within proper_id a"
    by (simp add: first_act_def request_within_def first_request_def reg_a_def proper_id_def has_prefix_def)
  from ended_build_stays_ended [OF b n d(1) [unfolded first_daemon_def] d' w d(2)] d d' show ?thesis by auto
qed

lemma turns_run:
  "dm_term d = Some l \<Longrightarrow> \<exists>d'. daemon_run cfg sv (concat (replicate k [ActForward, ActRelease t])) d = Some d'"
proof (induction k arbitrary: d l)
  case (Suc k)
  obtain d1 l1 where 1: "daemon_step cfg sv ActForward d = Some d1" "dm_term d1 = Some l1"
    using Suc.prems by (auto simp: set_registry_def split_beta)
  obtain d2 l2 where 2: "daemon_step cfg sv (ActRelease t) d1 = Some d2" "dm_term d2 = Some l2"
    using 1(2) by (auto simp: split_beta)
  from Suc.IH [OF 2(2)] 1(1) 2(1) show ?case by (simp del: daemon_step.simps)
qed simp

theorem ended_build_frees_slot_witness:
  "\<exists>d d1 d2. daemon_run (home_config ''ab05'') first_server [ActTermStart, first_act 8 ''POST'' [''admission''], first_act 9 ''POST'' [''builds'']]
       first_daemon = Some d \<and> ''a'' \<in> held (sem (egates (bk_engine (dm_broker d)))) \<and>
     daemon_step (home_config ''ab05'') first_server (first_act 10 ''DELETE'' [''builds'', ''a'']) d = Some d1 \<and>
     daemon_run (home_config ''ab05'') first_server (concat (replicate 258 [ActForward, ActRelease 11])) d1 = Some d2 \<and>
     slot_freed (home_config ''ab05'') first_server ''a'' (concat (replicate 258 [ActForward, ActRelease 11])) d1"
proof -
  obtain fs' where b: "broker_run first_boot (\<lambda>_. NoFile) v1_db = (Inr (first_server, first_broker), fs', v2_db)"
    using first_boot_runs by blast
  let ?cfg = "home_config ''ab05''" and ?as = "[ActTermStart, first_act 8 ''POST'' [''admission''], first_act 9 ''POST'' [''builds'']]"
  let ?before = "bk_reg (dm_broker looped_daemon)" and ?turns = "replicate 258 [ActForward, ActRelease 11]"
  let ?rg = "snd (handle_register True 9 (Some reg_a) ?before)"
  let ?rg' = "snd (handle_deregister_path True 10 ''a'' [] ?rg)"
  obtain d where r: "daemon_run ?cfg first_server ?as first_daemon = Some d"
    and h: "held (sem (egates (bk_engine (dm_broker d)))) = {''a''}" and g: "bk_reg (dm_broker d) = ?rg"
    and l: "dm_term d = Some \<lparr>tl_sub = 0, tl_hand = None, tl_ids = []\<rparr>"
    using first_admission looped_parts(4)
    by (simp add: first_loop first_admit first_register on_engine_def looped_parts(1,2) del: daemon_step.simps)
  obtain c where c: "rg_builds ?rg = [(''a'', c)]" "b_state c = state_running" by (rule first_registered [OF looped_parts(3)])
  obtain d1 where d1: "daemon_step ?cfg first_server (first_act 10 ''DELETE'' [''builds'', ''a'']) d = Some d1" "bk_reg (dm_broker d1) = ?rg'"
    "dm_term d1 = dm_term d"
    by (simp add: first_delete g del: daemon_step.simps)
  have "\<not> ended ''a'' (bk_reg (dm_broker d))" "ended ''a'' (bk_reg (dm_broker d1))"
    using c first_deleted [OF c, of 10] by (simp_all add: d1(2) g ended_def rg_get_def)
  note e = this
  obtain w bs where p: "?rg = publish True 9 w (?before\<lparr>rg_builds := bs\<rparr>)" by (rule register_publishes)
  obtain w' bs' where p': "?rg' = publish True 10 w' (?rg\<lparr>rg_builds := bs'\<rparr>)" by (rule delete_publishes [OF c])
  have q: "hub_ok (?before\<lparr>rg_builds := bs\<rparr>)" "attached 0 (?before\<lparr>rg_builds := bs\<rparr>)" "buffer_of 0 (?before\<lparr>rg_builds := bs\<rparr>) = []"
    using looped_parts(5-7) by simp_all
  from publish_room [OF q(1,2), of True 9 w] q(3) publish_hub_ok [OF q(1), of True 9 w]
  have "hub_ok ?rg" "attached 0 ?rg" "length (buffer_of 0 ?rg) = 1" by (simp_all add: p sub_buffer_size_def)
  with publish_room(1) [of "?rg\<lparr>rg_builds := bs'\<rparr>" 0 True 10 w']
  have att: "attached (tl_sub \<lparr>tl_sub = 0, tl_hand = None, tl_ids = []\<rparr>) (bk_reg (dm_broker d1))"
    by (simp add: d1(2) p' sub_buffer_size_def)
  obtain d2 where d2: "daemon_run ?cfg first_server (concat ?turns) d1 = Some d2"
    using turns_run [of d1] d1(3) l by (simp only:) blast
  have t: "\<forall>t\<in>set ?turns. loop_turn t" "258 \<le> length ?turns" by (simp_all add: loop_turn_def)
  from ended_build_frees_slot [OF b r [unfolded first_daemon_def] d1(1) e _ l att d2 t] r h d1(1) d2 show ?thesis by auto
qed

lemma registers_fill:
  assumes "k \<le> 64" shows "\<exists>d. daemon_run cfg first_server (replicate k (first_act 9 ''POST'' [''builds''])) looped_daemon = Some d \<and>
    hub_ok (bk_reg (dm_broker d)) \<and> attached 0 (bk_reg (dm_broker d)) \<and> length (buffer_of 0 (bk_reg (dm_broker d))) = k \<and>
    dm_term d = dm_term looped_daemon"
  using assms
proof (induction k)
  case 0
  from looped_parts(5-7) show ?case by simp
next
  case (Suc k)
  then obtain d where d: "daemon_run cfg first_server (replicate k (first_act 9 ''POST'' [''builds''])) looped_daemon = Some d"
    "hub_ok (bk_reg (dm_broker d))" "attached 0 (bk_reg (dm_broker d))" "length (buffer_of 0 (bk_reg (dm_broker d))) = k"
    "dm_term d = dm_term looped_daemon" by auto
  obtain w bs where p: "snd (handle_register True 9 (Some reg_a) (bk_reg (dm_broker d))) = publish True 9 w (bk_reg (dm_broker d)\<lparr>rg_builds := bs\<rparr>)"
    by (rule register_publishes)
  from publish_room [of "bk_reg (dm_broker d)\<lparr>rg_builds := bs\<rparr>" 0 True 9 w] publish_hub_ok [of "bk_reg (dm_broker d)\<lparr>rg_builds := bs\<rparr>" True 9 w]
    d(2-5) Suc.prems
  show ?case
    by (simp add: replicate_append_same [symmetric] run_append d(1) first_register p sub_buffer_size_def del: daemon_step.simps)
qed

theorem dropped_loop_stays_dropped_witness:
  "\<exists>d d' l. daemon_run (home_config ''ab05'') first_server (ActTermStart # replicate 65 (first_act 9 ''POST'' [''builds''])) first_daemon = Some d \<and>
     dm_term d = Some l \<and> \<not> attached (tl_sub l) (bk_reg (dm_broker d)) \<and>
     daemon_run (home_config ''ab05'') first_server [first_act 10 ''DELETE'' [''builds'', ''a'']] d = Some d' \<and>
     \<not> attached (tl_sub l) (bk_reg (dm_broker d'))"
proof -
  obtain fs' where b: "broker_run first_boot (\<lambda>_. NoFile) v1_db = (Inr (first_server, first_broker), fs', v2_db)"
    using first_boot_runs by blast
  let ?cfg = "home_config ''ab05''" and ?register = "first_act 9 ''POST'' [''builds'']" and ?l = "\<lparr>tl_sub = 0, tl_hand = None, tl_ids = []\<rparr>"
  from registers_fill [of 64 ?cfg] obtain d0 where d0: "daemon_run ?cfg first_server (replicate 64 ?register) looped_daemon = Some d0"
    "hub_ok (bk_reg (dm_broker d0))" "attached 0 (bk_reg (dm_broker d0))" "length (buffer_of 0 (bk_reg (dm_broker d0))) = 64"
    "dm_term d0 = Some ?l" using looped_parts(4) by auto
  obtain w bs where p: "snd (handle_register True 9 (Some reg_a) (bk_reg (dm_broker d0))) = publish True 9 w (bk_reg (dm_broker d0)\<lparr>rg_builds := bs\<rparr>)"
    by (rule register_publishes)
  from publish_reaches [of "bk_reg (dm_broker d0)\<lparr>rg_builds := bs\<rparr>" 0 True 9 w] d0(2-4)
  obtain d where d: "daemon_step ?cfg first_server ?register d0 = Some d" "\<not> attached (tl_sub ?l) (bk_reg (dm_broker d))" "dm_term d = Some ?l"
    using d0(5) by (simp add: first_register p sub_buffer_size_def del: daemon_step.simps)
  have "replicate 65 ?register = replicate 64 ?register @ [?register]"
    using replicate_append_same [of 64 ?register] replicate_Suc [of 64 ?register] by simp
  then have r: "daemon_run ?cfg first_server (ActTermStart # replicate 65 ?register) first_daemon = Some d"
    by (simp add: first_loop run_append d0(1) d(1) del: daemon_step.simps)
  obtain d' where d': "daemon_run ?cfg first_server [first_act 10 ''DELETE'' [''builds'', ''a'']] d = Some d'"
    by (simp add: first_delete del: daemon_step.simps)
  from dropped_loop_stays_dropped [OF b r [unfolded first_daemon_def] d(3,2) d'] r d d' show ?thesis by auto
qed

end
