(* ===== verification/Daemon_Events.thy ===== *)
theory Daemon_Events
  imports Daemon_Props
begin

text \<open>
  The event connections in the daemon: what a client that watches has seen is what the registry holds, for as
  long as the hub serves its connection, whatever else the daemon does.
\<close>

lemma step_conn:
  assumes step: "daemon_step cfg sv a d = Some d'" and inv: "daemon_inv d" and c: "dm_conns d n = Some c"
    and i: "conn_inv c (bk_reg (dm_broker d))"
  shows "\<exists>c'. dm_conns d' n = Some c' \<and> conn_inv c' (bk_reg (dm_broker d'))"
proof (cases "\<exists>w. a = ActWake n w")
  case True
  with step c obtain w where "dm_conns d' n = Some (fst (conn_step w c (bk_reg (dm_broker d))))"
    "bk_reg (dm_broker d') = snd (conn_step w c (bk_reg (dm_broker d)))"
    by (auto simp: set_registry_def split_beta)
  with inv_conn [OF i] show ?thesis by simp
next
  case False
  from inv have k: "keyed (rg_builds (bk_reg (dm_broker d)))" "hub_ok (bk_reg (dm_broker d))" and w: "wired d" by (simp_all add: daemon_inv_def)
  from w show ?thesis
  proof (rule wiredD)
    fix h
    assume h: "rg_hub (bk_reg (dm_broker d)) = Some h"
      and s: "\<And>n c. dm_conns d n = Some c \<Longrightarrow> cn_end c = None \<Longrightarrow> cn_sub c < next_sub h"
        "\<And>n c l. dm_conns d n = Some c \<Longrightarrow> cn_end c = None \<Longrightarrow> dm_term d = Some l \<Longrightarrow> cn_sub c \<noteq> tl_sub l"
        "\<And>n c n' c'. dm_conns d n = Some c \<Longrightarrow> cn_end c = None \<Longrightarrow> dm_conns d n' = Some c' \<Longrightarrow> cn_end c' = None \<Longrightarrow>
           cn_sub c' = cn_sub c \<Longrightarrow> n' = n"
      and o: "\<And>n. dm_opened d n = None \<or> dm_conns d n = None"
    have r: "cn_sub c \<notin> read_by a d" if e: "cn_end c = None"
    proof (cases a)
      case (ActWake m w)
      with False s(3) [OF c e, of m] e show ?thesis by (auto simp: read_by_def reading_def split: option.split)
    next
      case ActForward
      with s(2) [OF c e] show ?thesis by (auto simp: read_by_def split: option.split)
    qed (simp_all add: read_by_def)
    from moves_kept [OF step_inv(2) [OF step inv] k] h s(1) [OF c] r i
    have "conn_inv c (bk_reg (dm_broker d'))" by (simp add: conns_kept_def)
    moreover have "dm_conns d' n = Some c"
    proof (cases a)
      case (ActWake m w)
      with False step c show ?thesis by (auto simp: set_registry_def split: option.splits prod.splits)
    next
      case (ActSubscribe m)
      with step obtain c0 where "dm_opened d m = Some c0" by (auto split: option.splits)
      with o [of m] c have "m \<noteq> n" by auto
      with step c ActSubscribe show ?thesis by (auto simp: set_registry_def split: option.splits prod.splits)
    qed (use step_frame [OF step] c in auto)
    ultimately show ?thesis by blast
  qed
qed

lemma run_conn:
  "daemon_run cfg sv as d = Some d' \<Longrightarrow> daemon_inv d \<Longrightarrow> dm_conns d n = Some c \<Longrightarrow> conn_inv c (bk_reg (dm_broker d)) \<Longrightarrow>
     \<exists>c'. dm_conns d' n = Some c' \<and> conn_inv c' (bk_reg (dm_broker d'))"
proof (induction "as" arbitrary: d c)
  case (Cons a "as")
  then obtain d1 where d1: "daemon_step cfg sv a d = Some d1" "daemon_run cfg sv as d1 = Some d'" by (auto split: option.splits)
  from step_conn [OF d1(1) Cons.prems(2-4)] obtain c1 where "dm_conns d1 n = Some c1" "conn_inv c1 (bk_reg (dm_broker d1))" by blast
  from Cons.IH [OF d1(2) step_inv(1) [OF d1(1) Cons.prems(2)] this] show ?case .
qed auto

lemma conn_in_step:
  assumes "conn_inv c rg" and "cn_end c = None" and "buffer_of (cn_sub c) rg = []"
  shows "attached (cn_sub c) rg \<Longrightarrow> map_option unclocked (map_of (watch_frames (cn_frames c)) i) =
      map_option (\<lambda>b. unclocked (to_api b time_zero)) (rg_get i rg)"
    and "\<not> attached (cn_sub c) rg \<Longrightarrow> cn_end (fst (conn_step (WakeEvent True) c rg)) = Some SlowConsumer"
proof -
  assume "attached (cn_sub c) rg"
  with assms have "client_view (watch_frames (cn_frames c)) i = registry_view (rg_builds rg) i"
    by (simp add: conn_inv_def pending_view_def)
  then show "map_option unclocked (map_of (watch_frames (cn_frames c)) i) = map_option (\<lambda>b. unclocked (to_api b time_zero)) (rg_get i rg)"
    by (simp add: client_view_def registry_view_def rg_get_def)
next
  assume "\<not> attached (cn_sub c) rg"
  with assms obtain h where "rg_hub rg = Some h" "sb_closed (chans h (cn_sub c))"
    by (auto simp: conn_inv_def closed_sub_def split: option.splits)
  with assms(2,3) show "cn_end (fst (conn_step (WakeEvent True) c rg)) = Some SlowConsumer"
    by (simp add: conn_step_def receive_def buffer_of_def end_conn_def)
qed

text \<open>
  C19: a client that watches the daemon sees its registry.  An event connection that was opened in any run of
  the booted daemon and subscribed before anything else happened gets frames numbered from 0 without a gap, and
  at every later moment at which it is alive and its channel is read empty, the table a client folds out of its
  frames with \<open>applyEvent\<close> is the registry of that moment, whatever requests, scans, build events and other
  connections came in between; if the hub has dropped it, its next read ends it as a slow consumer.
\<close>

theorem daemon_watch_in_step:
  assumes "broker_run b fs db = (Inr (sv, s), fs', db')" and "daemon_run cfg sv as (start_daemon s) = Some d"
    and "daemon_run cfg sv (ActConnect n True now rq # ActSubscribe n # as') d = Some d'"
  shows "\<exists>c. dm_conns d' n = Some c \<and> map ev_seq (cn_frames c) = [0..<length (cn_frames c)] \<and>
    (cn_end c = None \<longrightarrow> buffer_of (cn_sub c) (bk_reg (dm_broker d')) = [] \<longrightarrow>
       (if attached (cn_sub c) (bk_reg (dm_broker d'))
        then \<forall>i. map_option unclocked (map_of (watch_frames (cn_frames c)) i) =
               map_option (\<lambda>b. unclocked (to_api b time_zero)) (rg_get i (bk_reg (dm_broker d')))
        else cn_end (fst (conn_step (WakeEvent True) c (bk_reg (dm_broker d')))) = Some SlowConsumer))"
proof -
  let ?rg = "bk_reg (dm_broker d)"
  have inv: "daemon_inv d" by (rule run_inv [OF assms(2) start_inv [OF assms(1)]])
  from assms(3) obtain d1 d2 where d1: "daemon_step cfg sv (ActConnect n True now rq) d = Some d1"
    and d2: "daemon_step cfg sv (ActSubscribe n) d1 = Some d2" and r: "daemon_run cfg sv as' d2 = Some d'"
    by (auto split: option.splits simp del: daemon_step.simps)
  from d1 have o: "dm_opened d1 n = Some (open_conn True now ?rg)" "bk_reg (dm_broker d1) = ?rg" by (auto split: if_splits)
  from d2 o have c: "dm_conns d2 n = Some (fst (connect now ?rg))" "bk_reg (dm_broker d2) = snd (connect now ?rg)"
    by (auto simp: connect_def set_registry_def split: prod.splits)
  from inv obtain h where "rg_hub ?rg = Some h" "hub_wf h" "keyed (rg_builds ?rg)"
    by (auto simp: daemon_inv_def wired_def hub_ok_def)
  from inv_connect [OF this(3,1,2)] have "conn_inv (fst (connect now ?rg)) (bk_reg (dm_broker d2))" by (simp add: c(2))
  from run_conn [OF r step_inv(1) [OF d2 step_inv(1) [OF d1 inv]] c(1) this]
  obtain c' where c': "dm_conns d' n = Some c'" "conn_inv c' (bk_reg (dm_broker d'))" by blast
  with conn_in_step [OF c'(2)] show ?thesis by (auto simp: conn_inv_def)
qed

definition events_request :: http_request where
  "events_request = idle_request\<lparr>rq_auth := ''Bearer ab05'', rq_method := ''GET'', rq_escaped := abs_path [''events''], rq_upgrade := None\<rparr>"

lemma find_events: "find_handler ''GET'' (abs_path [''events'']) = Found RtEvents []"
  by (rule find_plain [where rest = "[]"])
    (simp_all add: routes_def map_filter_def match_route_def method_matches_def plain_id_def comp_ok_def)

lemma conn_takes:
  assumes "cn_end c = None" and "attached (cn_sub c) rg" and "length (buffer_of (cn_sub c) rg) = 1"
  obtains c' rg' where "conn_step (WakeEvent True) c rg = (c', rg')" "cn_end c' = None" "cn_sub c' = cn_sub c"
    "attached (cn_sub c') rg'" "buffer_of (cn_sub c') rg' = []" "length (cn_frames c') = Suc (length (cn_frames c))" "rg_builds rg' = rg_builds rg"
proof -
  from assms(2,3) obtain h ev where h: "rg_hub rg = Some h" "sb_buf (chans h (cn_sub c)) = [ev]" "cn_sub c \<in> set (subs h)"
    by (auto simp: attached_def buffer_of_def length_Suc_conv split: option.splits)
  obtain c' rg' where c': "conn_step (WakeEvent True) c rg = (c', rg')" by fastforce
  with h assms(1) have "cn_end c' = None" "cn_sub c' = cn_sub c" "attached (cn_sub c') rg'" "buffer_of (cn_sub c') rg' = []"
    "length (cn_frames c') = Suc (length (cn_frames c))" "rg_builds rg' = rg_builds rg"
    by (auto simp: conn_step_def receive_def Let_def attached_def buffer_of_def)
  with that c' show thesis by blast
qed

theorem daemon_watch_in_step_witness:
  "\<exists>d' c. daemon_run (home_config ''ab05'') first_server
       ([ActTermStart] @ [ActConnect 3 True 8 events_request, ActSubscribe 3, first_act 9 ''POST'' [''builds''], ActWake 3 (WakeEvent True)])
       first_daemon = Some d' \<and>
     dm_conns d' 3 = Some c \<and> cn_end c = None \<and> map ev_seq (cn_frames c) = [0, 1] \<and>
     map_option a_state (map_of (watch_frames (cn_frames c)) ''a'') = Some state_running"
proof -
  obtain fs' where b: "broker_run first_boot (\<lambda>_. NoFile) v1_db = (Inr (first_server, first_broker), fs', v2_db)"
    using first_boot_runs by blast
  let ?cfg = "home_config ''ab05''" and ?before = "bk_reg (dm_broker looped_daemon)"
  let ?rest = "[first_act 9 ''POST'' [''builds''], ActWake 3 (WakeEvent True)]"
  have l: "daemon_run ?cfg first_server [ActTermStart] first_daemon = Some looped_daemon"
    by (simp add: first_loop del: daemon_step.simps)
  have "pct_decode (abs_path [''events'']) = Some (abs_path [''events''])"
    by (rule plain_path(3)) (simp_all add: plain_id_def comp_ok_def)
  with find_events first_authorized [of "sv_seams first_server" "''GET''" "[''events'']"]
  have q: "reaches first_server events_request RtEvents" "rq_upgrade events_request = None"
    by (simp_all add: reaches_def events_request_def first_request_def)
  have n: "dm_opened looped_daemon 3 = None" "dm_conns looped_daemon 3 = None"
    by (simp_all add: looped_daemon_def set_registry_def first_daemon_def start_daemon_def)
  define c0 rg1 where "c0 = fst (connect 8 ?before)" and "rg1 = snd (connect 8 ?before)"
  obtain h where h: "rg_hub ?before = Some h" using looped_parts(5) by (auto simp: attached_def split: option.splits)
  with looped_parts(3,6) have "conn_inv c0 rg1" unfolding c0_def rg1_def by (intro inv_connect) (auto simp: keyed_def hub_ok_def)
  then have k: "hub_ok rg1" by (simp add: conn_inv_def)
  have c0: "cn_end c0 = None" "length (cn_frames c0) = 1" "attached (cn_sub c0) rg1" "buffer_of (cn_sub c0) rg1 = []" "rg_builds rg1 = []"
    using h looped_parts(3) by (simp_all add: c0_def rg1_def connect_def open_conn_def subscribe_conn_def subscribe_def attached_def buffer_of_def)
  obtain d2 where d2: "daemon_run ?cfg first_server [ActConnect 3 True 8 events_request, ActSubscribe 3] looped_daemon = Some d2"
    "bk_reg (dm_broker d2) = rg1" "dm_conns d2 3 = Some c0"
    by (simp add: q n connect_def c0_def rg1_def set_registry_def split_beta)
  let ?rg2 = "snd (handle_register True 9 (Some reg_a) rg1)"
  obtain bd where bd: "rg_builds ?rg2 = [(''a'', bd)]" "b_state bd = state_running" by (rule first_registered [OF c0(5)])
  obtain w bs where p: "?rg2 = publish True 9 w (rg1\<lparr>rg_builds := bs\<rparr>)" by (rule register_publishes)
  from publish_room [of "rg1\<lparr>rg_builds := bs\<rparr>" "cn_sub c0" True 9 w] k c0(3,4)
  have r2: "attached (cn_sub c0) ?rg2" "length (buffer_of (cn_sub c0) ?rg2) = 1" by (simp_all add: p sub_buffer_size_def)
  obtain c rg3 where c: "conn_step (WakeEvent True) c0 ?rg2 = (c, rg3)" "cn_end c = None" "attached (cn_sub c) rg3"
    "buffer_of (cn_sub c) rg3 = []" "length (cn_frames c) = 2" "rg_builds rg3 = [(''a'', bd)]"
    by (rule conn_takes [OF c0(1) r2]) (use that c0(2) bd(1) in simp)
  obtain d' where d': "daemon_run ?cfg first_server ?rest d2 = Some d'" "dm_conns d' 3 = Some c" "bk_reg (dm_broker d') = rg3"
    using d2(2,3) c(1) by (simp add: first_register set_registry_def)
  have r: "daemon_run ?cfg first_server (ActConnect 3 True 8 events_request # ActSubscribe 3 # ?rest) looped_daemon = Some d'"
    using run_append [of ?cfg first_server "[ActConnect 3 True 8 events_request, ActSubscribe 3]" ?rest looped_daemon] d2(1) d'(1)
    by (simp del: daemon_step.simps daemon_run.simps)
  from daemon_watch_in_step [OF b l [unfolded first_daemon_def] r] d'(2,3) c(2-5)
  have v: "map ev_seq (cn_frames c) = [0..<2]" "map_option unclocked (map_of (watch_frames (cn_frames c)) ''a'') =
      map_option (\<lambda>b. unclocked (to_api b time_zero)) (rg_get ''a'' rg3)" by auto
  from v(2) c(6) bd(2) have "map_option a_state (map_of (watch_frames (cn_frames c)) ''a'') = Some state_running"
    by (cases "map_of (watch_frames (cn_frames c)) ''a''") (auto simp: rg_get_def unclocked_def to_api_def dest!: arg_cong [where f = a_state])
  moreover have "daemon_run ?cfg first_server ([ActTermStart] @ ActConnect 3 True 8 events_request # ActSubscribe 3 # ?rest) first_daemon = Some d'"
    by (simp only: run_append l r option.case)
  ultimately show ?thesis using d'(2) c(2) v(1) by (auto simp add: numeral_2_eq_2 upt_rec)
qed

end
