(* ===== verification/Daemon_Loops.thy ===== *)
theory Daemon_Loops
  imports Broker_System
begin

text \<open>
  The loops behind the goroutines of the daemon: the tickers, the loops of the engine
  (\<open>internal/admission/run.go\<close>), the discovery loop (\<open>internal/discovery/reconcile.go\<close>), the supervisor of the
  tailers (\<open>internal/bep/manager.go\<close>) and the disk reports (\<open>internal/bep/ingest.go\<close>).  A loop runs over what its
  passes find, one entry per tick, up to the end of its context.
\<close>

section \<open>Tickers\<close>

text \<open>\<open>time.NewTicker\<close> panics on an interval that is not positive.\<close>

definition new_ticker :: "duration \<Rightarrow> duration option" where
  "new_ticker d = (if 0 < d then Some d else None)"

definition load_sample_interval :: duration where "load_sample_interval = second"
definition stagger_gc_interval :: duration where "stagger_gc_interval = 5 * second"
definition queued_gc_interval :: duration where "queued_gc_interval = 5 * second"
definition reaper_interval :: duration where "reaper_interval = 5 * second"
definition mgr_interval :: duration where "mgr_interval = second"
definition default_interval :: duration where "default_interval = second"

definition disco_interval :: "duration \<Rightarrow> duration" where
  "disco_interval d = (if d \<le> 0 then default_interval else d)"

text \<open>
  What \<open>Engine.Run\<close> starts, each loop with the interval of its ticker: the terminal-release loop, which waits
  for events, only where there are some, and the sampler in the goroutine itself.
\<close>

datatype engine_loop = StaggerLoop | QueueLoop | ReaperLoop | TerminalLoop | SamplerLoop

definition engine_run :: "bool \<Rightarrow> (engine_loop \<times> duration option) list" where
  "engine_run has_term =
     [(StaggerLoop, Some stagger_gc_interval), (QueueLoop, Some queued_gc_interval), (ReaperLoop, Some reaper_interval)] @
     (if has_term then [(TerminalLoop, None)] else []) @ [(SamplerLoop, Some load_sample_interval)]"

text \<open>Every ticker of a daemon with this ingest configuration and this discovery interval.\<close>

definition daemon_tickers :: "ingest_config \<Rightarrow> duration \<Rightarrow> duration option list" where
  "daemon_tickers c d =
     map new_ticker (List.map_filter snd (engine_run True) @ [mgr_interval, disco_interval d] @
       (if dc_dir (ingest_disk_config c) = [] then [] else [dc_report_every (ingest_disk_config c)]))"

lemma tickers_start: "None \<in> set (daemon_tickers c d) \<longleftrightarrow> ig_disk_cache c \<noteq> [] \<and> ig_report_every c < 0"
  by (auto simp: daemon_tickers_def engine_run_def new_ticker_def load_sample_interval_def stagger_gc_interval_def
      queued_gc_interval_def reaper_interval_def mgr_interval_def disco_interval_def default_interval_def ingest_disk_config_def
      disk_defaults_def second_def minute_def List.map_filter_def)

section \<open>The loops of the engine\<close>

text \<open>
  A loop takes what its \<open>select\<close> finds: the end of its context (\<open>None\<close>), after which it returns, or a tick with
  what its body sees then.
\<close>

fun ticker_loop :: "('k \<Rightarrow> 's \<Rightarrow> 's) \<Rightarrow> 'k option list \<Rightarrow> 's \<Rightarrow> 's" where
  "ticker_loop f [] s = s"
| "ticker_loop f (None # ks) s = s"
| "ticker_loop f (Some k # ks) s = ticker_loop f ks (f k s)"

definition run_stagger_gc :: "gotime option list \<Rightarrow> engine \<Rightarrow> engine" where
  "run_stagger_gc = ticker_loop stagger_tick"

definition run_queued_gc :: "gotime option list \<Rightarrow> engine \<Rightarrow> engine" where
  "run_queued_gc = ticker_loop gc_queued"

definition run_reaper :: "((int \<Rightarrow> bool) \<times> registry_snapshot \<times> gotime) option list \<Rightarrow> engine \<Rightarrow> engine" where
  "run_reaper = ticker_loop (\<lambda>(alive, sn, now). reap_dead_pids alive sn now)"

text \<open>A sample the probe fails to take (\<open>None\<close>) is passed over; without a probe it is that of the idle one.\<close>

definition run_sampler :: "((rat \<times> int) option \<times> registry_snapshot \<times> gotime) option list \<Rightarrow> engine \<Rightarrow> engine" where
  "run_sampler = ticker_loop (\<lambda>(sample, sn, now) e. case sample of None \<Rightarrow> e | Some (cpu, ram) \<Rightarrow> on_load_sample cpu ram sn now e)"

definition probe_or_nop :: "(rat \<times> int) option option \<Rightarrow> (rat \<times> int) option" where
  "probe_or_nop probe = (case probe of None \<Rightarrow> Some nop_sample | Some sample \<Rightarrow> sample)"

lemma loop_done: "ticker_loop f (map Some ks @ None # ks') s = foldl (\<lambda>s k. f k s) s ks"
  by (induction ks arbitrary: s) simp_all

lemma loop_inv: "(\<And>k s. P s \<Longrightarrow> P (f k s)) \<Longrightarrow> P s \<Longrightarrow> P (ticker_loop f ks s)"
  by (induction f ks s rule: ticker_loop.induct) simp_all

text \<open>Whatever a loop finds at its ticks, it leaves an engine that requests may be served on.\<close>

lemma loops_serve:
  assumes "served pol e"
  shows "served pol (run_stagger_gc ts e)" "served pol (run_queued_gc ts e)" "served pol (run_reaper rs e)" "served pol (run_sampler ss e)"
proof -
  show "served pol (run_stagger_gc ts e)"
    unfolding run_stagger_gc_def by (rule loop_inv [where P = "served pol", OF _ assms]) (rule served_op [of _ _ "OpStaggerTick now" for now], simp_all)
  show "served pol (run_queued_gc ts e)"
    unfolding run_queued_gc_def by (rule loop_inv [where P = "served pol", OF _ assms]) (rule served_op [of _ _ "OpGc now" for now], simp_all)
  show "served pol (run_reaper rs e)" unfolding run_reaper_def
  proof (rule loop_inv [where P = "served pol", OF _ assms])
    fix k :: "(int \<Rightarrow> bool) \<times> registry_snapshot \<times> gotime" and e
    assume "served pol e"
    with served_op [OF this, of "OpReap (fst k) (fst (snd k)) (snd (snd k))"]
    show "served pol ((\<lambda>(alive, sn, now). reap_dead_pids alive sn now) k e)" by (simp add: split_beta)
  qed
  show "served pol (run_sampler ss e)" unfolding run_sampler_def
  proof (rule loop_inv [where P = "served pol", OF _ assms])
    fix k :: "(rat \<times> int) option \<times> registry_snapshot \<times> gotime" and e
    assume e: "served pol e"
    obtain sample sn now where k: "k = (sample, sn, now)" by (metis surj_pair)
    show "served pol ((\<lambda>(sample, sn, now) e. case sample of None \<Rightarrow> e | Some (cpu, ram) \<Rightarrow> on_load_sample cpu ram sn now e) k e)"
    proof (cases sample)
      case (Some p)
      with served_op [OF e, of "OpSample (fst p) (snd p) sn now"] k show ?thesis by (simp add: split_beta)
    qed (simp add: k e)
  qed
qed

section \<open>The discovery loop\<close>

text \<open>A pass finds the platform without a scanner (\<open>Inl\<close>, the error of the stub) or what a scan of it needs.\<close>

datatype disco_log = LogUnsupported | LogFailed proc_error

definition reconcile_logged :: "unit + scan \<Rightarrow> bool \<times> metrics_json registry \<Rightarrow> (bool \<times> metrics_json registry) \<times> disco_log list" where
  "reconcile_logged c s =
     (let (said, rg) = s in
      case c of
        Inl _ \<Rightarrow> ((True, rg), if said then [] else [LogUnsupported])
      | Inr sc \<Rightarrow>
          (case reconcile_once (sn_resolve sc) (sn_procs sc) (sn_now sc) (sn_ok sc) rg of
             (Inl e, rg') \<Rightarrow> ((said, rg'), [LogFailed e])
           | (Inr _, rg') \<Rightarrow> ((said, rg'), [])))"

text \<open>The first pass comes at once, the others with the ticks.\<close>

fun disco_run :: "(unit + scan) list \<Rightarrow> bool \<times> metrics_json registry \<Rightarrow> (bool \<times> metrics_json registry) \<times> disco_log list" where
  "disco_run [] s = (s, [])"
| "disco_run (c # cs) s =
     (let (s1, l) = reconcile_logged c s; (s2, ls) = disco_run cs s1 in (s2, l @ ls))"

text \<open>The registry after the loop is the one after the scans as steps of the daemon.\<close>

lemma disco_run_scans:
  "snd (fst (disco_run cs (said, rg))) = foldl (\<lambda>rg c. case c of Inl _ \<Rightarrow> rg | Inr sc \<Rightarrow> scan_pass sc rg) rg cs"
proof (induction cs arbitrary: said rg)
  case (Cons c cs)
  obtain said1 rg1 l where 1: "reconcile_logged c (said, rg) = ((said1, rg1), l)" by (metis surj_pair)
  then have "rg1 = (case c of Inl _ \<Rightarrow> rg | Inr sc \<Rightarrow> scan_pass sc rg)"
    by (auto simp: reconcile_logged_def scan_pass_def split: sum.splits prod.splits)
  with Cons.IH [of said1 rg1] 1 show ?case by (simp add: Let_def split_beta)
qed simp

lemma unsupported_said: "disco_run (map Inl cs) (True, rg) = ((True, rg), [])"
  by (induction cs) (auto simp: reconcile_logged_def)

text \<open>Without a scanner the loop leaves the registry alone and says so once.\<close>

lemma unsupported_logged_once: "disco_run (Inl () # map Inl cs) (False, rg) = ((True, rg), [LogUnsupported])"
  by (simp add: reconcile_logged_def unsupported_said)

section \<open>The supervisor of the tailers\<close>

text \<open>
  A pass of \<open>Run\<close>, or a tailer that returns after its context was cancelled and deletes the entry of its
  worktree; \<open>None\<close>: a tailer that has not been stopped does not return.
\<close>

datatype mgr_event = Pass gotime "build list" | Return nat

type_synonym mgr_state = "(string \<Rightarrow> gotime option) \<times> manager"

fun mgr_event_step :: "mgr_event \<Rightarrow> mgr_state \<Rightarrow> mgr_state option" where
  "mgr_event_step (Pass t bs) s = Some (mgr_reconcile t bs s)"
| "mgr_event_step (Return n) s =
     (case map_of (mg_running (snd s)) n of
        Some (wt, True) \<Rightarrow> Some (fst s, tailer_exit n (snd s))
      | _ \<Rightarrow> None)"

fun mgr_run :: "mgr_event list \<Rightarrow> mgr_state \<Rightarrow> mgr_state option" where
  "mgr_run [] s = Some s"
| "mgr_run (e # es) s = (case mgr_event_step e s of None \<Rightarrow> None | Some s' \<Rightarrow> mgr_run es s')"

definition mgr_start :: mgr_state where
  "mgr_start = (Map.empty, new_manager)"

lemma mgr_run_append: "mgr_run (xs @ ys) s = Option.bind (mgr_run xs s) (mgr_run ys)"
  by (induction xs arbitrary: s) (auto split: option.split)

text \<open>A pass is a sequence of \<open>Watch\<close>, for worktrees with an active build, and \<open>Stop\<close>.\<close>

lemma reconcile_induct:
  assumes "P m" and "\<And>wt m. wt \<in> set (active_worktrees bs) \<Longrightarrow> P m \<Longrightarrow> P (watch wt m)" and "\<And>wt m. P m \<Longrightarrow> P (stop wt m)"
  shows "P (snd (mgr_reconcile now bs (idle, m)))"
proof -
  obtain i1 m1 where f: "foldl (\<lambda>(idle, m) wt. (idle(wt := None), watch wt m)) (idle, m) (active_worktrees bs) = (i1, m1)" by fastforce
  have "P (snd (foldl (\<lambda>(idle, m) wt. (idle(wt := None), watch wt m)) (idle, m) ws))" if "set ws \<subseteq> set (active_worktrees bs)" for ws
    using that by (induction ws rule: rev_induct) (auto simp: split_beta assms)
  from this [of "active_worktrees bs"] f have m1: "P m1" by simp
  have "P (snd (foldl (\<lambda>s wt. idle_step now act wt s) (i1, m1) ws))" for act ws
  proof (induction ws rule: rev_induct)
    case (snoc w ws)
    obtain i2 m2 where "foldl (\<lambda>s wt. idle_step now act wt s) (i1, m1) ws = (i2, m2)" by fastforce
    with snoc show ?case by (auto simp: idle_step_def assms(3) split: option.split)
  qed (simp add: m1)
  then show ?thesis by (simp add: mgr_reconcile_def f)
qed

lemma reconcile_ok: "mgr_ok m \<Longrightarrow> mgr_ok (snd (mgr_reconcile now bs (idle, m)))"
  by (rule reconcile_induct) (auto intro: mgr_ok_watch mgr_ok_stop)

lemma mgr_event_ok: "mgr_ok (snd s) \<Longrightarrow> mgr_event_step e s = Some s' \<Longrightarrow> mgr_ok (snd s')"
  by (cases s; cases e) (auto simp: reconcile_ok mgr_ok_exit split: option.splits bool.splits)

lemma mgr_run_ok: "mgr_run es s = Some s' \<Longrightarrow> mgr_ok (snd s) \<Longrightarrow> mgr_ok (snd s')"
  by (induction es arbitrary: s) (auto split: option.splits dest: mgr_event_ok)

lemma mgr_start_ok: "mgr_ok (snd mgr_start)"
  by (simp add: mgr_start_def mgr_ok_def new_manager_def)

text \<open>As long as a worktree is watched, no tailer of it that was stopped is still there.\<close>

definition no_leaver :: "string \<Rightarrow> manager \<Rightarrow> bool" where
  "no_leaver v m \<longleftrightarrow> mgr_ok m \<and> (watching v m \<longrightarrow> (\<forall>n. map_of (mg_running m) n \<noteq> Some (v, True)))"

lemma no_leaver_watch: "wt \<noteq> v \<Longrightarrow> no_leaver v m \<Longrightarrow> no_leaver v (watch wt m)"
  using mgr_ok_watch [of m wt] by (auto simp: no_leaver_def watching_watch) (auto simp: watch_def split: if_splits)

lemma no_leaver_stop:
  assumes "no_leaver v m" shows "no_leaver v (stop wt m)"
proof (cases "wt = v \<or> \<not> watching v m")
  case False
  have ok: "mgr_ok m" using assms by (simp add: no_leaver_def)
  have "map_of (mg_running (stop wt m)) n \<noteq> Some (v, True)" for n
  proof (cases "map_of (mg_tails m) wt")
    case None
    with False assms show ?thesis by (simp add: stop_def no_leaver_def)
  next
    case (Some k)
    with mgr_ok_tail [OF ok Some] False assms show ?thesis by (auto simp: stop_def no_leaver_def map_of_cancel)
  qed
  with mgr_ok_stop [OF ok] show ?thesis by (simp add: no_leaver_def)
qed (use assms mgr_ok_stop in \<open>auto simp: no_leaver_def watching_stop\<close>)

lemma no_leaver_pass: "v \<notin> set (active_worktrees bs) \<Longrightarrow> no_leaver v m \<Longrightarrow> no_leaver v (snd (mgr_reconcile now bs (idle, m)))"
  by (rule reconcile_induct) (auto intro: no_leaver_watch no_leaver_stop)

lemma no_leaver_return:
  assumes "no_leaver v m" and "map_of (mg_running m) n = Some (wt, True)"
  shows "no_leaver v (tailer_exit n m)" and "watching v (tailer_exit n m) = watching v m"
proof -
  show w: "watching v (tailer_exit n m) = watching v m"
    using assms by (auto simp: watching_def tailer_exit_def no_leaver_def delete_conv')
  have "mgr_ok (tailer_exit n m)" using assms by (simp add: no_leaver_def mgr_ok_exit)
  with w assms show "no_leaver v (tailer_exit n m)" by (auto simp: no_leaver_def tailer_exit_def delete_conv')
qed

lemma tails_distinct_stop: "distinct (map fst (mg_tails m)) \<Longrightarrow> distinct (map fst (mg_tails (stop wt m)))"
  by (auto simp: stop_def distinct_delete split: option.split)

lemma tails_distinct_idle:
  "foldl (\<lambda>s wt. idle_step now act wt s) (idle, m) ws = (idle', m') \<Longrightarrow> distinct (map fst (mg_tails m)) \<Longrightarrow>
     distinct (map fst (mg_tails m'))"
proof (induction ws arbitrary: idle m)
  case (Cons w ws)
  obtain i2 m2 where s: "idle_step now act w (idle, m) = (i2, m2)" by fastforce
  then have "distinct (map fst (mg_tails m2))"
    using Cons.prems(2) tails_distinct_stop by (auto simp: idle_step_def split: if_splits option.splits)
  with Cons s show ?case by simp
qed simp

text \<open>One pass, seen from one worktree.\<close>

lemma mgr_pass:
  assumes "distinct (map fst (mg_tails m))" and "mgr_reconcile now bs (idle, m) = (idle', m')"
  shows "distinct (map fst (mg_tails m'))"
    and "v \<in> set (active_worktrees bs) \<Longrightarrow> watching v m' \<and> idle' v = None"
    and "v \<notin> set (active_worktrees bs) \<Longrightarrow> watching v m' \<longleftrightarrow> watching v m \<and> (case idle v of None \<Rightarrow> True | Some t \<Rightarrow> time_sub now t < watch_grace)"
    and "v \<notin> set (active_worktrees bs) \<Longrightarrow> watching v m' \<Longrightarrow> idle' v = (case idle v of None \<Rightarrow> Some now | Some t \<Rightarrow> Some t)"
proof -
  let ?act = "active_worktrees bs"
  obtain i1 m1 where f: "foldl (\<lambda>(idle, m) wt. (idle(wt := None), watch wt m)) (idle, m) ?act = (i1, m1)" by fastforce
  have ne: "[] \<notin> set ?act" by (auto simp: active_worktrees_def)
  note w = watch_fold [OF f ne, of v]
  have d1: "distinct (map fst (mg_tails m1))" using f assms(1) by (rule tails_distinct_fold)
  from assms(2) f have g: "foldl (\<lambda>s wt. idle_step now (set ?act) wt s) (i1, m1) (map fst (mg_tails m1)) = (idle', m')"
    by (simp add: mgr_reconcile_def)
  show "distinct (map fst (mg_tails m'))" using g d1 by (rule tails_distinct_idle)
  have v: "v \<in> set (map fst (mg_tails m1)) \<longleftrightarrow> watching v m1" by (auto simp: watching_def map_of_eq_None_iff)
  note i = idle_fold [OF g d1, of v, unfolded v]
  show "v \<in> set (active_worktrees bs) \<Longrightarrow> watching v m' \<and> idle' v = None"
    "v \<notin> set (active_worktrees bs) \<Longrightarrow> watching v m' \<longleftrightarrow> watching v m \<and> (case idle v of None \<Rightarrow> True | Some t \<Rightarrow> time_sub now t < watch_grace)"
    "v \<notin> set (active_worktrees bs) \<Longrightarrow> watching v m' \<Longrightarrow> idle' v = (case idle v of None \<Rightarrow> Some now | Some t \<Rightarrow> Some t)"
    using i w by (auto simp: expired_def split: option.splits if_splits)
qed

definition passes :: "mgr_event list \<Rightarrow> (gotime \<times> build list) list" where
  "passes es = List.map_filter (\<lambda>e. case e of Pass t bs \<Rightarrow> Some (t, bs) | Return _ \<Rightarrow> None) es"

lemma passes_simps [simp]:
  "passes [] = []" "passes (xs @ ys) = passes xs @ passes ys" "passes [Pass t bs] = [(t, bs)]" "passes [Return n] = []"
  by (simp_all add: passes_def map_filter_def)

definition quiet_pass :: "string \<Rightarrow> gotime \<times> build list \<Rightarrow> bool" where
  "quiet_pass v p \<longleftrightarrow> v \<notin> set (active_worktrees (snd p))"

definition graced :: "string \<Rightarrow> (gotime \<times> build list) list \<Rightarrow> mgr_state \<Rightarrow> bool" where
  "graced v ps s \<longleftrightarrow> no_leaver v (snd s) \<and>
     (watching v (snd s) \<longleftrightarrow> ps = [] \<or> fst (last ps) - fst (hd ps) < watch_grace) \<and>
     (watching v (snd s) \<longrightarrow> fst s v = (if ps = [] then None else Some (fst (hd ps))))"

lemma graced_pass:
  assumes "graced v ps s" and "quiet_pass v (t, bs)" and "sorted (map fst (ps @ [(t, bs)]))"
  shows "graced v (ps @ [(t, bs)]) (mgr_reconcile t bs s)"
proof -
  obtain idle m idle' m' where s: "s = (idle, m)" and r: "mgr_reconcile t bs (idle, m) = (idle', m')" by (metis surj_pair)
  have q: "v \<notin> set (active_worktrees bs)" using assms(2) by (simp add: quiet_pass_def)
  have n: "no_leaver v m" using assms(1) by (simp add: graced_def s)
  then have d: "distinct (map fst (mg_tails m))" by (simp add: no_leaver_def mgr_ok_def)
  note pass = mgr_pass(3,4) [OF d r q]
  have n': "no_leaver v m'" using no_leaver_pass [OF q n, of t idle] r by simp
  have g: "min_duration < watch_grace" "watch_grace \<le> max_duration" "0 < watch_grace"
    by (simp_all add: watch_grace_def min_duration_def max_duration_def second_def)
  show ?thesis
  proof (cases "ps = []")
    case True
    with pass n' assms(1) g show ?thesis by (auto simp: graced_def s r)
  next
    case False
    then have "fst (last ps) \<le> t" using assms(3) by (auto simp: sorted_append)
    with False pass n' assms(1) g show ?thesis by (auto simp: graced_def s r time_sub_less_iff)
  qed
qed

lemma graced_run:
  assumes "graced v [] s" and "mgr_run es s = Some s'" and "\<forall>p\<in>set (passes es). quiet_pass v p" and "sorted (map fst (passes es))"
  shows "graced v (passes es) s'"
  using assms(2-4)
proof (induction es arbitrary: s' rule: rev_induct)
  case (snoc e es)
  from snoc.prems(1) obtain s1 where s1: "mgr_run es s = Some s1" and e: "mgr_event_step e s1 = Some s'"
    by (auto simp: mgr_run_append split: Option.bind_splits option.splits)
  from snoc s1 have ih: "graced v (passes es) s1" by (simp add: sorted_append)
  show ?case
  proof (cases e)
    case (Pass t bs)
    with graced_pass [OF ih, of t bs] snoc.prems(2,3) e show ?thesis by simp
  next
    case (Return n)
    obtain idle m where m: "s1 = (idle, m)" by fastforce
    from e Return m obtain wt where wt: "map_of (mg_running m) n = Some (wt, True)" "s' = (idle, tailer_exit n m)"
      by (auto split: option.splits bool.splits)
    have "no_leaver v m" using ih by (simp add: graced_def m)
    from no_leaver_return [OF this wt(1)] ih Return show ?thesis by (simp add: graced_def m wt(2))
  qed
qed (use assms(1) in simp)

text \<open>
  C28: a tailer outlives its builds by thirty seconds.  Let the supervisor run over any passes at rising times, while tailers that were stopped
  return and delete the entry of their worktree.  Take a pass that finds an active build in a worktree, at a moment at which no tailer of the worktree that was
  stopped earlier is still to return, and let the later passes find none: then the worktree is
  watched exactly if the last of these is less than thirty seconds after the first.
\<close>

theorem tailer_kept_for_grace:
  assumes "mgr_run (qs @ [Pass t0 bs]) mgr_start = Some s0" and "\<not> quiet_pass v (t0, bs)"
    and "\<forall>n. (n, v, True) \<notin> set (mg_running (snd s0))"
    and "mgr_run es s0 = Some s" and "\<forall>p\<in>set (passes es). quiet_pass v p" and "sorted (map fst (passes es))"
  shows "watching v (snd s) \<longleftrightarrow> passes es = [] \<or> fst (last (passes es)) - fst (hd (passes es)) < watch_grace"
proof -
  from assms(1) obtain idle m where 1: "mgr_run qs mgr_start = Some (idle, m)" and 0: "s0 = mgr_reconcile t0 bs (idle, m)"
    by (auto simp: mgr_run_append split: Option.bind_splits)
  obtain i0 m0 where s0: "s0 = (i0, m0)" by fastforce
  have ok: "mgr_ok m" "mgr_ok m0" using mgr_run_ok [OF 1 mgr_start_ok] mgr_run_ok [OF assms(1) mgr_start_ok] s0 by simp_all
  then have "distinct (map fst (mg_tails m))" by (simp add: mgr_ok_def)
  from mgr_pass(2) [OF this 0 [symmetric, unfolded s0], of v] assms(2) have "watching v m0" "i0 v = None"
    by (auto simp: quiet_pass_def)
  moreover have "no_leaver v m0" using ok(2) assms(3) s0 by (auto simp: no_leaver_def dest: map_of_SomeD)
  ultimately have "graced v [] s0" by (simp add: graced_def s0)
  from graced_run [OF this assms(4-6)] show ?thesis by (simp add: graced_def)
qed

theorem tailer_kept_for_grace_witness:
  "let b = empty_build\<lparr>b_worktree := ''/w'', b_state := state_running\<rparr> in
    \<exists>s0 s1 s2. mgr_run [Pass 0 [b]] mgr_start = Some s0 \<and>
      mgr_run [Pass second [], Pass (30 * second) []] s0 = Some s1 \<and> watching ''/w'' (snd s1) \<and>
      mgr_run [Pass second [], Pass (30 * second) [], Pass (31 * second) [], Return 0] s0 = Some s2 \<and> \<not> watching ''/w'' (snd s2)"
proof -
  let ?b = "empty_build\<lparr>b_worktree := ''/w'', b_state := state_running\<rparr>"
  let ?e1 = "[Pass second [], Pass (30 * second) []]"
  let ?e2 = "[Pass second [], Pass (30 * second) [], Pass (31 * second) [], Return 0]"
  have a: "active_worktrees [?b] = [''/w'']" "active_worktrees [] = []" by (simp_all add: active_worktrees_def)
  have p: "passes ?e1 = [(second, []), (30 * second, [])]" "passes ?e2 = [(second, []), (30 * second, []), (31 * second, [])]"
    by (simp_all add: passes_def map_filter_def)
  have q: "\<not> quiet_pass ''/w'' (0, [?b])" "quiet_pass ''/w'' (t, [])" for t by (simp_all add: quiet_pass_def a)
  note defs = mgr_reconcile_def a mgr_start_def watch_def new_manager_def idle_step_def time_sub_def watch_grace_def second_def
    max_duration_def min_duration_def stop_def cancel_tailer_def
  obtain s0 where s0: "mgr_run ([] @ [Pass 0 [?b]]) mgr_start = Some s0" by simp
  then have r0: "\<forall>n. (n, ''/w'', True) \<notin> set (mg_running (snd s0))" by (auto simp: defs)
  obtain s1 where s1: "mgr_run ?e1 s0 = Some s1" by simp
  obtain s2 where s2: "mgr_run ?e2 s0 = Some s2" using s0 by (auto simp: defs split: option.split bool.split)
  have "watching ''/w'' (snd s1)" "\<not> watching ''/w'' (snd s2)"
    using tailer_kept_for_grace [OF s0 q(1) r0 s1] tailer_kept_for_grace [OF s0 q(1) r0 s2] q(2) p
    by (simp_all add: watch_grace_def second_def)
  moreover have "mgr_run [Pass 0 [?b]] mgr_start = Some s0" using s0 by simp
  ultimately show ?thesis unfolding Let_def using s1 s2 by blast
qed

section \<open>The disk reports\<close>

text \<open>One entry per tick: the time, the registry at that moment, what the walk of the directory gives.\<close>

record disk_tick =
  dt_now :: gotime
  dt_registry :: "metrics_json registry"
  dt_removable :: "string \<Rightarrow> bool"
  dt_walk_ok :: bool
  dt_walk :: "walk_item list"
  dt_store_ok :: bool

fun disk_reports :: "disk_config \<Rightarrow> disk_tick list \<Rightarrow> store \<Rightarrow> store \<times> cache_entry list" where
  "disk_reports c [] st = (st, [])"
| "disk_reports c (k # ks) st =
     (if dc_dir c = [] then (st, [])
      else let (st1, ds) = disk_report_tick c (dt_now k) (dt_registry k) (dt_removable k) (dt_walk_ok k) (dt_walk k) (dt_store_ok k) st;
               (st2, es) = disk_reports c ks st1 in (st2, ds @ es))"

end
