(* ===== verification/Daemon_Tailers.thy ===== *)
theory Daemon_Tailers
  imports Daemon_Props Daemon_Loops
begin

text \<open>
  The tailers in the daemon: the manager keeps its bookkeeping through every step, a tailer reads the file of
  its worktree for as long as it runs, and a pass of the manager leaves no active build without one.
\<close>

section \<open>Passes of the manager\<close>

text \<open>What a tailer that runs after some passes was before them.\<close>

definition mgr_later :: "manager \<Rightarrow> manager \<Rightarrow> bool" where
  "mgr_later m m' \<longleftrightarrow> mg_next m \<le> mg_next m' \<and>
     (\<forall>n wt c. n < mg_next m \<longrightarrow> map_of (mg_running m') n = Some (wt, c) \<longrightarrow> (\<exists>c. map_of (mg_running m) n = Some (wt, c)))"

lemma later_refl: "mgr_later m m"
  by (auto simp: mgr_later_def)

lemma later_watch: "mgr_later m m' \<Longrightarrow> mgr_later m (watch wt m')"
  by (auto simp: mgr_later_def watch_def)

lemma later_stop: "mgr_later m m' \<Longrightarrow> mgr_later m (stop wt m')"
  by (fastforce simp: mgr_later_def stop_def map_of_cancel split: option.split)

lemma reconcile_later: "mgr_later m (snd (mgr_reconcile now bs (idle, m)))"
  by (rule reconcile_induct) (auto intro: later_refl later_watch later_stop)

section \<open>Streams and their files\<close>

text \<open>No event moves a stream to another file.\<close>

definition same_file :: "stream \<Rightarrow> stream \<Rightarrow> bool" where
  "same_file s s' \<longleftrightarrow> ss_path s' = ss_path s \<and> ss_worktree s' = ss_worktree s"

lemma same_file_simps [simp]:
  "same_file s (s\<lparr>ss_row := r\<rparr>) " "same_file s (s\<lparr>ss_raw := raw\<rparr>)" "same_file s (upd_row f s)" "same_file s s"
  "same_file s (reset_state s') = same_file s s'" "same_file s (upd_row f s') = same_file s s'"
  "same_file s (s'\<lparr>ss_patterns := ps\<rparr>) = same_file s s'" "same_file s (s'\<lparr>ss_raw := raw\<rparr>) = same_file s s'"
  "same_file s (s'\<lparr>ss_command := cmd\<rparr>) = same_file s s'" "same_file s (s'\<lparr>ss_bound := bd\<rparr>) = same_file s s'"
  "same_file s (s'\<lparr>ss_parse_errs := k\<rparr>) = same_file s s'"
  by (simp_all add: same_file_def upd_row_def reset_state_def)

lemma finalize_file: "same_file s s' \<Longrightarrow> same_file s (fst (finalize cfg io (s', rg)))"
  by (auto simp: finalize_def same_file_def Let_def split: option.split)

lemma started_file: "same_file s (on_started st s') = same_file s s'"
  by (simp add: on_started_def Let_def split: option.split)

lemma bind_file: "same_file s s' \<Longrightarrow> same_file s (fst (bind_build io s' rg))"
  by (simp add: bind_build_def Let_def)

lemma payload_file: "same_file s s' \<Longrightarrow> same_file s (fst (on_payload cfg io p (s', rg)))"
  by (cases p) (auto simp: on_payload_def Let_def bind_file started_file split: option.split)

lemma dispatch_file:
  assumes "same_file s s'" shows "same_file s (fst (dispatch cfg io ev (s', rg)))"
proof -
  let ?s = "if ss_row s' = None then reset_state s' else s'"
  obtain s1 rg1 where 1: "on_payload cfg io (be_payload ev) (?s, rg) = (s1, rg1)" by fastforce
  have "same_file s ?s" using assms by simp
  from payload_file [OF this, of cfg io "be_payload ev" rg] 1 have "same_file s s1" by simp
  with 1 show ?thesis by (simp add: dispatch_def Let_def finalize_file)
qed

lemma tail_file: "same_file s (fst (tail_step cfg e (s, rg)))"
proof (cases e)
  case (Pair k io)
  then show ?thesis
    by (cases k) (auto simp: tail_step_def consume_def Let_def split_beta finalize_file dispatch_file split: option.split)
qed

section \<open>The tailers of a run\<close>

definition tailers_ok :: "daemon \<Rightarrow> bool" where
  "tailers_ok d \<longleftrightarrow> mgr_ok (snd (dm_mgr d)) \<and>
     (\<forall>n wt c. map_of (mg_running (snd (dm_mgr d))) n = Some (wt, c) \<longrightarrow>
        ss_path (dm_streams d n) = bep_path_for wt \<and> ss_worktree (dm_streams d n) = wt)"

lemma tailers_frame:
  assumes "daemon_step cfg sv a d = Some d'"
  shows "case a of ActPass now \<Rightarrow> True | ActTail n dec mar now e io \<Rightarrow> True | _ \<Rightarrow> dm_mgr d' = dm_mgr d \<and> dm_streams d' = dm_streams d"
  using assms
  by (cases a) (auto simp: set_registry_def on_engine_def Let_def split: option.splits prod.splits if_splits)

lemma tailers_pass:
  assumes "daemon_step cfg sv (ActPass now) d = Some d'" and "tailers_ok d" shows "tailers_ok d'"
proof -
  obtain idle m where m: "dm_mgr d = (idle, m)" by fastforce
  let ?r = "mgr_reconcile now (rg_snapshot (bk_reg (dm_broker d))) (idle, m)"
  from assms(1) m have d': "dm_mgr d' = ?r" "dm_streams d' = start_streams m (snd ?r) (dm_streams d)" by (auto simp: Let_def)
  have "ss_path (dm_streams d' n) = bep_path_for wt \<and> ss_worktree (dm_streams d' n) = wt"
    if n: "map_of (mg_running (snd ?r)) n = Some (wt, c)" for n wt c
  proof (cases "n < mg_next m")
    case True
    with reconcile_later [of m now "rg_snapshot (bk_reg (dm_broker d))" idle] n obtain c' where "map_of (mg_running m) n = Some (wt, c')"
      by (auto simp: mgr_later_def)
    with assms(2) True show ?thesis by (simp add: d' start_streams_def tailers_ok_def m)
  next
    case False
    with n show ?thesis by (simp add: d' start_streams_def new_stream_def reset_state_def)
  qed
  with reconcile_ok [of m] assms(2) show ?thesis by (simp add: tailers_ok_def d'(1) m)
qed

lemma tailers_tail:
  assumes "daemon_step cfg sv (ActTail n dec mar now e io) d = Some d'" and "tailers_ok d" shows "tailers_ok d'"
proof -
  let ?m = "snd (dm_mgr d)" and ?cfg = "tailer_config (new_ingest (boot_ingest cfg)) dec mar now"
  from assms(1) obtain wt c where n: "map_of (mg_running ?m) n = Some (wt, c)" "tail_enabled e c"
    by (auto split: option.splits if_splits)
  obtain s rg where t: "tail_step ?cfg (e, io) (dm_streams d n, bk_reg (dm_broker d)) = (s, rg)" by fastforce
  have m': "snd (dm_mgr d') = (if e = TailStop then tailer_exit n ?m else ?m)" and s': "dm_streams d' = (dm_streams d)(n := s)"
    using assms(1) n by (auto simp: t set_registry_def)
  have f: "same_file (dm_streams d n) s" using tail_file [of "dm_streams d n" ?cfg "(e, io)"] t by (metis fst_conv)
  have ok: "mgr_ok (snd (dm_mgr d'))"
    using assms(2) n mgr_ok_exit [of ?m n wt] by (auto simp: m' tailers_ok_def tail_enabled_def)
  have "map_of (mg_running (snd (dm_mgr d'))) j = Some (w, k) \<Longrightarrow> map_of (mg_running ?m) j = Some (w, k)" for j w k
    using n by (auto simp: m' tailer_exit_def delete_conv' split: if_splits)
  with assms(2) f ok show ?thesis by (auto simp: tailers_ok_def s' same_file_def)
qed

lemma tailers_step: "daemon_step cfg sv a d = Some d' \<Longrightarrow> tailers_ok d \<Longrightarrow> tailers_ok d'"
  using tailers_frame [of cfg sv a d d'] tailers_pass tailers_tail
  by (cases a) (auto simp: tailers_ok_def simp del: daemon_step.simps)

lemma tailers_run: "daemon_run cfg sv as d = Some d' \<Longrightarrow> tailers_ok d \<Longrightarrow> tailers_ok d'"
  by (induction "as" arbitrary: d) (auto dest: tailers_step split: option.splits simp del: daemon_step.simps)

lemma tailers_start: "tailers_ok (start_daemon s)"
  by (simp add: tailers_ok_def start_daemon_def mgr_ok_def new_manager_def)

text \<open>
  C29: no active build is without its tailer.  In every run of the booted daemon, whatever the passes, requests
  and ends of tailers before it, after a pass of the manager each build of the registry that has not ended and
  has a worktree has a tailer that runs, is not cancelled and reads the build event file of that worktree.
\<close>

theorem active_build_is_tailed:
  assumes "daemon_run cfg sv as (start_daemon s) = Some d" and "daemon_step cfg sv (ActPass now) d = Some d'"
    and "rg_get i (bk_reg (dm_broker d')) = Some b" and "\<not> is_terminal (b_state b)" and "b_worktree b \<noteq> []"
  shows "\<exists>n. map_of (mg_running (snd (dm_mgr d'))) n = Some (b_worktree b, False) \<and>
    ss_path (dm_streams d' n) = bep_path_for (b_worktree b) \<and> ss_worktree (dm_streams d' n) = b_worktree b"
proof -
  have ok: "tailers_ok d" "tailers_ok d'"
    using tailers_run [OF assms(1) tailers_start] tailers_step [OF assms(2)] by auto
  obtain idle m where m: "dm_mgr d = (idle, m)" by fastforce
  let ?bs = "rg_snapshot (bk_reg (dm_broker d))"
  from assms(2) m have d': "dm_mgr d' = mgr_reconcile now ?bs (idle, m)" "bk_reg (dm_broker d') = bk_reg (dm_broker d)" by (auto simp: Let_def)
  obtain idle' m' where r: "mgr_reconcile now ?bs (idle, m) = (idle', m')" by fastforce
  from assms(3) d'(2) have "b \<in> set ?bs" by (auto simp: rg_get_def rg_snapshot_def dest: map_of_SomeD intro: rev_image_eqI)
  with assms(4,5) have "b_worktree b \<in> set (active_worktrees ?bs)" by (auto simp: active_worktrees_def)
  moreover have "distinct (map fst (mg_tails m))" using ok(1) m by (simp add: tailers_ok_def mgr_ok_def)
  ultimately have "watching (b_worktree b) m'" using mgr_pass(2) [OF _ r] by blast
  then obtain n where "map_of (mg_tails m') (b_worktree b) = Some n" by (auto simp: watching_def)
  moreover have "mgr_ok m'" using ok(2) d'(1) r by (simp add: tailers_ok_def)
  ultimately have "map_of (mg_running (snd (dm_mgr d'))) n = Some (b_worktree b, False)" using mgr_ok_tail d'(1) r by simp
  with ok(2) show ?thesis by (auto simp: tailers_ok_def)
qed

theorem active_build_is_tailed_witness:
  "\<exists>d d' n. daemon_run (home_config ''ab05'') first_server [first_act 8 ''POST'' [''builds'']] first_daemon = Some d \<and>
     daemon_step (home_config ''ab05'') first_server (ActPass 9) d = Some d' \<and>
     map_of (mg_running (snd (dm_mgr d'))) n = Some (rr_worktree reg_a, False) \<and>
     ss_path (dm_streams d' n) = bep_path_for (rr_worktree reg_a)"
proof -
  let ?cfg = "home_config ''ab05''" and ?reg = "snd (handle_register True 8 (Some reg_a) (bk_reg first_broker))"
  have "rg_builds (bk_reg first_broker) = []" by (simp add: first_broker_def new_registry_def)
  then obtain b where b: "rg_get ''a'' ?reg = Some b" "\<not> is_terminal (b_state b)" "b_worktree b = rr_worktree reg_a"
    by (simp add: handle_register_def reg_a_def to_domain_def rg_register_def register_core_def rg_get_def Let_def empty_build_def)
  obtain d where d: "daemon_run ?cfg first_server [first_act 8 ''POST'' [''builds'']] first_daemon = Some d" "bk_reg (dm_broker d) = ?reg"
    by (simp add: first_register first_daemon_def del: daemon_step.simps)
  obtain d' where d': "daemon_step ?cfg first_server (ActPass 9) d = Some d'" "bk_reg (dm_broker d') = ?reg"
    using d(2) by (simp add: Let_def)
  from active_build_is_tailed [OF d(1) [unfolded first_daemon_def] d'(1) _ b(2)] b d'(2)
  have "\<exists>n. map_of (mg_running (snd (dm_mgr d'))) n = Some (rr_worktree reg_a, False) \<and> ss_path (dm_streams d' n) = bep_path_for (rr_worktree reg_a)"
    by (auto simp: reg_a_def)
  with d(1) d'(1) show ?thesis by blast
qed

end
