(* ===== verification/Broker_Process.thy ===== *)
theory Broker_Process
  imports Broker_Main
begin

text \<open>
  The process \<open>broker\<close> around its start: the options of the server (\<open>internal/httpapi/seams.go\<close>,
  \<open>server.go\<close>), the set-up of the log (\<open>internal/logging\<close>), the flags, the end of the process and its exit
  code (\<open>cmd/broker/main.go\<close>).
\<close>

section \<open>The options of the server\<close>

datatype server_option =
    WithKiller "broker seam"
  | WithMetrics "route_kind \<Rightarrow> broker seam"
  | WithAdmitter "route_kind \<Rightarrow> broker seam"
  | WithVersion string

fun apply_option :: "server_option \<Rightarrow> server \<Rightarrow> server" where
  "apply_option (WithKiller k) s = s\<lparr>sv_seams := (sv_seams s)\<lparr>sm_killer := k\<rparr>\<rparr>"
| "apply_option (WithMetrics m) s = s\<lparr>sv_seams := (sv_seams s)\<lparr>sm_metrics := m\<rparr>\<rparr>"
| "apply_option (WithAdmitter a) s = s\<lparr>sv_seams := (sv_seams s)\<lparr>sm_admitter := a\<rparr>\<rparr>"
| "apply_option (WithVersion v) s = (if v \<noteq> [] then s\<lparr>sv_version := v\<rparr> else s)"

definition default_version :: string where "default_version = ''0.1.0''"

definition new_server :: "config \<Rightarrow> gotime \<Rightarrow> server_option list \<Rightarrow> server" where
  "new_server cfg now opts =
     foldl (\<lambda>s o'. apply_option o' s)
       \<lparr>sv_token = cf_token cfg, sv_version = default_version, sv_started = now, sv_seams = default_seams\<rparr> opts"

definition main_options :: "config \<Rightarrow> boot_env \<Rightarrow> server_option list" where
  "main_options cfg b =
     (let seams = broker_seams (boot_outside cfg (be_outside b)) in
      [WithVersion (be_version b), WithKiller (sm_killer seams), WithMetrics (sm_metrics seams), WithAdmitter (sm_admitter seams)])"

text \<open>The server of the booted daemon is the one the options make: no reserved route is left to its default.\<close>

lemma broker_server:
  assumes "broker_run b fs db = (Inr (sv, s), fs', db')" and "load (be_env b) (be_random b) (be_mkdir b) (be_write b) fs = (Inr cfg, fs1)"
  shows "sv = new_server cfg (be_now b) (main_options cfg b)"
  using assms
  by (auto simp: broker_run_def new_server_def main_options_def default_version_def default_seams_def broker_seams_def Let_def
      split: option.splits prod.splits if_splits)

section \<open>Opening the store\<close>

text \<open>\<open>store.Open\<close>: the directory, then the migration; the handle is closed again where that fails.\<close>

datatype open_error = OpenMkdir | OpenMigrate sql_error

definition store_open :: "bool \<Rightarrow> database \<Rightarrow> (open_error + unit) \<times> database" where
  "store_open mkdir_ok db =
     (if \<not> mkdir_ok then (Inl OpenMkdir, db)
      else case migrate db of
             (Some e, db') \<Rightarrow> (Inl (OpenMigrate e), db')
           | (None, db') \<Rightarrow> (Inr (), db'))"

text \<open>A store that cannot be opened ends the start, and the database of a start is the one opening leaves.\<close>

lemma broker_store:
  assumes "load (be_env b) (be_random b) (be_mkdir b) (be_write b) fs = (Inr cfg, fs1)" and "store_open (be_db_dir b) db = (r, db1)"
  shows "snd (snd (broker_run b fs db)) = db1 \<and>
    (case r of
       Inl e \<Rightarrow> fst (broker_run b fs db) = Inl (case e of OpenMkdir \<Rightarrow> BootMkdir | OpenMigrate x \<Rightarrow> BootStore x)
     | Inr _ \<Rightarrow> fst (broker_run b fs db) = Inl BootListen \<or> (\<exists>x. fst (broker_run b fs db) = Inr x))"
  using assms by (auto simp: store_open_def broker_run_def Let_def split: option.splits prod.splits if_splits)

section \<open>The log\<close>

datatype log_level = LevelDebug | LevelInfo | LevelWarn | LevelError

text \<open>\<open>strings.ToLower\<close> on the letters of ASCII.\<close>

definition to_lower :: "string \<Rightarrow> string" where
  "to_lower s = map (\<lambda>c. let n = of_char c :: nat in if 65 \<le> n \<and> n \<le> 90 then char_of (n + 32) else c) s"

definition log_level :: "string \<Rightarrow> log_level" where
  "log_level env =
     (let l = to_lower env in
      if l = ''debug'' then LevelDebug else if l = ''warn'' then LevelWarn else if l = ''error'' then LevelError else LevelInfo)"

datatype log_sink = SinkFile string | SinkStderr

text \<open>\<open>NewFile\<close>: where a line goes, given whether the directory can be made and the file opened.\<close>

definition new_file :: "string \<Rightarrow> bool \<Rightarrow> bool \<Rightarrow> log_sink list" where
  "new_file path mkdir_ok open_ok =
     (if path = [] then [SinkStderr]
      else if \<not> mkdir_ok then [SinkStderr]
      else if \<not> open_ok then [SinkStderr]
      else [SinkFile path, SinkStderr])"

lemma logs_to_stderr: "SinkStderr \<in> set (new_file path mkdir_ok open_ok)"
  by (simp add: new_file_def)

section \<open>The process\<close>

text \<open>What the flag library makes of the arguments: \<open>--version\<close>, or the value of \<open>--config\<close> (empty if not given).\<close>

datatype broker_flags = FlagVersion | FlagRun string

definition with_config :: "string \<Rightarrow> boot_env \<Rightarrow> boot_env" where
  "with_config path b = (if path = [] then b else b\<lparr>be_env := (be_env b)\<lparr>en_config := path\<rparr>\<rparr>)"

text \<open>
  How the serving ends: the server fails on its own (\<open>Serve\<close> turns \<open>ErrServerClosed\<close> into no error), or a
  signal comes and the shutdown is done in time or not.
\<close>

datatype serve_error = ServerClosed | ServeFailed

datatype serve_end = Served serve_error | Signalled bool

definition serve_result :: "serve_error \<Rightarrow> bool" where
  "serve_result e = (case e of ServerClosed \<Rightarrow> True | ServeFailed \<Rightarrow> False)"

definition end_ok :: "serve_end \<Rightarrow> bool" where
  "end_ok e = (case e of Served x \<Rightarrow> serve_result x | Signalled in_time \<Rightarrow> in_time)"

text \<open>The exit code of the process and what it leaves; \<open>ends\<close> is how the serving ends, if it comes to that.\<close>

definition broker_main :: "broker_flags \<Rightarrow> boot_env \<Rightarrow> serve_end \<Rightarrow> files \<Rightarrow> database \<Rightarrow> nat \<times> files \<times> database" where
  "broker_main fl b ends fs db =
     (case fl of
        FlagVersion \<Rightarrow> (0, fs, db)
      | FlagRun path \<Rightarrow>
          (case broker_run (with_config path b) fs db of
             (Inl _, fs', db') \<Rightarrow> (1, fs', db')
           | (Inr _, fs', db') \<Rightarrow> (if end_ok ends then 0 else 1, fs', db')))"

text \<open>
  \<open>--config\<close> names one file for both programs.  A daemon started with it on a missing file leaves a
  configuration there, whether or not the rest of the start succeeds, and \<open>brokerctl --config\<close> with the same
  path, in any environment, finds its host, port and token; a later start with it loads the same again.
\<close>

theorem config_flag_shared:
  assumes "path \<noteq> []" and "fs path = NoFile" and "broker_main (FlagRun path) b ends fs db = (code, fs', db')"
    and "load (be_env (with_config path b)) (be_random b) (be_mkdir b) (be_write b) fs = (Inr cfg, fs1)"
  shows "load_config env path fs' = Inr \<lparr>cc_host = cf_host cfg, cc_port = cf_port cfg, cc_token = cf_token cfg\<rparr> \<and>
    fst (load (be_env (with_config path b')) (be_random b') (be_mkdir b') (be_write b') fs') = Inr cfg"
proof -
  have env: "config_path (be_env (with_config path c)) = Inr path" for c using assms(1) by (simp add: with_config_def config_path_def)
  from assms(2,4) env have b: "bootstrap (be_env (with_config path b)) (be_random b) (be_mkdir b) (be_write b) path fs = (Inr cfg, fs1)"
    by (simp add: load_def)
  note r = bootstrap_result [OF b]
  have "fs' = fs1"
    using assms(3,4) by (auto simp: broker_main_def broker_run_def with_config_def Let_def split: sum.splits prod.splits option.splits if_splits)
  with r(1) have f: "fs' path = Json (marshal cfg)" by simp
  from r(2) have "cf_port cfg \<noteq> 0" "cf_token cfg \<noteq> []" by (auto simp: validate_def split: if_splits)
  with f assms(1) have "load_config env path fs' = Inr \<lparr>cc_host = cf_host cfg, cc_port = cf_port cfg, cc_token = cf_token cfg\<rparr>"
    by (simp add: load_config_def resolve_config_path_def marshal_def Let_def)
  with load_saved [where fs = fs' and path = path, OF env f r(2) r(3)] show ?thesis by simp
qed

lemma state_elsewhere: "apply_defaults (home_env\<lparr>en_config := p\<rparr>) = apply_defaults home_env"
    "default_config (home_env\<lparr>en_config := p\<rparr>) = default_config home_env"
  by (simp_all add: fun_eq_iff apply_defaults_def default_config_def state_dir_def cong: if_cong)

theorem config_flag_shared_witness:
  "\<exists>code fs' db'. broker_main (FlagRun ''/c'') first_boot (Signalled True) (\<lambda>_. NoFile) v1_db = (code, fs', db') \<and>
     load_config home_env ''/c'' fs' = Inr \<lparr>cc_host = default_host, cc_port = default_port, cc_token = ''ab05''\<rparr>"
proof -
  have tok: "hex_encode [171, 5] = ''ab05''" by (simp add: hex_encode_def hex_digit_def) code_simp
  let ?b = "with_config ''/c'' first_boot"
  have env: "be_env ?b = home_env\<lparr>en_config := ''/c''\<rparr>" and same: "be_random ?b = Some [171, 5]" "be_mkdir ?b" "be_write ?b = WriteOk"
    by (simp_all add: with_config_def first_boot_def)
  obtain fs1 where l: "load (be_env ?b) (be_random ?b) (be_mkdir ?b) (be_write ?b) (\<lambda>_. NoFile) = (Inr (home_config ''ab05''), fs1)"
    by (simp add: env same load_def config_path_def bootstrap_def generate_token_def tok state_elsewhere home_defaults home_valid save_def)
  obtain code fs' db' where m: "broker_main (FlagRun ''/c'') first_boot (Signalled True) (\<lambda>_. NoFile) v1_db = (code, fs', db')"
    by (metis surj_pair)
  have r: "be_random ?b = be_random first_boot" "be_mkdir ?b = be_mkdir first_boot" "be_write ?b = be_write first_boot"
    by (simp_all add: with_config_def)
  from config_flag_shared [OF _ _ m l [unfolded r], of home_env first_boot] m show ?thesis by (simp add: home_config_def)
qed

end
