(* ===== verification/Bep_Tail.thy ===== *)
theory Bep_Tail
  imports Bep_Stream_Props
begin

text \<open>
  The tailer of one build event file (\<open>watchFile\<close> and \<open>runOneTail\<close> of \<open>internal/bep/tailer.go\<close>): sessions
  of the tail library, each with a supervisor that looks at the file every quarter of a second and ends
  the session when the file was replaced or has shrunk.

  The library is a parameter: an event of a session is a line it delivers, with the offset \<open>Tell\<close> gives
  after it, a line error, a tick of the supervisor with what \<open>os.Stat\<close> finds, or the end of the worktree's
  context.  A session ends when the library closes its lines, or when the context of the session is done: because the
  supervisor has called \<open>restart\<close>, or because the worktree's context is.
\<close>

definition poll_interval :: duration where "poll_interval = 250 * millisecond"

record file_stat =
  fs_key :: "nat \<times> nat"
  fs_size :: int

datatype session_event =
    SeLine string "int option" io
  | SeLineErr
  | SeTick "file_stat option"
  | SeCancel

text \<open>
  \<open>ts_start\<close> is \<open>startDevIno\<close>, \<open>ts_offset\<close> is \<open>lastOffset\<close>, \<open>ts_restart\<close> whether the supervisor has
  called \<open>restart\<close>, \<open>ts_cancelled\<close> whether the worktree's context is done.  Lines that are ready may still be
  taken after that, as \<open>select\<close> chooses.
\<close>

record tail_session =
  ts_start :: "nat \<times> nat"
  ts_offset :: int
  ts_restart :: bool
  ts_cancelled :: bool

definition stat_key :: "file_stat option \<Rightarrow> nat \<times> nat" where
  "stat_key st = (case st of None \<Rightarrow> (0, 0) | Some f \<Rightarrow> fs_key f)"

definition new_session :: "file_stat option \<Rightarrow> tail_session" where
  "new_session st = \<lparr>ts_start = stat_key st, ts_offset = 0, ts_restart = False, ts_cancelled = False\<rparr>"

fun session_step ::
  "'m stream_config \<Rightarrow> session_event \<Rightarrow> tail_session \<times> stream \<times> 'm registry \<Rightarrow> tail_session \<times> stream \<times> 'm registry" where
  "session_step cfg (SeLine line off io) (ts, q) =
     (case off of None \<Rightarrow> ts | Some n \<Rightarrow> ts\<lparr>ts_offset := n\<rparr>, consume cfg io line q)"
| "session_step cfg SeLineErr (ts, q) = (ts, q)"
| "session_step cfg SeCancel (ts, q) = (ts\<lparr>ts_cancelled := True\<rparr>, q)"
| "session_step cfg (SeTick None) (ts, q) = (ts, q)"
| "session_step cfg (SeTick (Some f)) (ts, q) =
     (if \<not> ts_restart ts \<and> needs_restart (ts_start ts) (fs_key f) (fs_size f) (ts_offset ts)
      then (ts\<lparr>ts_restart := True\<rparr>, q) else (ts, q))"

definition session_run ::
  "'m stream_config \<Rightarrow> session_event list \<Rightarrow> tail_session \<times> stream \<times> 'm registry \<Rightarrow> tail_session \<times> stream \<times> 'm registry" where
  "session_run cfg es x = foldl (\<lambda>x e. session_step cfg e x) x es"

text \<open>The way out of the loop: the branch of the closed channel, or that of the context, which must be done.\<close>

datatype session_end = LinesClosed | ContextDone

definition may_end :: "session_end \<Rightarrow> tail_session \<Rightarrow> bool" where
  "may_end e ts \<longleftrightarrow> (case e of LinesClosed \<Rightarrow> True | ContextDone \<Rightarrow> ts_restart ts \<or> ts_cancelled ts)"

text \<open>
  One call of \<open>runOneTail\<close>: whether the library opens the file, what \<open>statKey\<close> finds, the events until it
  returns, by which branch it returns, and whether the worktree's context is done by then.
\<close>

record tail_call =
  tc_open :: bool
  tc_stat :: "file_stat option"
  tc_events :: "session_event list"
  tc_end :: session_end
  tc_done :: bool

text \<open>\<open>None\<close>: the call cannot go like this.\<close>

definition run_one_tail :: "'m stream_config \<Rightarrow> tail_call \<Rightarrow> stream \<times> 'm registry \<Rightarrow> (stream \<times> 'm registry) option" where
  "run_one_tail cfg c q =
     (if \<not> tc_open c then Some q
      else let (ts, q1) = session_run cfg (tc_events c) (new_session (tc_stat c), q)
           in if may_end (tc_end c) ts \<and> (ts_cancelled ts \<longrightarrow> tc_done c) then Some q1 else None)"

text \<open>
  The loop of \<open>watchFile\<close>.  Each call comes with the outside of the finalization behind it; the list ends
  where the loop condition finds the context done.
\<close>

fun tail_loop ::
  "'m stream_config \<Rightarrow> (tail_call \<times> io) list \<Rightarrow> io \<Rightarrow> stream \<times> 'm registry \<Rightarrow> (stream \<times> 'm registry) option" where
  "tail_loop cfg [] fin q = Some (finalize cfg fin q)"
| "tail_loop cfg ((c, io) # cs) fin q =
     (case run_one_tail cfg c q of
        None \<Rightarrow> None
      | Some q1 \<Rightarrow>
          if tc_done c then Some (finalize cfg fin q1)
          else (case finalize cfg io q1 of (s, rg) \<Rightarrow> tail_loop cfg cs fin (reset_state s, rg)))"

definition watch_worktree ::
  "'m stream_config \<Rightarrow> string \<Rightarrow> string \<Rightarrow> (tail_call \<times> io) list \<Rightarrow> io \<Rightarrow> 'm registry \<Rightarrow> (stream \<times> 'm registry) option" where
  "watch_worktree cfg path wt cs fin rg = tail_loop cfg cs fin (new_stream path wt, rg)"

section \<open>Sessions implement lines, restarts and the stop\<close>

definition lines_of :: "session_event list \<Rightarrow> (tail_event \<times> io) list" where
  "lines_of es = List.map_filter (\<lambda>e. case e of SeLine line _ io \<Rightarrow> Some (TailLine line, io) | _ \<Rightarrow> None) es"

fun watch_trace :: "(tail_call \<times> io) list \<Rightarrow> io \<Rightarrow> (tail_event \<times> io) list" where
  "watch_trace [] fin = [(TailStop, fin)]"
| "watch_trace ((c, io) # cs) fin =
     (if tc_open c then lines_of (tc_events c) else []) @
     (if tc_done c then [(TailStop, fin)] else (TailRestart, io) # watch_trace cs fin)"

lemma session_lines:
  "snd (session_run cfg es (ts, q)) = foldl (\<lambda>q e. tail_step cfg e q) q (lines_of es)"
proof (induction es arbitrary: ts q)
  case (Cons e es)
  obtain ts1 q1 where 1: "session_step cfg e (ts, q) = (ts1, q1)" by (cases "session_step cfg e (ts, q)")
  have "q1 = foldl (\<lambda>q e. tail_step cfg e q) q (lines_of [e])"
    using 1 by (cases "(cfg, e, (ts, q))" rule: session_step.cases)
      (auto simp: lines_of_def map_filter_def tail_step_def split: if_splits)
  moreover have "lines_of (e # es) = lines_of [e] @ lines_of es"
    by (simp add: lines_of_def map_filter_def)
  ultimately show ?case using Cons.IH [of ts1 q1] 1 by (simp add: session_run_def)
qed (simp add: session_run_def lines_of_def map_filter_def)

lemma run_one_tail_lines:
  "run_one_tail cfg c q = Some q' \<Longrightarrow> q' = foldl (\<lambda>q e. tail_step cfg e q) q (if tc_open c then lines_of (tc_events c) else [])"
  using session_lines [of cfg "tc_events c" "new_session (tc_stat c)" q]
  by (auto simp: run_one_tail_def split: if_splits prod.splits)

lemma tail_loop_trace:
  "tail_loop cfg cs fin q = Some q' \<Longrightarrow> q' = foldl (\<lambda>q e. tail_step cfg e q) q (watch_trace cs fin)"
proof (induction cs fin arbitrary: q rule: watch_trace.induct)
  case (2 c io cs fin)
  from "2.prems" obtain q1 where 1: "run_one_tail cfg c q = Some q1" by (auto split: option.splits)
  obtain s rg where f: "finalize cfg io q1 = (s, rg)" by fastforce
  with 2 1 run_one_tail_lines [OF 1] show ?case by (auto simp: tail_step_def split: if_splits)
qed (simp add: tail_step_def)

text \<open>
  The tailer implements the abstract life of a stream.  Whatever the tail library delivers and however
  often the supervisor restarts it, what a watched worktree does to its row and to the registry is what the
  sequence of its lines, with one restart between sessions and one stop at the end, does.
\<close>

theorem watch_refines:
  "watch_worktree cfg path wt cs fin rg = Some q \<Longrightarrow> q = watch_file cfg path wt (watch_trace cs fin) rg"
  by (simp add: watch_worktree_def watch_file_def tail_loop_trace)

text \<open>
  The cause of a restart, on the events alone: a tick finds another file than the one the session began with, or
  one shorter than what was read by then.  \<open>k\<close> is the key at the start, (0, 0) if there was no file, and
  \<open>off\<close> the offset.
\<close>

fun file_changed :: "nat \<times> nat \<Rightarrow> int \<Rightarrow> session_event list \<Rightarrow> bool" where
  "file_changed k off [] \<longleftrightarrow> False"
| "file_changed k off (SeLine _ None _ # es) \<longleftrightarrow> file_changed k off es"
| "file_changed k off (SeLine _ (Some n) _ # es) \<longleftrightarrow> file_changed k n es"
| "file_changed k off (SeTick (Some f) # es) \<longleftrightarrow> k \<noteq> (0, 0) \<and> fs_key f \<noteq> k \<or> fs_size f < off \<or> file_changed k off es"
| "file_changed k off (_ # es) \<longleftrightarrow> file_changed k off es"

lemma session_restart:
  "ts_restart (fst (session_run cfg es (ts, q))) \<longleftrightarrow> ts_restart ts \<or> file_changed (ts_start ts) (ts_offset ts) es"
proof (induction es arbitrary: ts q)
  case (Cons e es)
  obtain ts1 q1 where 1: "session_step cfg e (ts, q) = (ts1, q1)" by (cases "session_step cfg e (ts, q)")
  then have "ts_restart ts1 \<or> file_changed (ts_start ts1) (ts_offset ts1) es \<longleftrightarrow>
      ts_restart ts \<or> file_changed (ts_start ts) (ts_offset ts) (e # es)"
    by (cases "(cfg, e, (ts, q))" rule: session_step.cases) (auto simp: needs_restart_def split: if_splits option.splits)
  with Cons.IH [of ts1 q1] 1 show ?case by (simp add: session_run_def)
qed (simp add: session_run_def)

lemma session_cancelled:
  "ts_cancelled (fst (session_run cfg es (ts, q))) \<longleftrightarrow> ts_cancelled ts \<or> SeCancel \<in> set es"
proof (induction es arbitrary: ts q)
  case (Cons e es)
  obtain ts1 q1 where 1: "session_step cfg e (ts, q) = (ts1, q1)" by (cases "session_step cfg e (ts, q)")
  then have "ts_cancelled ts1 \<longleftrightarrow> ts_cancelled ts \<or> e = SeCancel"
    by (cases "(cfg, e, (ts, q))" rule: session_step.cases) (auto split: if_splits option.splits)
  with Cons.IH [of ts1 q1] 1 show ?case by (auto simp: session_run_def)
qed (simp add: session_run_def)

text \<open>
  C25: the supervisor ends a session exactly when the file is another one or has shrunk below what was read.  A
  session whose worktree is still watched can be left through its context, after any events, if and only if a tick among them has
  found that; then the build so far is finalized, the row is reset, and the next session goes on from there.  A worktree that is no
  longer watched leaves it for the same reason or because its context is done, and then finalizes once.
\<close>

theorem session_ends_on_change:
  "let q' = snd (session_run cfg es (new_session st, q)) in
    tail_loop cfg ((\<lparr>tc_open = True, tc_stat = st, tc_events = es, tc_end = ContextDone, tc_done = False\<rparr>, io) # cs) fin q =
      (if SeCancel \<notin> set es \<and> file_changed (stat_key st) 0 es
       then case finalize cfg io q' of (s, rg) \<Rightarrow> tail_loop cfg cs fin (reset_state s, rg)
       else None) \<and>
    tail_loop cfg ((\<lparr>tc_open = True, tc_stat = st, tc_events = es, tc_end = ContextDone, tc_done = True\<rparr>, io) # cs) fin q =
      (if SeCancel \<in> set es \<or> file_changed (stat_key st) 0 es then Some (finalize cfg fin q') else None)"
  using session_restart [of cfg es "new_session st" q] session_cancelled [of cfg es "new_session st" q]
  by (auto simp: run_one_tail_def may_end_def new_session_def Let_def split_beta)

section \<open>What the supervisor sees and misses\<close>

lemma session_snoc: "session_run cfg (es @ [e]) x = session_step cfg e (session_run cfg es x)"
  by (simp add: session_run_def)

text \<open>The metrics table as a registry operation leaves it.\<close>

definition metrics_table :: "'m registry \<Rightarrow> (string \<times> metrics_row) list option" where
  "metrics_table rg = map_option t_metrics (rg_store rg)"

lemma upsert_metrics_table [simp]: "metrics_table (snd (rg_upsert ok b now rg)) = metrics_table rg"
  by (auto simp: metrics_table_def rg_upsert_def publish_def persist_def broadcast_build_def upsert_build_def put_build_def
      split: sum.split option.split)

lemma push_metrics_table [simp]: "metrics_table (push_command_targets io s rg) = metrics_table rg"
  by (simp add: push_command_targets_def)

lemma bind_metrics_table [simp]: "metrics_table (snd (bind_build io s rg)) = metrics_table rg"
  by (simp add: bind_build_def Let_def split: option.split)

lemma finalized_finalize: "ss_finalized s \<Longrightarrow> finalize cfg io (s, rg) = (s, rg)"
  by (simp add: finalize_def split: option.split)

text \<open>A stream that has finalized its build.\<close>

definition closed_stream :: "stream \<Rightarrow> bool" where
  "closed_stream s \<longleftrightarrow> ss_finalized s \<and> ss_row s \<noteq> None"

lemma closed_errs [simp]: "closed_stream (s\<lparr>ss_parse_errs := n\<rparr>) = closed_stream s"
  by (simp add: closed_stream_def)

lemma closed_payload:
  assumes "closed_stream s"
  shows "closed_stream (fst (on_payload cfg io p (s, rg)))" "metrics_table (snd (on_payload cfg io p (s, rg))) = metrics_table rg"
proof -
  have b: "closed_stream (fst (bind_build io s rg))" if "closed_stream s" for s
    using that by (simp add: bind_build_def Let_def closed_stream_def)
  have st: "closed_stream (on_started st s)" for st
    using assms by (simp add: closed_stream_def on_started_def upd_row_def Let_def split: option.split)
  show "closed_stream (fst (on_payload cfg io p (s, rg)))"
    using assms b st by (cases p) (simp_all add: on_payload_def closed_stream_def upd_row_def Let_def split: option.split)
  show "metrics_table (snd (on_payload cfg io p (s, rg))) = metrics_table rg"
    by (cases p) (simp_all add: on_payload_def Let_def split: option.split)
qed

lemma closed_dispatch:
  assumes "closed_stream s" and "dispatch cfg io ev (s, rg) = (s', rg')"
  shows "closed_stream s' \<and> metrics_table rg' = metrics_table rg"
proof -
  from assms(1) obtain r where r: "ss_row s = Some r" by (auto simp: closed_stream_def)
  obtain s1 rg1 where 1: "on_payload cfg io (be_payload ev) (s, rg) = (s1, rg1)" by fastforce
  with closed_payload [OF assms(1), of cfg io "be_payload ev" rg]
  have "closed_stream s1" "metrics_table rg1 = metrics_table rg" by simp_all
  with assms(2) r 1 show ?thesis
    by (auto simp: dispatch_def Let_def finalized_finalize closed_stream_def split: if_splits)
qed

lemma closed_consume:
  assumes "closed_stream s" and "consume cfg io line (s, rg) = (s', rg')"
  shows "closed_stream s' \<and> metrics_table rg' = metrics_table rg"
  using assms by (auto simp: consume_def Let_def split: if_splits option.splits dest: closed_dispatch)

text \<open>
  C37: one session records one build.  Once the build of a session has been finalized, no line of the same
  session, not even that of a second build with its own end, changes the metrics table.  A rebuild that
  truncates the file and writes past the old offset before the next tick does not make the supervisor
  restart the session, so its metrics are lost.
\<close>

theorem unnoticed_rebuild_lost:
  assumes "ss_finalized s" and "ss_row s \<noteq> None"
    and "session_run cfg es (ts, s, rg) = (ts', s', rg')"
  shows "ss_finalized s' \<and> map_option t_metrics (rg_store rg') = map_option t_metrics (rg_store rg)"
proof -
  have "closed_stream s' \<and> metrics_table rg' = metrics_table rg"
    using assms
  proof (induction es arbitrary: ts s rg)
    case Nil
    then show ?case by (simp add: session_run_def closed_stream_def)
  next
    case (Cons e es)
    obtain ts1 s1 rg1 where 1: "session_step cfg e (ts, s, rg) = (ts1, s1, rg1)" by (cases "session_step cfg e (ts, s, rg)")
    have "closed_stream s" using Cons.prems by (simp add: closed_stream_def)
    then have "closed_stream s1 \<and> metrics_table rg1 = metrics_table rg"
      using 1 by (cases "(cfg, e, (ts, s, rg))" rule: session_step.cases) (auto split: if_splits dest: closed_consume)
    moreover have "session_run cfg es (ts1, s1, rg1) = (ts', s', rg')" using Cons.prems(3) 1 by (simp add: session_run_def)
    ultimately show ?case using Cons.IH [of s1 ts1 rg1] by (simp add: closed_stream_def)
  qed
  then show ?thesis by (simp add: closed_stream_def metrics_table_def)
qed

text \<open>Two builds in one session: the file is never seen smaller than what was read.\<close>

definition tail_config :: "unit stream_config" where
  "tail_config = demo_config\<lparr>sc_decode := map_of [(''s1'', ev_started ''u1''), (''s2'', ev_started ''u2''), (''e'', ev_end)]\<rparr>"

definition first_build :: "session_event list" where
  "first_build = [SeLine ''s1'' (Some 10) good_io, SeLine ''e'' (Some 20) good_io]"

definition second_build :: "session_event list" where
  "second_build = [SeTick (Some \<lparr>fs_key = (1, 2), fs_size = 30\<rparr>), SeLine ''s2'' (Some 10) good_io, SeLine ''e'' (Some 30) good_io]"

theorem unnoticed_rebuild_lost_witness:
  "\<exists>ts s rg. session_run tail_config (first_build @ second_build)
       (new_session (Some \<lparr>fs_key = (1, 2), fs_size = 0\<rparr>), new_stream ''/w/bep'' ''/w'', new_registry (Some empty_store) None) = (ts, s, rg) \<and>
     map_option (map fst \<circ> t_metrics) (rg_store rg) = Some [''u1'']"
proof -
  let ?x = "(new_session (Some \<lparr>fs_key = (1, 2), fs_size = 0\<rparr>), new_stream ''/w/bep'' ''/w'', new_registry (Some empty_store) None :: unit registry)"
  have v: "(\<lambda>(ts, s, rg). (ss_finalized s, ss_row s = None, map_option (map fst \<circ> t_metrics) (rg_store rg)))
      (session_run tail_config first_build ?x) = (True, False, Some [''u1''])"
    by (simp add: session_run_def first_build_def tail_config_def bep_simps registry_simps trim_simps ev_end_def on_test_def
        empty_row_def new_session_def publish_def persist_def broadcast_build_def upsert_build_def put_build_def upsert_metrics_def
        empty_store_def)
  obtain ts s rg where 1: "session_run tail_config first_build ?x = (ts, s, rg)" by (cases "session_run tail_config first_build ?x")
  with v have f: "ss_finalized s" "ss_row s \<noteq> None" "map_option (map fst \<circ> t_metrics) (rg_store rg) = Some [''u1'']"
    by simp_all
  obtain ts' s' rg' where 2: "session_run tail_config second_build (ts, s, rg) = (ts', s', rg')"
    by (cases "session_run tail_config second_build (ts, s, rg)")
  have "session_run tail_config (first_build @ second_build) ?x = (ts', s', rg')"
    using 1 2 by (simp add: session_run_def)
  with unnoticed_rebuild_lost [OF f(1,2) 2] f(3) show ?thesis by auto
qed

end
