(* ===== verification/Cli_Main.thy ===== *)
theory Cli_Main
  imports Cli_Props
begin

text \<open>
  The program \<open>brokerctl\<close> (\<open>cmd/brokerctl\<close>): its commands on the parsed command line, the watch command with
  the connections it holds one after the other, and the exit code of the process.

  The flag library turns the arguments into one of the values of \<open>parsed\<close>.  The broker is a parameter, the
  reply to each call; standard output is assumed to take what is written to it.
\<close>

section \<open>Watching\<close>

text \<open>
  One connection of the watch loop: the error of the dial, or the frames until reading fails, the clock of
  the header, whether the context is done when it has ended, the jitter of the wait behind it, and whether
  the context cuts that wait.
\<close>

record visit =
  vi_dial :: "client_error option"
  vi_frames :: "metrics_json event list"
  vi_end :: string
  vi_clock :: string
  vi_cancelled :: bool
  vi_jitter :: duration
  vi_cut :: bool

definition watch_visit :: "watch_opts \<Rightarrow> visit \<Rightarrow> metrics_json event shown list \<times> cli_err" where
  "watch_visit opt v = watch_once opt (vi_clock v) (\<lambda>_. None) (vi_dial v) (vi_frames v) (Uncoded (vi_end v))"

definition lost_line :: string where
  "lost_line = ''broker connection lost '' @ em_dash @ '' reconnecting'' @ [CHR 0xE2, CHR 0x80, CHR 0xA6]"

fun watch_session :: "watch_opts \<Rightarrow> visit list \<Rightarrow> metrics_json event shown list \<times> cli_err option option" where
  "watch_session opt [] = ([], None)"
| "watch_session opt (v # vs) =
     (let (out, e) = watch_visit opt v in
      if vi_cancelled v then (out, Some None)
      else if is_auth_err e then (out, Some (Some e))
      else if wo_once opt then (out, Some (if is_conn_closed e then None else Some e))
      else if is_reconnectable e
      then (let out' = out @ (if \<not> wo_json opt \<and> wo_tty opt then [OutLine lost_line] else []) in
            if vi_cut v then (out', Some None)
            else let (rest, r) = watch_session opt vs in (out' @ rest, r))
      else (out, Some (Some e)))"

text \<open>The turns of the loop, as \<open>run_watch\<close> takes them.\<close>

definition turn_of :: "watch_opts \<Rightarrow> visit \<Rightarrow> turn" where
  "turn_of opt v = \<lparr>tn_err = snd (watch_visit opt v), tn_cancelled = vi_cancelled v, tn_jitter = vi_jitter v, tn_cut = vi_cut v\<rparr>"

lemma watch_session_turns: "snd (watch_session opt vs) = fst (run_watch (wo_once opt) b (map (turn_of opt) vs))"
  by (induction vs arbitrary: b) (auto simp: turn_of_def Let_def split_beta)

section \<open>The commands\<close>

definition version_string :: "string \<Rightarrow> string \<Rightarrow> string \<Rightarrow> string" where
  "version_string v commit date = v @ '' ('' @ commit @ '', '' @ date @ '')''"

datatype command =
    CmdVersion
  | CmdLs
  | CmdKill string
  | CmdDrain
  | CmdPause
  | CmdResume
  | CmdWatch bool
  | CmdProfile string bool

datatype parsed = ParseError string | ParseHelp string | Parsed global_opts command

datatype doc =
    DocBuilds "api_build list"
  | DocKill api_kill
  | DocAdmission string
  | DocProfile "string \<times> string"
  | DocEvent "metrics_json event"

text \<open>
  What a run of the program finds: its version, the configuration files, the reply to each call, the
  connections of a watch, whether standard output is a terminal, and the opener.
\<close>

record cli_world =
  cw_version :: string
  cw_env :: environment
  cw_files :: files
  cw_builds :: "client \<Rightarrow> api_build list wire"
  cw_kill :: "client \<Rightarrow> string \<Rightarrow> api_kill wire"
  cw_switch :: "client \<Rightarrow> api_call \<Rightarrow> unit wire"
  cw_build :: "client \<Rightarrow> string \<Rightarrow> api_build wire"
  cw_profile :: "client \<Rightarrow> string \<Rightarrow> profile_ref wire"
  cw_visits :: "client \<Rightarrow> visit list"
  cw_tty :: bool
  cw_quote :: "string \<Rightarrow> string"
  cw_open :: "string \<Rightarrow> string option"

text \<open>A typed method that returns a value.\<close>

definition typed :: "api_call \<Rightarrow> 'a wire \<Rightarrow> cli_err + 'a" where
  "typed c w = map_sum id the (cli_call c w)"

definition admission_cmd :: "cli_world \<Rightarrow> global_opts \<Rightarrow> string \<Rightarrow> api_call \<Rightarrow> doc shown list \<times> cli_err option" where
  "admission_cmd w opt verb c =
     map_prod (map (map_shown DocAdmission)) id
       (run_admission (go_json opt) verb (cli_client opt (cw_env w) (cw_files w)) (\<lambda>cl. cli_call c (cw_switch w cl c)))"

definition kill_cmd :: "cli_world \<Rightarrow> global_opts \<Rightarrow> string \<Rightarrow> doc shown list \<times> cli_err option" where
  "kill_cmd w opt i =
     map_prod (map (map_shown DocKill)) id
       (run_kill (go_json opt) i (cli_client opt (cw_env w) (cw_files w)) (\<lambda>cl. typed (CallKill i) (cw_kill w cl i)))"

definition ls_cmd :: "cli_world \<Rightarrow> global_opts \<Rightarrow> doc shown list \<times> cli_err option" where
  "ls_cmd w opt =
     map_prod (map (map_shown DocBuilds)) id
       (run_ls (go_json opt) (cli_client opt (cw_env w) (cw_files w)) (\<lambda>cl. typed CallListBuilds (cw_builds w cl)))"

definition profile_cmd :: "cli_world \<Rightarrow> global_opts \<Rightarrow> string \<Rightarrow> bool \<Rightarrow> doc shown list \<times> cli_err option" where
  "profile_cmd w opt i print =
     (case cli_client opt (cw_env w) (cw_files w) of
        Inl e \<Rightarrow> ([], Some e)
      | Inr cl \<Rightarrow>
          map_prod (map (map_shown DocProfile)) id
            (run_profile (\<lambda>t. open_url (cw_quote w) (cw_open w t) t) \<lparr>po_print = print, po_json = go_json opt\<rparr> i
               (typed (CallGetBuild i) (cw_build w cl i)) (typed (CallProfile i) (cw_profile w cl i))))"

text \<open>\<open>None\<close> as the second part: the connections given are over and the program goes on.\<close>

definition watch_cmd :: "cli_world \<Rightarrow> global_opts \<Rightarrow> bool \<Rightarrow> doc shown list \<times> cli_err option option" where
  "watch_cmd w opt once =
     (case cli_client opt (cw_env w) (cw_files w) of
        Inl e \<Rightarrow> ([], Some (Some e))
      | Inr cl \<Rightarrow>
          map_prod (map (map_shown DocEvent)) id
            (watch_session \<lparr>wo_json = go_json opt, wo_once = once, wo_tty = cw_tty w \<and> \<not> go_json opt\<rparr> (cw_visits w cl)))"

fun run_command :: "cli_world \<Rightarrow> global_opts \<Rightarrow> command \<Rightarrow> doc shown list \<times> cli_err option option" where
  "run_command w opt CmdVersion = ([OutLine (cw_version w)], Some None)"
| "run_command w opt CmdLs = map_prod id Some (ls_cmd w opt)"
| "run_command w opt (CmdKill i) = map_prod id Some (kill_cmd w opt i)"
| "run_command w opt CmdDrain = map_prod id Some (admission_cmd w opt ''drained'' CallDrain)"
| "run_command w opt CmdPause = map_prod id Some (admission_cmd w opt ''paused'' CallPause)"
| "run_command w opt CmdResume = map_prod id Some (admission_cmd w opt ''resumed'' CallResume)"
| "run_command w opt (CmdWatch once) = watch_cmd w opt once"
| "run_command w opt (CmdProfile i print) = map_prod id Some (profile_cmd w opt i print)"

text \<open>The process: what it prints, and its exit code with the line on standard error once it has ended.\<close>

fun brokerctl :: "cli_world \<Rightarrow> parsed \<Rightarrow> doc shown list \<times> (nat \<times> string) option" where
  "brokerctl w (ParseError msg) = ([], Some (exit_code_for (Some (Uncoded msg))))"
| "brokerctl w (ParseHelp help) = ([OutLine help], Some (exit_code_for None))"
| "brokerctl w (Parsed opt c) = map_prod id (map_option exit_code_for) (run_command w opt c)"

section \<open>Exit codes\<close>

text \<open>
  The documented code of each cause.  The codes of a reply are \<open>reply_code\<close>; a profile takes the link of the build, or
  asks for it if the build has none, and opens it unless it only has to be printed.
\<close>

definition profile_code :: "cli_world \<Rightarrow> client \<Rightarrow> bool \<Rightarrow> string \<Rightarrow> nat" where
  "profile_code w cl shown i =
     (let open_code = (\<lambda>t. if t = [] then 5 else if shown then 0 else if cw_open w t = None then 0 else 7) in
      case cw_build w cl i of
        Answered a \<Rightarrow>
          if reply_code True (Answered a) \<noteq> 0 then reply_code True (Answered a)
          else if a_profile (projr (an_result a)) \<noteq> [] then open_code (a_profile (projr (an_result a)))
          else (case cw_profile w cl i of
                  Answered p \<Rightarrow>
                    if reply_code True (Answered p) \<noteq> 0 then reply_code True (Answered p)
                    else open_code (if pr_perfetto (projr (an_result p)) \<noteq> [] then pr_perfetto (projr (an_result p))
                                    else pr_local (projr (an_result p)))
                | x \<Rightarrow> reply_code True x)
      | x \<Rightarrow> reply_code True x)"

text \<open>
  A watch ends with the code of a refused dial, with 0 when it is interrupted, and with \<open>--once\<close> when its first
  connection is over; a connection that breaks or cannot be made is tried again otherwise.
\<close>

fun watch_code :: "bool \<Rightarrow> visit list \<Rightarrow> nat option" where
  "watch_code once [] = None"
| "watch_code once (v # vs) =
     (if vi_cancelled v then Some 0
      else case vi_dial v of
        None \<Rightarrow> if once \<or> vi_cut v then Some 0 else watch_code once vs
      | Some (TransportErr _ _ _) \<Rightarrow> if once then Some 3 else if vi_cut v then Some 0 else watch_code once vs
      | Some (StatusErr e) \<Rightarrow> Some (if se_status e = 401 then 4 else if se_status e = 501 then 6 else 5)
      | Some _ \<Rightarrow> Some 5)"

definition command_code :: "cli_world \<Rightarrow> global_opts \<Rightarrow> client \<Rightarrow> command \<Rightarrow> nat option" where
  "command_code w opt cl c =
     (case c of
        CmdVersion \<Rightarrow> Some 0
      | CmdLs \<Rightarrow> Some (reply_code True (cw_builds w cl))
      | CmdKill i \<Rightarrow> Some (reply_code True (cw_kill w cl i))
      | CmdDrain \<Rightarrow> Some (reply_code False (cw_switch w cl CallDrain))
      | CmdPause \<Rightarrow> Some (reply_code False (cw_switch w cl CallPause))
      | CmdResume \<Rightarrow> Some (reply_code False (cw_switch w cl CallResume))
      | CmdWatch once \<Rightarrow> watch_code once (cw_visits w cl)
      | CmdProfile i print \<Rightarrow> Some (profile_code w cl (print \<or> go_json opt) i))"

definition err_code :: "cli_err option \<Rightarrow> nat" where
  "err_code e = fst (exit_code_for e)"

lemma err_code_simps [simp]: "err_code None = 0" "err_code (Some (Coded n m)) = n"
  by (simp_all add: err_code_def exit_code_for_def exit_ok_def)

text \<open>A call fails with the code of its reply, which is then not 0.\<close>

lemma typed_code:
  "call_wants c \<Longrightarrow> typed c w = Inl e \<Longrightarrow> \<exists>m. e = Coded (reply_code True w) m \<and> reply_code True w \<noteq> 0"
  "call_wants c \<Longrightarrow> typed c w = Inr v \<Longrightarrow> reply_code True w = 0 \<and> (\<exists>a. w = Answered a \<and> an_result a = Inr v)"
proof -
  assume c: "call_wants c"
  show "typed c w = Inl e \<Longrightarrow> \<exists>m. e = Coded (reply_code True w) m \<and> reply_code True w \<noteq> 0"
    using c cli_call_code(1) [of c w] by (cases "cli_call c w") (auto simp: typed_def)
  show "typed c w = Inr v \<Longrightarrow> reply_code True w = 0 \<and> (\<exists>a. w = Answered a \<and> an_result a = Inr v)"
    using c cli_call_code(2) [of c w]
    by (cases "cli_call c w") (auto simp: typed_def cli_call_def client_call_def client_do_def split: wire.splits sum.splits if_splits)
qed

lemma loop_end: "snd (watch_loop opt clock (\<lambda>_. None) err evs st) = err"
  by (induction evs arbitrary: st) (auto simp: Let_def split_beta)

lemma visit_end:
  "snd (watch_visit opt v) = (case vi_dial v of Some e \<Rightarrow> map_err e | None \<Rightarrow> Uncoded (vi_end v))"
  by (simp add: watch_visit_def watch_once_def loop_end split: option.split)

lemma session_code: "map_option err_code (snd (watch_session opt vs)) = watch_code (wo_once opt) vs"
proof (induction vs)
  case (Cons v vs)
  obtain o1 e1 where v: "watch_visit opt v = (o1, e1)" by fastforce
  with visit_end [of opt v] have e1: "e1 = (case vi_dial v of Some e \<Rightarrow> map_err e | None \<Rightarrow> Uncoded (vi_end v))" by simp
  show ?case
  proof (cases "vi_dial v")
    case None
    with e1 Cons v show ?thesis
      by (auto simp: Let_def split_beta is_auth_err_def is_conn_closed_def is_reconnectable_def)
  next
    case (Some e)
    with e1 Cons v show ?thesis
      by (cases e) (auto simp: Let_def split_beta is_auth_err_def is_conn_closed_def is_reconnectable_def map_err_def exit_defs)
  qed
qed simp

lemma profile_exit:
  assumes "run_profile (\<lambda>t. open_url q (cw_open w t) t) \<lparr>po_print = print, po_json = json\<rparr> i
      (typed (CallGetBuild i) (cw_build w cl i)) (typed (CallProfile i) (cw_profile w cl i)) = (out, e)"
  shows "err_code e = profile_code w cl (print \<or> json) i"
proof (cases "typed (CallGetBuild i) (cw_build w cl i)")
  case (Inl x)
  from typed_code(1) [OF _ this] obtain m where m: "x = Coded (reply_code True (cw_build w cl i)) m"
    "reply_code True (cw_build w cl i) \<noteq> 0" by auto
  have "err_code e = reply_code True (cw_build w cl i)"
    using assms Inl m(1) by (simp add: run_profile_def resolve_profile_target_def) auto
  with m(2) show ?thesis by (cases "cw_build w cl i") (simp_all add: profile_code_def)
next
  case (Inr b)
  from typed_code(2) [OF _ this] obtain a where a: "cw_build w cl i = Answered a" "an_result a = Inr b"
    "reply_code True (Answered a) = 0" by auto
  show ?thesis
  proof (cases "a_profile b = []")
    case False
    with assms Inr a show ?thesis
      by (auto simp: run_profile_def resolve_profile_target_def profile_code_def open_url_def exit_defs split: option.splits if_splits)
  next
    case True
    show ?thesis
    proof (cases "typed (CallProfile i) (cw_profile w cl i)")
      case (Inl x)
      from typed_code(1) [OF _ this] assms Inr Inl a True show ?thesis
        by (auto simp: run_profile_def resolve_profile_target_def profile_code_def Let_def split: wire.split)
    next
      case (Inr p)
      from typed_code(2) [OF _ this] obtain r where r: "cw_profile w cl i = Answered r" "an_result r = Inr p"
        "reply_code True (Answered r) = 0" by auto
      with assms \<open>typed (CallGetBuild i) (cw_build w cl i) = Inr b\<close> Inr a True show ?thesis
        by (auto simp: run_profile_def resolve_profile_target_def profile_code_def open_url_def exit_defs split: option.splits if_splits)
    qed
  qed
qed

lemma admission_exit:
  "cli_client opt (cw_env w) (cw_files w) = Inr cl \<Longrightarrow>
     err_code (snd (admission_cmd w opt verb c)) = reply_code (call_wants c) (cw_switch w cl c)"
  using cli_call_code [of c "cw_switch w cl c"]
  by (cases "cli_call c (cw_switch w cl c)") (auto simp: admission_cmd_def run_admission_def)

lemma command_exit:
  assumes "cli_client opt (cw_env w) (cw_files w) = Inr cl"
  shows "map_option err_code (snd (run_command w opt c)) = command_code w opt cl c"
proof (cases c)
  case (CmdKill i)
  have "err_code (snd (kill_cmd w opt i)) = reply_code True (cw_kill w cl i)"
    using assms typed_code [of "CallKill i" "cw_kill w cl i"]
    by (cases "typed (CallKill i) (cw_kill w cl i)") (auto simp: kill_cmd_def run_kill_def)
  with CmdKill show ?thesis by (simp add: command_code_def)
next
  case CmdLs
  have "err_code (snd (ls_cmd w opt)) = reply_code True (cw_builds w cl)"
    using assms typed_code [of CallListBuilds "cw_builds w cl"]
    by (cases "typed CallListBuilds (cw_builds w cl)") (auto simp: ls_cmd_def run_ls_def)
  with CmdLs show ?thesis by (simp add: command_code_def)
next
  case (CmdWatch once)
  with assms session_code [of "\<lparr>wo_json = go_json opt, wo_once = once, wo_tty = cw_tty w \<and> \<not> go_json opt\<rparr>" "cw_visits w cl"]
  show ?thesis by (simp add: watch_cmd_def command_code_def)
next
  case (CmdProfile i print)
  obtain out e where r: "run_profile (\<lambda>t. open_url (cw_quote w) (cw_open w t) t) \<lparr>po_print = print, po_json = go_json opt\<rparr> i
      (typed (CallGetBuild i) (cw_build w cl i)) (typed (CallProfile i) (cw_profile w cl i)) = (out, e)" by fastforce
  with assms profile_exit [OF r] CmdProfile show ?thesis by (simp add: profile_cmd_def command_code_def)
qed (simp_all add: admission_exit [OF assms] command_code_def)

lemma no_client_exit:
  assumes "cli_client opt (cw_env w) (cw_files w) = Inl e" and "c \<noteq> CmdVersion"
  shows "map_option err_code (snd (run_command w opt c)) = Some 2"
proof -
  have "\<exists>m. e = Coded 2 m" using assms(1) by (auto simp: cli_client_def cli_config_err_def exit_defs split: sum.splits)
  with assms show ?thesis
    by (cases c) (auto simp: ls_cmd_def kill_cmd_def admission_cmd_def profile_cmd_def watch_cmd_def run_ls_def run_kill_def
        run_admission_def)
qed

text \<open>An error always has a code that is not 0.\<close>

definition failing :: "cli_err \<Rightarrow> bool" where
  "failing e \<longleftrightarrow> (\<forall>m. e \<noteq> Coded 0 m)"

lemma failing_line: "(\<And>e. x = Some e \<Longrightarrow> failing e) \<Longrightarrow> snd (exit_code_for x) = [] \<longleftrightarrow> fst (exit_code_for x) = 0"
  by (auto simp: exit_code_for_def failing_def exit_defs split: option.split cli_err.split)

lemma map_err_failing: "failing (map_err e)"
  by (cases e) (simp_all add: map_err_def failing_def exit_defs)

lemma cli_call_failing: "cli_call c w = Inl e \<Longrightarrow> failing e"
  by (auto simp: cli_call_def map_err_failing split: sum.splits)

lemma typed_failing: "typed c w = Inl e \<Longrightarrow> failing e"
  by (cases "cli_call c w") (auto simp: typed_def dest: cli_call_failing)

lemma client_failing: "cli_client opt env fs = Inl e \<Longrightarrow> failing e"
  by (auto simp: cli_client_def cli_config_err_def failing_def exit_defs split: sum.splits)

lemma visit_failing: "failing (snd (watch_visit opt v))"
  unfolding visit_end using map_err_failing by (simp add: failing_def split: option.split)

lemma session_failing: "snd (watch_session opt vs) = Some (Some e) \<Longrightarrow> failing e"
proof (induction vs)
  case (Cons v vs)
  obtain o1 e1 where "watch_visit opt v = (o1, e1)" by fastforce
  with Cons visit_failing [of opt v] show ?case by (auto simp: Let_def split_beta split: if_splits)
qed simp

lemma profile_failing:
  "run_profile (\<lambda>t. open_url q (f t) t) opt i (typed c1 w1) (typed c2 w2) = (out, Some e) \<Longrightarrow> failing e"
  using typed_failing [of c1 w1 e] typed_failing [of c2 w2 e]
  by (auto simp: run_profile_def resolve_profile_target_def open_url_def failing_def exit_defs split: sum.splits if_splits option.splits)

lemma command_failing:
  assumes "snd (run_command w opt c) = Some (Some e)" shows "failing e"
proof (cases "cli_client opt (cw_env w) (cw_files w)")
  case (Inl e')
  with assms client_failing [OF Inl] show ?thesis
    by (cases c) (auto simp: ls_cmd_def kill_cmd_def admission_cmd_def profile_cmd_def watch_cmd_def run_ls_def run_kill_def
        run_admission_def)
next
  case (Inr cl)
  show ?thesis
  proof (cases c)
    case (CmdProfile i print)
    let ?r = "run_profile (\<lambda>t. open_url (cw_quote w) (cw_open w t) t) \<lparr>po_print = print, po_json = go_json opt\<rparr> i
        (typed (CallGetBuild i) (cw_build w cl i)) (typed (CallProfile i) (cw_profile w cl i))"
    from CmdProfile assms Inr have "snd ?r = Some e" by (simp add: profile_cmd_def)
    then have "?r = (fst ?r, Some e)" by (simp add: prod_eq_iff)
    then show ?thesis by (rule profile_failing)
  qed (use assms Inr in \<open>auto simp: ls_cmd_def kill_cmd_def admission_cmd_def watch_cmd_def run_ls_def run_kill_def run_admission_def
      dest: typed_failing cli_call_failing session_failing split: sum.splits\<close>)
qed


definition cut_off_world :: cli_world where
  "cut_off_world = \<lparr>cw_version = version_string ''dev'' ''none'' ''unknown'', cw_env = home_env,
     cw_files = (\<lambda>_. NoFile)(''/c'' := Json (marshal (home_config ''t''))),
     cw_builds = (\<lambda>_. Unreachable ''refused''), cw_kill = (\<lambda>_ _. Unreachable ''refused''),
     cw_switch = (\<lambda>_ _. Unreachable ''refused''), cw_build = (\<lambda>_ _. Unreachable ''refused''),
     cw_profile = (\<lambda>_ _. Unreachable ''refused''), cw_visits = (\<lambda>_. []), cw_tty = True, cw_quote = id, cw_open = (\<lambda>_. None)\<rparr>"

definition file_opts :: global_opts where
  "file_opts = \<lparr>go_json = False, go_config = ''/c'', go_port = 0, go_token = []\<rparr>"

lemma file_client: "cli_client file_opts env (cw_files cut_off_world) = Inr (new_client default_host default_port ''t'')"
  by (simp add: cli_client_def load_config_def resolve_config_path_def file_opts_def cut_off_world_def marshal_def home_config_def
      default_port_def Let_def)

section \<open>A kill from the command line\<close>

text \<open>The reply of the broker as the client's library decodes it into a kill result; \<open>raw\<close> is its text.\<close>

definition kill_of_body :: "reply_body \<Rightarrow> string + api_kill" where
  "kill_of_body b = (case b of KillBody (KillReply st k) \<Rightarrow> Inr k | _ \<Rightarrow> Inl ''decode'')"

definition kill_wire :: "string \<Rightarrow> reply \<Rightarrow> api_kill wire" where
  "kill_wire raw r = Answered \<lparr>an_status = re_status r, an_error = error_doc (re_body r), an_raw = raw, an_result = kill_of_body (re_body r)\<rparr>"

definition freshened :: "outside \<Rightarrow> metrics_json registry \<Rightarrow> metrics_json registry" where
  "freshened w rg = (case os_freshen w of None \<Rightarrow> rg | Some f \<Rightarrow> f rg)"

text \<open>The build has a process, and that process is gone.\<close>

definition kill_done :: "outside \<Rightarrow> string \<Rightarrow> metrics_json registry \<Rightarrow> bool" where
  "kill_done w i rg \<longleftrightarrow>
     (case rg_get i (freshened w rg) of
        None \<Rightarrow> False
      | Some b \<Rightarrow> 0 < b_pid b \<and>
          process_gone (os_kill_cfg w) \<lparr>ks_pid = b_pid b, ks_exe = b_exe b, ks_force = False\<rparr> (os_kill_env w))"

lemma kill_seam_reply:
  assumes "kill_seam w now rq [i] s = Some (r, s')" and "rq_kill rq = (False, False)" and "i \<noteq> []"
  shows "if kill_done w i (bk_reg s) then re_status r = 200 \<and> (\<exists>k. re_body r = KillBody (KillReply 200 k))
    else re_status r \<in> {404, 409, 500}"
proof -
  obtain x sent rg where k: "handle_kill (os_kill_cfg w) (os_freshen w) i (False, False) (os_kill_env w) (os_kill_took w) (bk_reg s) =
      Some (x, sent, rg)"
    and r: "r = (case x of KillError st code msg \<Rightarrow> reply_error st code msg | KillReply st k \<Rightarrow> \<lparr>re_status = st, re_body = KillBody x\<rparr>)"
    using assms(1,2) by (auto simp: kill_seam_def split: option.splits kill_reply.splits)
  show ?thesis
  proof (cases "rg_get i (freshened w (bk_reg s))")
    case None
    with k r assms(3) show ?thesis by (auto simp: handle_kill_def kill_done_def freshened_def reply_error_def)
  next
    case (Some b)
    show ?thesis
    proof (cases "0 < b_pid b")
      case False
      with Some k r assms(3) show ?thesis by (auto simp: handle_kill_def kill_done_def freshened_def reply_error_def)
    next
      case True
      let ?s = "\<lparr>ks_pid = b_pid b, ks_exe = b_exe b, ks_force = False\<rparr>"
      obtain o1 e l where p: "kill_proc (os_kill_cfg w) ?s (os_kill_env w) = Some ((o1, e), l)"
        using True Some k assms(3) by (auto simp: handle_kill_def freshened_def Let_def split: option.splits)
      with True Some k r assms(3) kill_succeeds_iff [OF p] show ?thesis
        by (auto simp: handle_kill_def kill_done_def freshened_def Let_def)
    qed
  qed
qed

text \<open>
  C16: \<open>brokerctl kill\<close> exits 0 exactly if the process is gone.  With the daemon on the other side and its token,
  a kill that is answered ends with exit code 0 if the registry, after the discovery pass of the request, has
  the build with a pid and the process was found gone before a signal was sent, seen to go in the grace
  window, or seen to go after SIGKILL; otherwise (no such build, no pid, another program under that pid, a
  process that survived) it ends with 5.
\<close>

theorem kill_command_reports_death:
  assumes "cli_client opt (cw_env cw) (cw_files cw) = Inr cl" and "cw_kill cw cl i = kill_wire raw r"
    and "plain (ac_token cl)" "ac_token cl \<noteq> []" "sv_token sv = ac_token cl" and "sv_seams sv = broker_seams w" and "plain_id i"
    and "serve_http sv ok now (call_request cl (CallKill i)) s = Some (r, s')"
  shows "map_option fst (snd (brokerctl cw (Parsed opt (CmdKill i)))) =
    Some (if kill_done w i (bk_reg s) then exit_ok else exit_broker)"
proof -
  from assms(8) client_served [OF assms(3-5), of "CallKill i"] assms(7)
  have "handle_route sv ok now (call_request cl (CallKill i)) RtKillBuild [i] s = Some (r, s')" by simp
  then have seam: "kill_seam w now (call_request cl (CallKill i)) [i] s = Some (r, s')"
    using assms(6) by (simp add: handle_route_def broker_seams_def)
  have "if kill_done w i (bk_reg s) then re_status r = 200 \<and> (\<exists>k. re_body r = KillBody (KillReply 200 k))
      else re_status r \<in> {404, 409, 500}"
    by (rule kill_seam_reply [OF seam]) (use assms(7) in \<open>auto simp: call_request_def plain_id_def comp_ok_def\<close>)
  then show ?thesis
    by (auto simp: kill_cmd_def run_kill_def assms(1,2) typed_def cli_call_def client_call_def client_do_def kill_wire_def
        kill_of_body_def map_err_def new_status_error_def exit_code_for_def Let_def split: if_splits prod.splits)
qed

definition one_process :: broker where
  "one_process = fresh_broker\<lparr>bk_reg := (bk_reg fresh_broker)\<lparr>rg_builds := [(''a'', empty_build\<lparr>b_id := ''a'', b_pid := 7\<rparr>)]\<rparr>\<rparr>"

theorem kill_command_reports_death_witness:
  "\<exists>r s' cw. serve_http plain_server True 1 (call_request (new_client default_host default_port ''t'') (CallKill ''a'')) one_process =
       Some (r, s') \<and> cw_kill cw = (\<lambda>_ _. kill_wire [] r) \<and>
     map_option fst (snd (brokerctl cw (Parsed file_opts (CmdKill ''a'')))) = Some exit_ok"
proof -
  let ?cl = "new_client default_host default_port ''t''"
  let ?s = "\<lparr>ks_pid = 7, ks_exe = [], ks_force = False\<rparr>"
  have t: "plain (ac_token ?cl)" "ac_token ?cl \<noteq> []" "sv_token plain_server = ac_token ?cl" "plain_id ''a''"
    by (simp_all add: new_client_def Let_def plain_server_def plain_char_def plain_id_def comp_ok_def)
  have g: "rg_get ''a'' (bk_reg one_process) = Some (empty_build\<lparr>b_id := ''a'', b_pid := 7\<rparr>)" by (simp add: one_process_def rg_get_def)
  have x: "b_exe (empty_build\<lparr>b_id := ''a'', b_pid := 7\<rparr>) = []" by (simp add: empty_build_def)
  have k: "kill_proc plain_cfg ?s quiet_env = Some ((OutcomeGraceful, None), graceful_signal)"
    by (simp add: kill_simps)
  from client_served [OF t(1-3), of "CallKill ''a''"] t(4)
  have "serve_http plain_server True 1 (call_request ?cl (CallKill ''a'')) one_process =
      kill_seam quiet_outside 1 (call_request ?cl (CallKill ''a'')) [''a''] one_process"
    by (simp add: handle_route_def broker_seams_def plain_server_def)
  also obtain r s' where "\<dots> = Some (r, s')"
    using k g x by (auto simp: kill_seam_def handle_kill_def call_request_def quiet_outside_def)
  finally have serve: "serve_http plain_server True 1 (call_request ?cl (CallKill ''a'')) one_process = Some (r, s')" .
  let ?cw = "cut_off_world\<lparr>cw_kill := (\<lambda>_ _. kill_wire [] r)\<rparr>"
  have "kill_done quiet_outside ''a'' (bk_reg one_process)"
    using k kill_succeeds_iff [of plain_cfg ?s quiet_env OutcomeGraceful None graceful_signal] g x
    by (simp add: kill_done_def freshened_def quiet_outside_def)
  moreover have "sv_seams plain_server = broker_seams quiet_outside" by (simp add: plain_server_def)
  ultimately have "map_option fst (snd (brokerctl ?cw (Parsed file_opts (CmdKill ''a'')))) = Some exit_ok"
    using kill_command_reports_death [of file_opts ?cw ?cl "''a''" "[]" r plain_server quiet_outside True 1 one_process s'] t serve file_client
    by simp
  with serve show ?thesis by (intro exI [of _ r] exI [of _ s'] exI [of _ ?cw]) simp
qed

end
