(* ===== verification/Spec2Isabelle.thy ===== *)
theory Spec2Isabelle
  imports Engine_Life Daemon_Events Daemon_Tailers Broker_Process Bep_Tail Cli_Main
begin

text \<open>
  A model of the Bazel Broker: the daemon \<open>broker\<close>, which keeps a registry of the Bazel builds of one
  machine, admits new builds, finds and kills running ones, ingests their build event streams and
  serves all of that over HTTP, and its command line tool \<open>brokerctl\<close>.

  \<^bold>\<open>The program and its theories.\<close>  Paths are under \<open>src/\<close>.

  \<^item> \<^bold>\<open>Go and its library.\<close>  \<open>Broker_Prelude\<close> (maps that the code iterates over are association lists,
    times and durations are nanoseconds, \<open>int\<close> and \<open>int64\<close> wrap through \<open>wrap64\<close>), \<open>Go_Strings\<close>
    (\<open>strings\<close>, \<open>strconv\<close>), \<open>Go_Path\<close> (\<open>path/filepath\<close>), \<open>Go_Float\<close> (\<open>float64\<close> as rationals rounded to
    53 bits), \<open>Go_Time\<close> (RFC 3339 and the calendar).

  \<^item> \<^bold>\<open>Admission\<close>, \<open>internal/admission\<close>.  \<open>Gates\<close>: the semaphore, the CPU/RAM token bucket, the stagger
    gate and their chain (\<open>gates.go\<close>).  \<open>Engine\<close>: the queue, the index, the waiters, \<open>schedule\<close>,
    \<open>Admit\<close>, \<open>Release\<close>, timers, collector and reaper (\<open>engine.go\<close>, \<open>run.go\<close>).  \<open>Engine_Inv\<close>: invariants
    and the loop rule of \<open>schedule\<close>.  \<open>Engine_Steps\<close>: the interleaving relation and the coarse one.
    \<open>Engine_Props\<close>, \<open>Engine_Delivery\<close>, \<open>Engine_Life\<close>: the properties.  \<open>Admission_Http\<close>: the adapter to the registry
    (\<open>wiring.go\<close>) and the handlers (\<open>http.go\<close>).  \<open>Load_Probe\<close>: the sample of the machine's load
    (\<open>probe.go\<close>, \<open>probe_darwin.go\<close>).

  \<^item> \<^bold>\<open>Registry and store.\<close>  \<open>Build_Model\<close> (\<open>internal/build\<close>, \<open>internal/api\<close>), \<open>Hub\<close> and \<open>Registry\<close>
    (\<open>internal/registry\<close>), \<open>Metrics\<close> (\<open>internal/metrics\<close>), \<open>Store\<close> (\<open>internal/store\<close>: rows and queries),
    \<open>Store_Migration\<close> (the schema scripts).  \<open>Registry_Props\<close>, \<open>Registry_Sync\<close>: the properties.

  \<^item> \<^bold>\<open>Discovery and killing\<close>, \<open>internal/discovery\<close>.  \<open>Discovery\<close>: the scan, worktree resolution and the
    reconcile pass.  \<open>Kill\<close>: the signal protocol and its handler.

  \<^item> \<^bold>\<open>Build events\<close>, \<open>internal/bep\<close>.  \<open>Bep_Stream\<close>, \<open>Bep_Stream_Props\<close> (dispatcher and
    the life of a file), \<open>Bep_Tail\<close> (tail sessions and their supervisor), \<open>Bep_Manager\<close> (the supervisor of the tailers), \<open>Disk_Cache\<close> (report and pruning), \<open>Bep_Provider\<close>
    (the metrics and profile routes and the wiring of the ingest).

  \<^item> \<^bold>\<open>HTTP\<close>, \<open>internal/httpapi\<close>.  \<open>Http_Api\<close>: router, middleware, live handlers, seams.  \<open>Http_Props\<close>: the
    broker's seams plugged in.  \<open>Events_Stream\<close>: the WebSocket stream and the table of \<open>brokerctl watch\<close>.

  \<^item> \<^bold>\<open>Configuration, client, command line.\<close>  \<open>Daemon_Config\<close> (\<open>internal/config\<close>,
    \<open>internal/cli/config.go\<close>), \<open>Api_Client\<close> (\<open>internal/apiclient\<close>), \<open>Cli\<close>, \<open>Cli_Props\<close> (\<open>internal/cli\<close>),
    \<open>Cli_Main\<close> (\<open>cmd/brokerctl\<close>: the process), \<open>Broker_Main\<close>, \<open>Broker_Process\<close> (\<open>cmd/broker\<close>: the start; flags,
    options of the server, log, exit code).

  \<^item> \<^bold>\<open>The whole daemon.\<close>  \<open>Broker_System\<close>: what a step may do to the registry, the hub and the engine.
    \<open>Daemon_Run\<close>: the state of the broker with the manager, its tailers, the long polls, the event connections and the
    terminal-release loop, and one step for everything that \<open>run\<close> starts.  \<open>Terminal_Loop\<close>, \<open>Daemon_Props\<close>,
    \<open>Daemon_Events\<close>, \<open>Daemon_Tailers\<close>: the properties of its runs.  \<open>Daemon_Loops\<close>: the tickers and the loops that repeat a pass.

  \<^bold>\<open>How the parts meet.\<close>  Every operation of the registry writes the changed builds to the store and to the
  hub.  The engine reads a snapshot of the registry in its stagger gate and its reaper, and takes the
  terminal events of the hub to free slots.  Discovery, the killer and the build event streams write to
  the registry.  The server holds the registry, the hub, the engine and the three seams; a request is a
  function from the state of the broker to a reply and the state after it.  The client is composed with
  the server in \<open>Cli_Props\<close>: its request is the server's, its reply decides the exit code.

  \<^bold>\<open>State, steps and concurrency.\<close>  A Go struct is a record, a method a function that returns the changed
  record.  Where the code holds a mutex over a whole method, the method is one atomic step.  Where it
  releases the mutex and takes it again (\<open>Admit\<close>, \<open>Release\<close>, timers; publication in the registry; tailer
  goroutines; the start of an event stream) the pieces are separate functions, and \<open>world_step\<close>,
  \<open>reg_step\<close>, \<open>mgr_step\<close> and \<open>conn_step\<close> interleave them.  \<open>daemon_step\<close> interleaves whole operations of all
  components; there an admission request has two halves, its attachment and its return, an event connection
  opens, subscribes and reads in separate steps, and the terminal-release loop is its two goroutines with the
  channel between them.  A waiter and a subscriber are shared by pointer in
  the code and are addresses into a store here.  The clock, the process table, file contents, the
  results of signals, SQL statements and socket writes are arguments.  A step reads the clock once, where the code may read it
  several times within a method (\<open>schedule\<close> does for each waiter); the moments in between are one there.  A Go map is an association list
  with distinct keys.  Its order stands for that of an iteration, which the code draws afresh each time; it matters only to the
  search for a pid in \<open>Upsert\<close> (\<open>by_pid\<close>), and there only if several records have the pid (\<open>by_pid_unique\<close>).

  \<^bold>\<open>What the lemmas show.\<close>
  \<^item> \<open>Gates\<close>: every gate meets the contract of the \<open>Gate\<close> interface (locales \<open>gate_contract\<close>,
    \<open>capacity_gate\<close>: a refusal changes nothing, acquiring an id twice takes one slot, release undoes
    acquire, the capacity is never exceeded), and the chain of the three meets it again.
  \<^item> \<open>Engine_Inv\<close>, \<open>Engine_Props\<close>: at most \<open>MaxConcurrent\<close> slots in every interleaving, held slots are
    admitted waiters between operations, FIFO, no lost wake-up, drain, pause, redelivery, the ramp.
  \<^item> \<open>Engine_Life\<close>: the states of a waiter as a linear order that every step climbs, and at most one verdict
    for each waiter.
  \<^item> \<open>Registry_Props\<close>, \<open>Registry_Sync\<close>: through the normal form \<open>writes\<close> of all operations, the row of a build is that of its
    record, with overlapping requests and failing writes, as long as its copies are published in order (\<open>ordered_for\<close>);
    terminal states are final; a restart brings the newest builds back; a subscriber that is not dropped can rebuild the map.
  \<^item> \<open>Store\<close>: the laws of a keyed table (locale \<open>keyed_table\<close>), from which insert and lookup, the order of
    queries and the mirror follow.
  \<^item> \<open>Kill\<close>: the results of \<open>killProc\<close> are exactly the runs of the protocol \<open>kill_step\<close> (guard, graceful signals,
    wait, SIGKILL, settle; each step on what it has to see), and it returns.
  \<^item> \<open>Bep_Stream_Props\<close>: builds in one file are accumulated independently, finalized once, persisted, and
    their state reaches the registry.
  \<^item> \<open>Discovery\<close>: the innermost worktree of a directory, and what a pass makes of every record of the registry.
  \<^item> \<open>Http_Props\<close>, \<open>Cli_Props\<close>: requests without the token change nothing, the status of a reply by its cause, what
    the client sends reaches the route it means, and a command has its effect.
  \<^item> \<open>Cli_Main\<close>: the exit code of the process by its cause for every command, and that a kill from the command line exits 0 exactly if the
    process is gone.
  \<^item> \<open>Daemon_Loops\<close>: a tailer outlives the builds of its worktree by thirty seconds; no ticker panics.
  \<^item> \<open>Store_Migration\<close>, \<open>Daemon_Config\<close>, \<open>Broker_Main\<close>: what a first start, a restart and a crash in
    between leave behind.
  \<^item> \<open>Broker_System\<close>, \<open>Daemon_Run\<close>: every step changes the registry only through its operations (\<open>reg_moves\<close>,
    locale \<open>reg_guard\<close>, interpreted for all ids and for the ids that clients should use) and the channels of
    the hub only by appending to those it does not read from (\<open>hub_moves\<close>), so the invariants of the registry
    and the engine hold in every run of the daemon and a build that ends is announced to each attached
    subscriber.
  \<^item> \<open>Terminal_Loop\<close>, \<open>Daemon_Props\<close>: the distance of an announced id from its release (\<open>term_rank\<close>), which no
    step raises and each turn of the loop lowers, so the slot of a build that ended is freed whatever runs in
    between; and that a loop the hub has dropped stays dropped.
  \<^item> \<open>Daemon_Events\<close>: an event connection keeps its client in step with the registry through every step of the
    daemon, since the live connections and the loop read subscriptions of their own (\<open>wired\<close>).
  \<^item> \<open>Daemon_Tailers\<close>: after a pass of the manager each active build has a tailer that reads its file.
  \<^item> \<open>Bep_Tail\<close>, \<open>Load_Probe\<close>: a tail session ends exactly when its file was replaced or has shrunk or the watch is over, and the
    tailer with its supervisor refines the abstract life of a file; a sample is
    in range and is the load average where the record is read whole.

  \<^bold>\<open>Bounds and fuel.\<close>  Loops run over lists and are structural.  Three are not: the walk to the root in
  \<open>resolve_loop\<close>, whose measure is the length of the path; the wait of \<open>killProc\<close>, which consumes a script
  of observations and is \<open>None\<close> when the script ends first (\<open>kill_returns\<close> gives the length that is
  enough: the grace window and the settle window divided by the polling interval); the reconnect loop of
  \<open>watch\<close>, which runs as long as its list of connection outcomes.  The terminal-release loop needs at most 258
  turns for an id: 64 ids may wait in its channel, one in its hand, and each of up to 64 events of its
  subscription takes three moves.

  \<^bold>\<open>What the model does not hold for.\<close>  Theorems that end in the opposite of what a comment promises are
  kept beside the others: \<open>release_race_overadmits\<close> (the mutex is given up before the gates are
  released), \<open>lost_allow_queues_forever\<close>, \<open>drain_while_paused_denies_nobody\<close>,
  \<open>repo_prefix_never_overlaps\<close>, \<open>restart_hides_live_build\<close>, \<open>publish_race_stale_row\<close>, \<open>client_pid_id_overwritten\<close>,
  \<open>pid_reuse_counts_as_dead\<close>, \<open>register_duplicates_discovered\<close>, \<open>finished_build_signalled\<close>,
  \<open>stale_targets_leak\<close>, \<open>crashed_build_finished\<close>, \<open>late_exit_duplicates\<close>, \<open>connect_race_loses_event\<close>,
  \<open>fresh_start_cut_sticks\<close>, \<open>cut_bootstrap_sticks\<close>, \<open>spaced_token_locks_out\<close>,
  \<open>dropped_loop_stays_dropped\<close>, \<open>port_default_not_shared\<close>, \<open>cancelled_request_escalates\<close>, \<open>unnoticed_rebuild_lost\<close>, \<open>probe_blind_on_trimmed\<close>.

  \<^bold>\<open>Not modelled.\<close>  The protobuf and JSON codecs (messages and documents are the values they decode to),
  SQLite below the statements, the HTTP, WebSocket and flag libraries (whether an upgrade is accepted is a field
  of the request), log lines, the system calls behind the load probe and the process scan (the C functions
  around the latter are modelled on their results), the delivery of signals and the draining of requests at a shutdown
  (its outcome is an argument of \<open>broker_main\<close>), the moments at which a ticker fires (a loop runs over the
  passes of its ticks), the non-darwin stubs, the generated bindings, and the wrapper, the menu-bar
  application and the dashboard, which are not Go.
\<close>

end
